(* ===== verification/Wire_Prelude.thy ===== *)
theory Wire_Prelude
  imports Main "HOL-Library.Word" "HOL-Library.Code_Target_Nat"
begin

text \<open>
  The shared ground of the development.  Python's \<^verbatim>\<open>bytes\<close> is a list of
  8-bit words and \<^verbatim>\<open>str\<close> a list of code points.  A function that may raise
  returns a sum, \<open>Inl\<close> the exception and \<open>Inr\<close> the value; \<open>bindE\<close> sequences two
  such steps the way Python statements do, the first exception ending the function.
  The theory holds the little-endian integer layout used by \<^verbatim>\<open>struct.pack\<close> and
  \<^verbatim>\<open>int.from_bytes\<close>, the two loop shapes every decoder of the package uses
  (\<open>encode_each\<close>, \<open>decode_each\<close>), and the interface \<open>field_codec\<close> of a
  self-delimiting field, inside which the loops are proved to invert each other once
  and for all.
\<close>

type_synonym byte = "8 word"
type_synonym bytes = "byte list"
type_synonym codepoint = nat
type_synonym pystr = "codepoint list"

named_theorems bind_inv "inversion of successful sequencing and guards"
named_theorems wire_eval "unfolding used to evaluate the codecs on concrete bytes"

section \<open>Definitions\<close>

subsection \<open>Raising and sequencing\<close>

definition bindE :: "'e + 'a \<Rightarrow> ('a \<Rightarrow> 'e + 'b) \<Rightarrow> 'e + 'b" where
  "bindE m f = (case m of Inl e \<Rightarrow> Inl e | Inr x \<Rightarrow> f x)"

definition raise_if :: "bool \<Rightarrow> 'e \<Rightarrow> 'e + unit" where
  "raise_if bad e = (if bad then Inl e else Inr ())"

definition returns :: "'e + 'a \<Rightarrow> bool" where
  "returns r = (case r of Inl _ \<Rightarrow> False | Inr _ \<Rightarrow> True)"

subsection \<open>Little-endian integers\<close>

text \<open>
  \<open>le_bytes n v\<close> is the \<open>n\<close>-byte little-endian two's complement layout of the
  integer \<open>v\<close>; \<open>le_nat\<close> reads such a layout as an unsigned number.
\<close>

primrec le_bytes :: "nat \<Rightarrow> int \<Rightarrow> bytes" where
  "le_bytes 0 v = []"
| "le_bytes (Suc n) v = word_of_int v # le_bytes n (v div 256)"

primrec le_nat :: "bytes \<Rightarrow> nat" where
  "le_nat [] = 0"
| "le_nat (b # bs) = unat b + 256 * le_nat bs"

subsection \<open>Searching bytes\<close>

text \<open>\<^verbatim>\<open>data.find(b"\x00")\<close>, with \<open>None\<close> for Python's \<open>-1\<close>.\<close>

primrec find_nul :: "bytes \<Rightarrow> nat option" where
  "find_nul [] = None"
| "find_nul (b # bs) = (if b = 0 then Some 0 else map_option Suc (find_nul bs))"

subsection \<open>The two loop shapes\<close>

text \<open>
  \<^verbatim>\<open>for t, x in zip(ts, xs): out.extend(enc(t, x))\<close>.  The lengths are checked by
  the callers, as \<^verbatim>\<open>zip(..., strict=True)\<close> does.
\<close>

fun encode_each :: "('t \<Rightarrow> 'a \<Rightarrow> 'e + bytes) \<Rightarrow> 't list \<Rightarrow> 'a list \<Rightarrow> 'e + bytes" where
  "encode_each enc (t # ts) (x # xs) =
     bindE (enc t x) (\<lambda>b. bindE (encode_each enc ts xs) (\<lambda>bs. Inr (b @ bs)))"
| "encode_each enc ts xs = Inr []"

text \<open>
  \<^verbatim>\<open>for t in ts: x, consumed = dec(data[offset:], t); out.append(x); offset += consumed\<close>.
\<close>

fun decode_each ::
  "('t \<Rightarrow> bytes \<Rightarrow> 'e + ('b \<times> nat)) \<Rightarrow> 't list \<Rightarrow> bytes \<Rightarrow> nat \<Rightarrow> 'e + ('b list \<times> nat)"
where
  "decode_each dec [] data offset = Inr ([], offset)"
| "decode_each dec (t # ts) data offset =
     bindE (dec t (drop offset data)) (\<lambda>(x, consumed).
     bindE (decode_each dec ts data (offset + consumed)) (\<lambda>(xs, offset').
     Inr (x # xs, offset')))"

section \<open>Lemmas\<close>

subsection \<open>Raising and sequencing\<close>

lemma bindE_Inl [simp]: "bindE (Inl e) f = Inl e"
  by (simp add: bindE_def)

lemma bindE_Inr [simp]: "bindE (Inr x) f = f x"
  by (simp add: bindE_def)

lemma bindE_assoc: "bindE (bindE m f) g = bindE m (\<lambda>x. bindE (f x) g)"
  by (simp add: bindE_def split: sum.splits)

lemma bindE_eq_Inr [bind_inv]: "bindE m f = Inr y \<longleftrightarrow> (\<exists>x. m = Inr x \<and> f x = Inr y)"
  by (simp add: bindE_def split: sum.splits)

lemma bindE_eq_Inl: "bindE m f = Inl e \<longleftrightarrow> m = Inl e \<or> (\<exists>x. m = Inr x \<and> f x = Inl e)"
  by (simp add: bindE_def split: sum.splits)

lemma raise_if_eq_Inr [bind_inv]: "raise_if bad e = Inr u \<longleftrightarrow> \<not> bad"
  by (simp add: raise_if_def)

lemma raise_if_eq_Inl: "raise_if bad e = Inl e' \<longleftrightarrow> bad \<and> e' = e"
  by (auto simp add: raise_if_def)

lemma raise_if_simps [simp]: "raise_if True e = Inl e" "raise_if False e = Inr ()"
  by (simp_all add: raise_if_def)

lemma bindE_cong [fundef_cong]:
  assumes "m = m'" and "\<And>x. m' = Inr x \<Longrightarrow> f x = g x"
  shows "bindE m f = bindE m' g"
  using assms by (auto simp add: bindE_def split: sum.splits)

lemma if_error_eq_Inr [bind_inv]: "(if bad then Inl e else r) = Inr y \<longleftrightarrow> \<not> bad \<and> r = Inr y"
  by simp

lemma returns_simps [simp]: "returns (Inr x)" "\<not> returns (Inl e)"
  by (simp_all add: returns_def)

lemma returns_iff: "returns r \<longleftrightarrow> (\<exists>x. r = Inr x)"
  by (cases r) simp_all

lemma returns_bindE: "returns (bindE m f) \<longleftrightarrow> (\<exists>x. m = Inr x \<and> returns (f x))"
  by (cases m) simp_all

subsection \<open>Little-endian integers\<close>

lemma length_le_bytes [simp]: "length (le_bytes n v) = n"
  by (induction n arbitrary: v) simp_all

lemma unat_word8_of_int: "unat (word_of_int v :: byte) = nat (v mod 256)"
  by (simp add: unat_eq_nat_uint uint_word_of_int)

lemma unat_byte_less [simp]: "unat (b :: byte) < 256"
proof -
  have "unat b < 2 ^ LENGTH(8)" by (rule unsigned_less)
  then show ?thesis by simp
qed

lemma le_nat_less: "le_nat bs < 256 ^ length bs"
proof (induction bs)
  case Nil
  show ?case by simp
next
  case (Cons b bs)
  have "unat b + 256 * le_nat bs < 256 + 256 * le_nat bs" by simp
  also have "\<dots> \<le> 256 * 256 ^ length bs" using Cons.IH by simp
  finally show ?case by simp
qed

lemma le_nat_le_bytes: "int (le_nat (le_bytes n v)) = v mod 256 ^ n"
proof (induction n arbitrary: v)
  case 0
  show ?case by simp
next
  case (Suc n)
  have "int (le_nat (le_bytes (Suc n) v)) = v mod 256 + 256 * ((v div 256) mod 256 ^ n)"
    by (simp add: Suc.IH unat_word8_of_int)
  also have "\<dots> = v mod (256 * 256 ^ n)"
    by (simp add: mod_mult2_eq' zmod_zmult2_eq)
  finally show ?case by simp
qed

lemma le_nat_le_bytes_nat [simp]: "m < 256 ^ n \<Longrightarrow> le_nat (le_bytes n (int m)) = m"
proof -
  assume "m < 256 ^ n"
  then have "int m < 256 ^ n" by (metis of_nat_less_iff of_nat_numeral of_nat_power)
  then have "int (le_nat (le_bytes n (int m))) = int m" by (simp add: le_nat_le_bytes)
  then show ?thesis by simp
qed

lemma le_bytes_le_nat: "le_bytes (length bs) (int (le_nat bs)) = bs"
proof (induction bs)
  case Nil
  show ?case by simp
next
  case (Cons b bs)
  have "word_of_int (int (unat b) + 256 * int (le_nat bs)) = b"
  proof -
    have "(unat b + 256 * le_nat bs) mod 256 = unat b" by (simp del: le_nat.simps)
    then have "nat ((int (unat b) + 256 * int (le_nat bs)) mod 256) = unat b"
      by (metis nat_int of_nat_add of_nat_mod of_nat_mult of_nat_numeral)
    then show ?thesis by (metis unat_word8_of_int word_unat_eq_iff)
  qed
  moreover have "(int (unat b) + 256 * int (le_nat bs)) div 256 = int (le_nat bs)"
  proof -
    have "uint b < 256" using uint_lt2p [of b] by simp
    then show ?thesis by (simp add: div_pos_pos_trivial)
  qed
  ultimately show ?case using Cons.IH by simp
qed

lemma le_nat_inj: "length bs = length cs \<Longrightarrow> le_nat bs = le_nat cs \<Longrightarrow> bs = cs"
  by (metis le_bytes_le_nat)

lemma le_nat_replicate_0 [simp]: "le_nat (replicate n 0) = 0"
  by (induction n) simp_all

lemma le_bytes_0 [simp]: "le_bytes n 0 = replicate n 0"
  by (induction n) simp_all

subsection \<open>Searching bytes\<close>

lemma find_nul_None_iff: "find_nul bs = None \<longleftrightarrow> 0 \<notin> set bs"
  by (induction bs) auto

lemma find_nul_Some_less: "find_nul bs = Some p \<Longrightarrow> p < length bs"
  by (induction bs arbitrary: p) (auto split: if_splits)

lemma find_nul_Some_nth: "find_nul bs = Some p \<Longrightarrow> bs ! p = 0"
  by (induction bs arbitrary: p) (auto split: if_splits)

lemma find_nul_Some_prefix: "find_nul bs = Some p \<Longrightarrow> 0 \<notin> set (take p bs)"
  by (induction bs arbitrary: p) (auto split: if_splits)

lemma find_nul_append:
  "find_nul (xs @ ys) =
     (case find_nul xs of Some p \<Rightarrow> Some p | None \<Rightarrow> map_option ((+) (length xs)) (find_nul ys))"
proof (induction xs)
  case Nil
  show ?case by (cases "find_nul ys") simp_all
next
  case (Cons x xs)
  then show ?case by (cases "find_nul ys") (auto split: option.splits)
qed

lemma find_nul_no_nul: "0 \<notin> set xs \<Longrightarrow> find_nul (xs @ 0 # ys) = Some (length xs)"
  by (induction xs) auto

lemma find_nul_take:
  "find_nul (take n bs) =
     (case find_nul bs of Some p \<Rightarrow> (if p < n then Some p else None) | None \<Rightarrow> None)"
proof (induction bs arbitrary: n)
  case Nil
  show ?case by simp
next
  case (Cons b bs)
  show ?case by (cases n) (auto simp: Cons.IH split: option.splits)
qed

subsection \<open>Self-delimiting fields\<close>

text \<open>
  The contract of one wire field: whatever bytes follow it, decoding what was encoded
  gives back the value (up to \<open>img\<close>, the decoder's view of it) and consumes exactly the
  bytes written.  \<open>'t\<close> is the tag that selects the layout (a value type, or unit).
\<close>

locale field_codec =
  fixes enc :: "'t \<Rightarrow> 'a \<Rightarrow> 'e + bytes"
    and dec :: "'t \<Rightarrow> bytes \<Rightarrow> 'e + ('b \<times> nat)"
    and img :: "'t \<Rightarrow> 'a \<Rightarrow> 'b"
  assumes dec_enc: "enc t x = Inr bs \<Longrightarrow> dec t (bs @ rest) = Inr (img t x, length bs)"
begin

lemma decode_each_encode_each:
  assumes "encode_each enc ts xs = Inr bs" and "length ts = length xs"
    and "data = pre @ bs @ rest"
  shows "decode_each dec ts data (length pre)
    = Inr (map2 img ts xs, length pre + length bs)"
  using assms
proof (induction ts arbitrary: xs bs pre)
  case Nil
  then show ?case by simp
next
  case (Cons t ts)
  then obtain x xs' where xs: "xs = x # xs'" by (cases xs) auto
  with Cons.prems(1) obtain b bs' where enc: "enc t x = Inr b"
    and encs: "encode_each enc ts xs' = Inr bs'" and bs: "bs = b @ bs'"
    by (auto simp: bind_inv)
  have "decode_each dec ts data (length (pre @ b))
      = Inr (map2 img ts xs', length (pre @ b) + length bs')"
    using Cons.prems xs bs by (intro Cons.IH [OF encs]) simp_all
  then show ?case
    using Cons.prems(3) dec_enc [OF enc] by (simp add: xs bs add.assoc)
qed

end

text \<open>
  The contract of a decoder of whole words: what it consumes is there, and is at least one
  word.  A \<open>strict_decoder\<close> in addition raises only exceptions of a given kind.  The decoding
  loop over such fields keeps both promises.
\<close>

locale word_decoder =
  fixes dec :: "'t \<Rightarrow> bytes \<Rightarrow> 'e + ('b \<times> nat)"
  assumes dec_consumed: "dec t data = Inr (x, n) \<Longrightarrow> 8 \<le> n \<and> n \<le> length data \<and> n mod 8 = 0"
begin

lemma decode_each_consumed:
  assumes "decode_each dec ts data offset = Inr (xs, offset')" and "offset \<le> length data"
  shows "length xs = length ts \<and> offset + 8 * length ts \<le> offset' \<and> offset' \<le> length data
    \<and> offset' mod 8 = offset mod 8"
  using assms
proof (induction ts arbitrary: xs offset)
  case Nil
  then show ?case by simp
next
  case (Cons t ts)
  then obtain x n ys where d: "dec t (drop offset data) = Inr (x, n)"
    and r: "decode_each dec ts data (offset + n) = Inr (ys, offset')" and xs: "xs = x # ys"
    by (auto simp: bind_inv)
  have n: "8 \<le> n" "n \<le> length data - offset" "n mod 8 = 0" using dec_consumed [OF d] by simp_all
  then have "offset + n \<le> length data" using Cons.prems(2) by linarith
  from Cons.IH [OF r this] n xs show ?case by (simp add: mod_add_eq [of offset 8 n, symmetric])
qed

end

locale strict_decoder = word_decoder dec for dec :: "'t \<Rightarrow> bytes \<Rightarrow> 'e + ('b \<times> nat)" +
  fixes allowed :: "'e \<Rightarrow> bool"
  assumes dec_error: "dec t data = Inl e \<Longrightarrow> allowed e"
begin

lemma decode_each_error: "decode_each dec ts data offset = Inl e \<Longrightarrow> allowed e"
  by (induction ts arbitrary: offset) (auto simp: bindE_eq_Inl dest: dec_error)

end

end
