(* ===== verification/Wire_Exceptions.thy ===== *)
theory Wire_Exceptions
  imports Wire_Prelude
begin

text \<open>
  The exceptions of \<^verbatim>\<open>src/dqlitewire/exceptions.py\<close> together with the built-in ones
  the package lets through.  An exception carries the fields the source gives it
  (\<^verbatim>\<open>StreamError\<close> its two counters, \<^verbatim>\<open>ServerFailure\<close> its code and message,
  \<^verbatim>\<open>PoisonedError\<close> its \<^verbatim>\<open>__cause__\<close>); in place of the rendered message an
  \<^verbatim>\<open>EncodeError\<close>, \<^verbatim>\<open>DecodeError\<close> or \<^verbatim>\<open>HandshakeError\<close> carries a \<open>fault\<close>,
  the kind of check that failed.  The subclass tests are the \<^verbatim>\<open>except\<close> clauses of the code.
\<close>

section \<open>Definitions\<close>

datatype fault =
    WrongType        \<comment> \<open>an \<^verbatim>\<open>isinstance\<close> check\<close>
  | OutOfRange       \<comment> \<open>an integer outside its field's range\<close>
  | TooShort         \<comment> \<open>fewer bytes than the layout needs\<close>
  | TooLong          \<comment> \<open>a size above its cap\<close>
  | TooMany          \<comment> \<open>a count above its cap\<close>
  | BadUtf8
  | EmbeddedNul
  | NotTerminated    \<comment> \<open>text without its NUL\<close>
  | BadPadding       \<comment> \<open>text whose padding is cut off\<close>
  | BadTag           \<comment> \<open>a type code that is not a member of its enum\<close>
  | BadSchema
  | BadLength        \<comment> \<open>a body that must have one exact size\<close>
  | Trailing         \<comment> \<open>bytes left after the last field\<close>
  | Misaligned       \<comment> \<open>a size that is not a multiple of the word\<close>
  | Malformed        \<comment> \<open>a combination of fields that is not allowed\<close>
  | Mismatch         \<comment> \<open>two lengths that should agree\<close>
  | Duplicate
  | BadRole
  | BadFormat
  | BadPolicy
  | NoMarker         \<comment> \<open>rows without their end marker\<close>
  | Oversized        \<comment> \<open>a message above \<^verbatim>\<open>max_message_size\<close>\<close>
  | Torn             \<comment> \<open>a torn header read\<close>
  | Desync           \<comment> \<open>a capped skip\<close>
  | Drift            \<comment> \<open>columns that change between frames\<close>
  | NotReady         \<comment> \<open>the handshake has not been received, or was received already\<close>
  | BadVersion

datatype exc =
    EncodeError fault
  | DecodeError fault
  | StreamError (frame_count: nat) (total_rows: nat)
  | PoisonedError exc
  | HandshakeError fault
  | ContinuationError
  | ServerFailure (failure_code: int) (failure_message: pystr)
  | UnicodeEncodeError
  | UnicodeDecodeError
  | ValueError
  | TypeError
  | StructError
  | RuntimeError

type_synonym 'a result = "exc + 'a"

fun is_EncodeError :: "exc \<Rightarrow> bool" where
  "is_EncodeError (EncodeError _) = True"
| "is_EncodeError _ = False"

fun is_DecodeError :: "exc \<Rightarrow> bool" where
  "is_DecodeError (DecodeError _) = True"
| "is_DecodeError _ = False"

text \<open>\<^verbatim>\<open>PoisonedError\<close> is a subclass of \<^verbatim>\<open>StreamError\<close>.\<close>

fun is_StreamError :: "exc \<Rightarrow> bool" where
  "is_StreamError (StreamError _ _) = True"
| "is_StreamError (PoisonedError _) = True"
| "is_StreamError _ = False"

fun is_ServerFailure :: "exc \<Rightarrow> bool" where
  "is_ServerFailure (ServerFailure _ _) = True"
| "is_ServerFailure _ = False"

fun is_ProtocolError :: "exc \<Rightarrow> bool" where
  "is_ProtocolError (EncodeError _) = True"
| "is_ProtocolError (DecodeError _) = True"
| "is_ProtocolError (StreamError _ _) = True"
| "is_ProtocolError (PoisonedError _) = True"
| "is_ProtocolError (HandshakeError _) = True"
| "is_ProtocolError ContinuationError = True"
| "is_ProtocolError (ServerFailure _ _) = True"
| "is_ProtocolError _ = False"

text \<open>Python's \<^verbatim>\<open>str\<close> of an int, as code points.\<close>

fun nat_digits :: "nat \<Rightarrow> pystr" where
  "nat_digits n = (if n < 10 then [48 + n] else nat_digits (n div 10) @ [48 + n mod 10])"

definition int_str :: "int \<Rightarrow> pystr" where
  "int_str i = (if i < 0 then 45 # nat_digits (nat (- i)) else nat_digits (nat i))"

text \<open>
  CPython refuses to write an int of more than 4300 decimal digits and raises \<^verbatim>\<open>ValueError\<close>
  instead (\<^verbatim>\<open>sys.int_info.default_max_str_digits\<close>).  A \<^verbatim>\<open>raise E(f"... {i}")\<close> builds its message
  first, so for such an int it raises that \<^verbatim>\<open>ValueError\<close> and not \<open>E\<close>.
\<close>

definition INT_MAX_STR_DIGITS :: nat where
  "INT_MAX_STR_DIGITS = 4300"

definition huge_int :: "int \<Rightarrow> bool" where
  "huge_int i = (10 ^ INT_MAX_STR_DIGITS \<le> \<bar>i\<bar>)"

definition py_str_int :: "int \<Rightarrow> pystr result" where
  "py_str_int i = (if huge_int i then Inl ValueError else Inr (int_str i))"

definition shown_error :: "int \<Rightarrow> exc \<Rightarrow> exc" where
  "shown_error i e = (case py_str_int i of Inl e' \<Rightarrow> e' | Inr _ \<Rightarrow> e)"

definition ascii :: "string \<Rightarrow> pystr" where
  "ascii s = map of_char s"

text \<open>\<^verbatim>\<open>f"[{self.code}] {self.message}"\<close>.\<close>

definition ServerFailure_str :: "int \<Rightarrow> pystr \<Rightarrow> pystr" where
  "ServerFailure_str code message = 91 # int_str code @ [93, 32] @ message"

section \<open>Lemmas\<close>

declare nat_digits.simps [simp del]

lemma subclass_of_ProtocolError [simp]:
  "is_EncodeError e \<Longrightarrow> is_ProtocolError e"
  "is_DecodeError e \<Longrightarrow> is_ProtocolError e"
  "is_StreamError e \<Longrightarrow> is_ProtocolError e"
  "is_ServerFailure e \<Longrightarrow> is_ProtocolError e"
  by (cases e; simp)+

lemma is_DecodeError_iff: "is_DecodeError e \<longleftrightarrow> (\<exists>f. e = DecodeError f)"
  by (cases e) simp_all

lemma is_EncodeError_iff: "is_EncodeError e \<longleftrightarrow> (\<exists>f. e = EncodeError f)"
  by (cases e) simp_all

lemma not_huge_int:
  assumes "\<bar>i\<bar> < 2 ^ 64"
  shows "\<not> huge_int i"
proof -
  have "(2 :: int) ^ 64 \<le> 10 ^ 64" by (rule power_mono) simp_all
  also have "(10 :: int) ^ 64 \<le> 10 ^ INT_MAX_STR_DIGITS"
    by (rule power_increasing) (simp_all add: INT_MAX_STR_DIGITS_def)
  finally show ?thesis using assms by (simp add: huge_int_def)
qed

lemma huge_int_neq: "huge_int i \<Longrightarrow> i \<noteq> 0 \<and> i \<noteq> 1"
  using not_huge_int [of 0] not_huge_int [of 1] by auto

lemma py_str_int_huge [simp]: "huge_int i \<Longrightarrow> py_str_int i = Inl ValueError"
  by (simp add: py_str_int_def)

lemma py_str_int_not_huge [simp]: "\<not> huge_int i \<Longrightarrow> py_str_int i = Inr (int_str i)"
  by (simp add: py_str_int_def)

lemma shown_error_eq: "shown_error i e = (if huge_int i then ValueError else e)"
  by (simp add: shown_error_def)

lemma shown_error_small [simp]: "\<bar>i\<bar> < 2 ^ 64 \<Longrightarrow> shown_error i e = e"
  by (simp add: shown_error_eq not_huge_int del: power_numeral)

lemma length_nat_digits: "n < 10 ^ k \<Longrightarrow> 0 < k \<Longrightarrow> length (nat_digits n) \<le> k"
proof (induction n arbitrary: k rule: nat_digits.induct)
  case (1 n)
  show ?case
  proof (cases "n < 10")
    case True
    then show ?thesis using 1(3) by (subst nat_digits.simps) simp
  next
    case False
    then obtain j where k: "k = Suc j" "0 < j" using 1(2,3) by (cases k; cases "k = 1") auto
    then have "n div 10 < 10 ^ j" using 1(2) by (simp add: div_less_iff_less_mult)
    then have "length (nat_digits (n div 10)) \<le> j" using 1(1) [OF False] k(2) by blast
    then show ?thesis using False k(1) by (subst nat_digits.simps) simp
  qed
qed

lemma nat_digits_are_digits: "\<forall>d \<in> set (nat_digits n). 48 \<le> d \<and> d < 58"
proof (induction n rule: nat_digits.induct)
  case (1 n)
  then show ?case by (subst nat_digits.simps) auto
qed

end
