(* ===== verification/Wire_Constants.thy ===== *)
theory Wire_Constants
  imports Wire_Exceptions
begin

text \<open>
  \<^verbatim>\<open>src/dqlitewire/constants.py\<close> and \<^verbatim>\<open>src/dqlitewire/limits.py\<close>: the enums as
  datatypes with their integer codes, and the size caps.
\<close>

unbundle bit_operations_syntax

section \<open>Definitions\<close>

subsection \<open>Protocol constants\<close>

definition PROTOCOL_VERSION :: int where
  "PROTOCOL_VERSION = 1"

definition PROTOCOL_VERSION_LEGACY :: int where
  "PROTOCOL_VERSION_LEGACY = 0x86104DD760433FE5"

abbreviation WORD_SIZE :: nat where
  "WORD_SIZE \<equiv> 8"

abbreviation HEADER_SIZE :: nat where
  "HEADER_SIZE \<equiv> 8"

definition ROW_DONE_BYTE :: byte where
  "ROW_DONE_BYTE = 0xFF"

definition ROW_PART_BYTE :: byte where
  "ROW_PART_BYTE = 0xEE"

text \<open>\<^verbatim>\<open>int.from_bytes(bytes([B]) * 8, "little")\<close>.\<close>

definition ROW_DONE_MARKER :: int where
  "ROW_DONE_MARKER = int (le_nat (replicate 8 ROW_DONE_BYTE))"

definition ROW_PART_MARKER :: int where
  "ROW_PART_MARKER = int (le_nat (replicate 8 ROW_PART_BYTE))"

subsection \<open>Enums\<close>

datatype request_type =
    RT_LEADER | RT_CLIENT | RT_HEARTBEAT | RT_OPEN | RT_PREPARE | RT_EXEC | RT_QUERY
  | RT_FINALIZE | RT_EXEC_SQL | RT_QUERY_SQL | RT_INTERRUPT | RT_CONNECT | RT_ADD
  | RT_ASSIGN | RT_REMOVE | RT_DUMP | RT_CLUSTER | RT_TRANSFER | RT_DESCRIBE | RT_WEIGHT

fun request_type_code :: "request_type \<Rightarrow> int" where
  "request_type_code RT_LEADER = 0"
| "request_type_code RT_CLIENT = 1"
| "request_type_code RT_HEARTBEAT = 2"
| "request_type_code RT_OPEN = 3"
| "request_type_code RT_PREPARE = 4"
| "request_type_code RT_EXEC = 5"
| "request_type_code RT_QUERY = 6"
| "request_type_code RT_FINALIZE = 7"
| "request_type_code RT_EXEC_SQL = 8"
| "request_type_code RT_QUERY_SQL = 9"
| "request_type_code RT_INTERRUPT = 10"
| "request_type_code RT_CONNECT = 11"
| "request_type_code RT_ADD = 12"
| "request_type_code RT_ASSIGN = 13"
| "request_type_code RT_REMOVE = 14"
| "request_type_code RT_DUMP = 15"
| "request_type_code RT_CLUSTER = 16"
| "request_type_code RT_TRANSFER = 17"
| "request_type_code RT_DESCRIBE = 18"
| "request_type_code RT_WEIGHT = 19"

datatype response_type =
    RS_FAILURE | RS_LEADER | RS_WELCOME | RS_SERVERS | RS_DB | RS_STMT | RS_RESULT
  | RS_ROWS | RS_EMPTY | RS_FILES | RS_METADATA

fun response_type_code :: "response_type \<Rightarrow> int" where
  "response_type_code RS_FAILURE = 0"
| "response_type_code RS_LEADER = 1"
| "response_type_code RS_WELCOME = 2"
| "response_type_code RS_SERVERS = 3"
| "response_type_code RS_DB = 4"
| "response_type_code RS_STMT = 5"
| "response_type_code RS_RESULT = 6"
| "response_type_code RS_ROWS = 7"
| "response_type_code RS_EMPTY = 8"
| "response_type_code RS_FILES = 9"
| "response_type_code RS_METADATA = 10"

datatype value_type =
    INTEGER | FLOAT | TEXT | BLOB | NULL | UNIXTIME | ISO8601 | BOOLEAN

fun value_type_code :: "value_type \<Rightarrow> int" where
  "value_type_code INTEGER = 1"
| "value_type_code FLOAT = 2"
| "value_type_code TEXT = 3"
| "value_type_code BLOB = 4"
| "value_type_code NULL = 5"
| "value_type_code UNIXTIME = 9"
| "value_type_code ISO8601 = 10"
| "value_type_code BOOLEAN = 11"

datatype node_role = VOTER | STANDBY | SPARE

fun node_role_code :: "node_role \<Rightarrow> int" where
  "node_role_code VOTER = 0"
| "node_role_code STANDBY = 1"
| "node_role_code SPARE = 2"

text \<open>
  \<^verbatim>\<open>E(raw)\<close> of an \<^verbatim>\<open>IntEnum\<close> looks the member up by its value and raises
  \<^verbatim>\<open>ValueError\<close> for any other integer, which is \<open>None\<close> here.
\<close>

definition value_type_of :: "int \<Rightarrow> value_type option" where
  "value_type_of c = List.find (\<lambda>t. value_type_code t = c)
     [INTEGER, FLOAT, TEXT, BLOB, NULL, UNIXTIME, ISO8601, BOOLEAN]"

definition node_role_of :: "int \<Rightarrow> node_role option" where
  "node_role_of c = List.find (\<lambda>r. node_role_code r = c) [VOTER, STANDBY, SPARE]"

definition request_type_of :: "int \<Rightarrow> request_type option" where
  "request_type_of c = List.find (\<lambda>r. request_type_code r = c)
     [RT_LEADER, RT_CLIENT, RT_HEARTBEAT, RT_OPEN, RT_PREPARE, RT_EXEC, RT_QUERY,
      RT_FINALIZE, RT_EXEC_SQL, RT_QUERY_SQL, RT_INTERRUPT, RT_CONNECT, RT_ADD,
      RT_ASSIGN, RT_REMOVE, RT_DUMP, RT_CLUSTER, RT_TRANSFER, RT_DESCRIBE, RT_WEIGHT]"

definition response_type_of :: "int \<Rightarrow> response_type option" where
  "response_type_of c = List.find (\<lambda>r. response_type_code r = c)
     [RS_FAILURE, RS_LEADER, RS_WELCOME, RS_SERVERS, RS_DB, RS_STMT, RS_RESULT,
      RS_ROWS, RS_EMPTY, RS_FILES, RS_METADATA]"

subsection \<open>Caps\<close>

definition DEFAULT_MAX_TOTAL_ROWS :: nat where
  "DEFAULT_MAX_TOTAL_ROWS = 10000000"

definition DEFAULT_MAX_CONTINUATION_FRAMES :: nat where
  "DEFAULT_MAX_CONTINUATION_FRAMES = 100000"

definition FRAME_PAYLOAD :: nat where
  "FRAME_PAYLOAD = 64 * 1024 * 1024 - 64"

definition MAX_BLOB_SIZE :: nat where
  "MAX_BLOB_SIZE = FRAME_PAYLOAD"

definition MAX_TEXT_VALUE_SIZE :: nat where
  "MAX_TEXT_VALUE_SIZE = FRAME_PAYLOAD"

definition MAX_FILE_CONTENT_SIZE :: nat where
  "MAX_FILE_CONTENT_SIZE = FRAME_PAYLOAD"

definition MAX_TAIL_OFFSET :: nat where
  "MAX_TAIL_OFFSET = 64 * 1024 * 1024"

definition MAX_PARAM_COUNT :: nat where
  "MAX_PARAM_COUNT = 32766"

definition MAX_COLUMN_COUNT :: nat where
  "MAX_COLUMN_COUNT = 2000"

definition MAX_FILE_COUNT :: nat where
  "MAX_FILE_COUNT = 100"

definition MAX_NODE_COUNT :: nat where
  "MAX_NODE_COUNT = 10000"

definition MAX_ROWS_AFFECTED :: int where
  "MAX_ROWS_AFFECTED = push_bit 31 1 - 1"

definition DEFAULT_MAX_ROWS :: nat where
  "DEFAULT_MAX_ROWS = 1000000"

definition MAX_FAILURE_MESSAGE_SIZE :: nat where
  "MAX_FAILURE_MESSAGE_SIZE = 64 * 1024"

definition MAX_COLUMN_NAME_SIZE :: nat where
  "MAX_COLUMN_NAME_SIZE = 4096"

definition MAX_FILENAME_SIZE :: nat where
  "MAX_FILENAME_SIZE = 4096"

definition MAX_DUMP_FILENAME_SIZE :: nat where
  "MAX_DUMP_FILENAME_SIZE = 1019"

definition MAX_ADDRESS_SIZE :: nat where
  "MAX_ADDRESS_SIZE = 256"

section \<open>Lemmas\<close>

lemma value_type_of_code [simp]: "value_type_of (value_type_code t) = Some t"
  by (cases t) (simp_all add: value_type_of_def)

lemma value_type_of_Some: "value_type_of c = Some t \<Longrightarrow> c = value_type_code t"
  by (auto simp: value_type_of_def split: if_splits)

lemma value_type_code_range: "0 < value_type_code t \<and> value_type_code t < 12"
  by (cases t) simp_all

lemma node_role_of_code [simp]: "node_role_of (node_role_code r) = Some r"
  by (cases r) (simp_all add: node_role_of_def)

lemma node_role_of_Some: "node_role_of c = Some r \<Longrightarrow> c = node_role_code r"
  by (auto simp: node_role_of_def split: if_splits)

lemma node_role_code_range: "0 \<le> node_role_code r \<and> node_role_code r < 3"
  by (cases r) simp_all

lemma request_type_of_code [simp]: "request_type_of (request_type_code t) = Some t"
  by (cases t) (simp_all add: request_type_of_def)

lemma response_type_of_code [simp]: "response_type_of (response_type_code t) = Some t"
  by (cases t) (simp_all add: response_type_of_def)

lemma row_markers:
  "ROW_DONE_MARKER = 0xFFFFFFFFFFFFFFFF" "ROW_PART_MARKER = 0xEEEEEEEEEEEEEEEE"
  by code_simp+

end
