(* ===== verification/Error_Codes.thy ===== *)
theory Error_Codes
  imports Wire_Constants
begin

text \<open>
  The error codes of \<^verbatim>\<open>src/dqlitewire/constants.py\<close>: SQLite primary codes, the extended codes
  built from them, the codes of dqlite's own namespace, the sets the callers of the package
  dispatch on, and the two classifiers.
\<close>

unbundle bit_operations_syntax

section \<open>Definitions\<close>

subsection \<open>Primary codes\<close>

definition SQLITE_ERROR :: int where
  "SQLITE_ERROR = 1"

definition SQLITE_BUSY :: int where
  "SQLITE_BUSY = 5"

definition SQLITE_NOTFOUND :: int where
  "SQLITE_NOTFOUND = 12"

definition SQLITE_PROTOCOL :: int where
  "SQLITE_PROTOCOL = 15"

definition SQLITE_ABORT :: int where
  "SQLITE_ABORT = 4"

definition SQLITE_NOMEM :: int where
  "SQLITE_NOMEM = 7"

definition SQLITE_INTERRUPT :: int where
  "SQLITE_INTERRUPT = 9"

definition SQLITE_CORRUPT :: int where
  "SQLITE_CORRUPT = 11"

definition SQLITE_FULL :: int where
  "SQLITE_FULL = 13"

definition SQLITE_FORMAT :: int where
  "SQLITE_FORMAT = 24"

definition SQLITE_NOTADB :: int where
  "SQLITE_NOTADB = 26"

definition SQLITE_INTERNAL :: int where
  "SQLITE_INTERNAL = 2"

definition SQLITE_TOOBIG :: int where
  "SQLITE_TOOBIG = 18"

definition SQLITE_MISMATCH :: int where
  "SQLITE_MISMATCH = 20"

definition SQLITE_MISUSE :: int where
  "SQLITE_MISUSE = 21"

definition SQLITE_NOLFS :: int where
  "SQLITE_NOLFS = 22"

definition SQLITE_AUTH :: int where
  "SQLITE_AUTH = 23"

definition SQLITE_RANGE :: int where
  "SQLITE_RANGE = 25"

definition SQLITE_NOTICE :: int where
  "SQLITE_NOTICE = 27"

definition SQLITE_WARNING :: int where
  "SQLITE_WARNING = 28"

definition SQLITE_IOERR :: int where
  "SQLITE_IOERR = 10"

definition SQLITE_CONSTRAINT :: int where
  "SQLITE_CONSTRAINT = 19"

subsection \<open>Extended codes\<close>

text \<open>\<^verbatim>\<open>primary | (sub << 8)\<close>, the way the extended codes are written.\<close>

definition extended_code :: "int \<Rightarrow> nat \<Rightarrow> int" where
  "extended_code primary sub = primary OR push_bit 8 (int sub)"

definition SQLITE_IOERR_NOT_LEADER :: int where
  "SQLITE_IOERR_NOT_LEADER = extended_code SQLITE_IOERR 40"

definition SQLITE_IOERR_LEADERSHIP_LOST :: int where
  "SQLITE_IOERR_LEADERSHIP_LOST = extended_code SQLITE_IOERR 41"

definition SQLITE_IOERR_NOT_LEADER_LEGACY :: int where
  "SQLITE_IOERR_NOT_LEADER_LEGACY = extended_code SQLITE_IOERR 32"

definition SQLITE_IOERR_LEADERSHIP_LOST_LEGACY :: int where
  "SQLITE_IOERR_LEADERSHIP_LOST_LEGACY = extended_code SQLITE_IOERR 33"

definition LEADER_ERROR_CODES :: "int set" where
  "LEADER_ERROR_CODES =
     {SQLITE_IOERR_NOT_LEADER, SQLITE_IOERR_LEADERSHIP_LOST,
      SQLITE_IOERR_NOT_LEADER_LEGACY, SQLITE_IOERR_LEADERSHIP_LOST_LEGACY}"

subsection \<open>Constraint codes\<close>

definition SQLITE_CONSTRAINT_CHECK :: int where
  "SQLITE_CONSTRAINT_CHECK = extended_code SQLITE_CONSTRAINT 1"

definition SQLITE_CONSTRAINT_COMMITHOOK :: int where
  "SQLITE_CONSTRAINT_COMMITHOOK = extended_code SQLITE_CONSTRAINT 2"

definition SQLITE_CONSTRAINT_FOREIGNKEY :: int where
  "SQLITE_CONSTRAINT_FOREIGNKEY = extended_code SQLITE_CONSTRAINT 3"

definition SQLITE_CONSTRAINT_FUNCTION :: int where
  "SQLITE_CONSTRAINT_FUNCTION = extended_code SQLITE_CONSTRAINT 4"

definition SQLITE_CONSTRAINT_NOTNULL :: int where
  "SQLITE_CONSTRAINT_NOTNULL = extended_code SQLITE_CONSTRAINT 5"

definition SQLITE_CONSTRAINT_PRIMARYKEY :: int where
  "SQLITE_CONSTRAINT_PRIMARYKEY = extended_code SQLITE_CONSTRAINT 6"

definition SQLITE_CONSTRAINT_TRIGGER :: int where
  "SQLITE_CONSTRAINT_TRIGGER = extended_code SQLITE_CONSTRAINT 7"

definition SQLITE_CONSTRAINT_UNIQUE :: int where
  "SQLITE_CONSTRAINT_UNIQUE = extended_code SQLITE_CONSTRAINT 8"

definition SQLITE_CONSTRAINT_VTAB :: int where
  "SQLITE_CONSTRAINT_VTAB = extended_code SQLITE_CONSTRAINT 9"

definition SQLITE_CONSTRAINT_ROWID :: int where
  "SQLITE_CONSTRAINT_ROWID = extended_code SQLITE_CONSTRAINT 10"

definition SQLITE_CONSTRAINT_PINNED :: int where
  "SQLITE_CONSTRAINT_PINNED = extended_code SQLITE_CONSTRAINT 11"

definition CONSTRAINT_CODES :: "int set" where
  "CONSTRAINT_CODES =
     {SQLITE_CONSTRAINT_CHECK, SQLITE_CONSTRAINT_COMMITHOOK, SQLITE_CONSTRAINT_FOREIGNKEY, SQLITE_CONSTRAINT_FUNCTION, SQLITE_CONSTRAINT_NOTNULL, SQLITE_CONSTRAINT_PRIMARYKEY, SQLITE_CONSTRAINT_TRIGGER, SQLITE_CONSTRAINT_UNIQUE, SQLITE_CONSTRAINT_VTAB, SQLITE_CONSTRAINT_ROWID, SQLITE_CONSTRAINT_PINNED}"

subsection \<open>The dqlite namespace and the classes of codes\<close>

definition DQLITE_PROTO :: int where
  "DQLITE_PROTO = 1001"

definition DQLITE_NOTFOUND :: int where
  "DQLITE_NOTFOUND = 1002"

definition DQLITE_PARSE :: int where
  "DQLITE_PARSE = 1005"

definition TX_AUTO_ROLLBACK_PRIMARY_CODES :: "int set" where
  "TX_AUTO_ROLLBACK_PRIMARY_CODES = {SQLITE_ABORT, SQLITE_NOMEM, SQLITE_INTERRUPT, SQLITE_IOERR, SQLITE_CORRUPT, SQLITE_FULL}"

definition BARE_DATABASE_ERROR_CODES :: "int set" where
  "BARE_DATABASE_ERROR_CODES = {SQLITE_CORRUPT, SQLITE_FORMAT, SQLITE_NOTADB}"

definition SQLITE_PRIMARY_CODE_MASK :: int where
  "SQLITE_PRIMARY_CODE_MASK = 0xFF"

definition is_dqlite_namespace_code :: "int \<Rightarrow> bool" where
  "is_dqlite_namespace_code code = (1000 \<le> code \<and> code < 1024)"

definition primary_sqlite_code :: "int \<Rightarrow> int" where
  "primary_sqlite_code code =
     (if is_dqlite_namespace_code code then code else code AND SQLITE_PRIMARY_CODE_MASK)"

subsection \<open>Message texts\<close>

definition NO_TRANSACTION_MESSAGE_SUBSTRINGS :: "string list" where
  "NO_TRANSACTION_MESSAGE_SUBSTRINGS = [''no transaction is active'']"

definition WIRE_DECODE_FAILED_PREFIX :: string where
  "WIRE_DECODE_FAILED_PREFIX = ''wire decode failed''"

definition LEADER_LOST_DB_LOOKUP_SUBSTRING :: string where
  "LEADER_LOST_DB_LOOKUP_SUBSTRING = ''no database opened''"

section \<open>Lemmas\<close>

lemma extended_code_eq:
  assumes "0 \<le> primary" and "primary < 256"
  shows "extended_code primary sub = primary + 256 * int sub"
proof -
  have "primary = take_bit 8 primary"
    using assms by (simp add: take_bit_int_eq_self)
  then have "extended_code primary sub = concat_bit 8 primary (int sub)"
    by (simp add: extended_code_def concat_bit_def)
  also have "\<dots> = primary + 256 * int sub"
    using \<open>primary = take_bit 8 primary\<close> by (simp add: concat_bit_eq push_bit_eq_mult)
  finally show ?thesis .
qed

lemma mask_primary: "code AND SQLITE_PRIMARY_CODE_MASK = code mod 256"
  using take_bit_eq_mask [of 8 code]
  by (simp add: SQLITE_PRIMARY_CODE_MASK_def take_bit_eq_mod mask_eq_exp_minus_1)

lemma primary_of_extended:
  assumes "0 \<le> primary" and "primary < 232"
  shows "primary_sqlite_code (extended_code primary sub) = primary"
    and "\<not> is_dqlite_namespace_code (extended_code primary sub)"
proof -
  have ext: "extended_code primary sub = primary + 256 * int sub"
    using assms by (intro extended_code_eq) simp_all
  show free: "\<not> is_dqlite_namespace_code (extended_code primary sub)"
  proof (cases "sub \<le> 3")
    case True
    then show ?thesis using assms unfolding ext is_dqlite_namespace_code_def by linarith
  next
    case False
    then show ?thesis using assms unfolding ext is_dqlite_namespace_code_def by linarith
  qed
  show "primary_sqlite_code (extended_code primary sub) = primary"
    using free assms by (simp add: primary_sqlite_code_def mask_primary ext)
qed

lemma leader_codes: "c \<in> LEADER_ERROR_CODES \<Longrightarrow> \<exists>sub. c = extended_code SQLITE_IOERR sub"
  by (auto simp: LEADER_ERROR_CODES_def SQLITE_IOERR_NOT_LEADER_def SQLITE_IOERR_LEADERSHIP_LOST_def
      SQLITE_IOERR_NOT_LEADER_LEGACY_def SQLITE_IOERR_LEADERSHIP_LOST_LEGACY_def)

lemmas constraint_defs = SQLITE_CONSTRAINT_CHECK_def
  SQLITE_CONSTRAINT_COMMITHOOK_def
  SQLITE_CONSTRAINT_FOREIGNKEY_def
  SQLITE_CONSTRAINT_FUNCTION_def
  SQLITE_CONSTRAINT_NOTNULL_def
  SQLITE_CONSTRAINT_PRIMARYKEY_def
  SQLITE_CONSTRAINT_TRIGGER_def
  SQLITE_CONSTRAINT_UNIQUE_def
  SQLITE_CONSTRAINT_VTAB_def
  SQLITE_CONSTRAINT_ROWID_def
  SQLITE_CONSTRAINT_PINNED_def

lemma constraint_codes: "c \<in> CONSTRAINT_CODES \<Longrightarrow> \<exists>sub. c = extended_code SQLITE_CONSTRAINT sub"
  by (auto simp: CONSTRAINT_CODES_def constraint_defs)

section \<open>Properties\<close>

text \<open>
  C39 (error_code_classes): the classifiers keep the two code spaces apart.  An extended code
  built from a primary code below 232 (SQLite's end at 28) is never mistaken for a dqlite code
  and yields its primary code.  The codes 1000 to 1023, among them the three dqlite codes of the
  module, are recognised as dqlite's and returned unchanged; any other code, extended or not, yields its low
  byte.  Every leader-change code has a primary code that implies a rollback; every constraint
  code has the primary code of a constraint violation, which does not.
\<close>

theorem error_code_classes:
  assumes "0 \<le> primary" and "primary < 232"
  shows "primary_sqlite_code (extended_code primary sub) = primary
    \<and> \<not> is_dqlite_namespace_code (extended_code primary sub)
    \<and> primary_sqlite_code ` LEADER_ERROR_CODES \<subseteq> TX_AUTO_ROLLBACK_PRIMARY_CODES
    \<and> primary_sqlite_code ` CONSTRAINT_CODES = {SQLITE_CONSTRAINT}
    \<and> {DQLITE_PROTO, DQLITE_NOTFOUND, DQLITE_PARSE} \<subseteq> {1000..<1024}
    \<and> is_dqlite_namespace_code c = (c \<in> {1000..<1024})
    \<and> primary_sqlite_code c = (if c \<in> {1000..<1024} then c else c mod 256)
    \<and> SQLITE_CONSTRAINT \<notin> TX_AUTO_ROLLBACK_PRIMARY_CODES"
proof -
  have l: "primary_sqlite_code c = SQLITE_IOERR" if c: "c \<in> LEADER_ERROR_CODES" for c
    using leader_codes [OF c] primary_of_extended(1) [of SQLITE_IOERR] by (auto simp: SQLITE_IOERR_def)
  have k: "primary_sqlite_code c = SQLITE_CONSTRAINT" if c: "c \<in> CONSTRAINT_CODES" for c
    using constraint_codes [OF c] primary_of_extended(1) [of SQLITE_CONSTRAINT] by (auto simp: SQLITE_CONSTRAINT_def)
  have "primary_sqlite_code ` LEADER_ERROR_CODES \<subseteq> TX_AUTO_ROLLBACK_PRIMARY_CODES"
    using l by (auto simp: TX_AUTO_ROLLBACK_PRIMARY_CODES_def)
  moreover have "SQLITE_CONSTRAINT_CHECK \<in> CONSTRAINT_CODES" by (simp add: CONSTRAINT_CODES_def)
  then have "primary_sqlite_code ` CONSTRAINT_CODES = {SQLITE_CONSTRAINT}" using k by force
  moreover have "{DQLITE_PROTO, DQLITE_NOTFOUND, DQLITE_PARSE} \<subseteq> {1000..<1024}"
    by (simp add: DQLITE_PROTO_def DQLITE_NOTFOUND_def DQLITE_PARSE_def)
  moreover have "is_dqlite_namespace_code c = (c \<in> {1000..<1024})" by (simp add: is_dqlite_namespace_code_def)
  moreover have "primary_sqlite_code c = (if c \<in> {1000..<1024} then c else c mod 256)"
    by (auto simp: primary_sqlite_code_def is_dqlite_namespace_code_def mask_primary)
  moreover have "SQLITE_CONSTRAINT \<notin> TX_AUTO_ROLLBACK_PRIMARY_CODES" by code_simp
  ultimately show ?thesis using primary_of_extended [OF assms] by simp
qed

theorem error_code_classes_witness:
  "primary_sqlite_code (extended_code 19 8) = 19 \<and> primary_sqlite_code 1005 = 1005"
  using error_code_classes [of 19 8 1005] by simp

end
