(* ===== verification/Server_Text.thy ===== *)
theory Server_Text
  imports Wire_Constants
begin

text \<open>
  The text helpers the package exports for log and exception sites:
  \<^verbatim>\<open>sanitize_server_text\<close> and \<^verbatim>\<open>sanitize_for_log\<close> of
  \<^verbatim>\<open>src/dqlitewire/messages/responses.py\<close> and \<^verbatim>\<open>cap_raw_message\<close> of
  \<^verbatim>\<open>src/dqlitewire/truncate.py\<close>.
\<close>

section \<open>Definitions\<close>

text \<open>The character class \<^verbatim>\<open>_CONTROL_CHARS_RE\<close>.\<close>

definition is_control_char :: "codepoint \<Rightarrow> bool" where
  "is_control_char c =
     (c \<le> 0x08 \<or> 0x0b \<le> c \<and> c \<le> 0x1f \<or> 0x7f \<le> c \<and> c \<le> 0x9f
      \<or> c = 0x061c \<or> c = 0x1680 \<or> c = 0x180e \<or> 0x200b \<le> c \<and> c \<le> 0x200f
      \<or> c = 0x2028 \<or> c = 0x2029 \<or> 0x202a \<le> c \<and> c \<le> 0x202e \<or> c = 0x202f
      \<or> c = 0x2060 \<or> 0x2066 \<le> c \<and> c \<le> 0x2069 \<or> c = 0xfeff)"

definition sanitize_server_text :: "pystr \<Rightarrow> pystr" where
  "sanitize_server_text s = map (\<lambda>c. if is_control_char c then 63 else c) s"

text \<open>\<^verbatim>\<open>s.replace(c, r)\<close> for a one-character \<open>c\<close>.\<close>

definition replace_char :: "codepoint \<Rightarrow> pystr \<Rightarrow> pystr \<Rightarrow> pystr" where
  "replace_char c r s = concat (map (\<lambda>x. if x = c then r else [x]) s)"

definition sanitize_for_log :: "pystr \<Rightarrow> pystr" where
  "sanitize_for_log s = replace_char 9 [92, 116] (replace_char 10 [92, 110] (sanitize_server_text s))"

definition DEFAULT_MAX_RAW_MESSAGE :: int where
  "DEFAULT_MAX_RAW_MESSAGE = 4 * 1024"

text \<open>\<^verbatim>\<open>_TRUNCATION_SUFFIX_TEMPLATE.format(overflow=...)\<close>.\<close>

definition truncation_suffix :: "nat \<Rightarrow> pystr" where
  "truncation_suffix overflow =
     ascii ''... [raw_message truncated, '' @ nat_digits overflow @ ascii '' codepoints]''"

definition cap_raw_message :: "pystr option \<Rightarrow> int \<Rightarrow> pystr option result" where
  "cap_raw_message raw_message max_chars =
     (if max_chars < 0 then Inl ValueError
      else case raw_message of
        None \<Rightarrow> Inr None
      | Some s \<Rightarrow>
          if int (length s) \<le> max_chars then Inr (Some s)
          else (let overflow = nat (int (length s) - max_chars) in
                Inr (Some (take (nat max_chars) s @ truncation_suffix overflow))))"

section \<open>Lemmas\<close>

lemma sanitize_server_text_clean:
  "c \<in> set (sanitize_server_text s) \<Longrightarrow> \<not> is_control_char c"
  by (auto simp: sanitize_server_text_def is_control_char_def split: if_splits)

lemma sanitize_server_text_id:
  "(\<And>c. c \<in> set s \<Longrightarrow> \<not> is_control_char c) \<Longrightarrow> sanitize_server_text s = s"
  by (simp add: sanitize_server_text_def map_idI)

lemma sanitize_server_text_idem [simp]:
  "sanitize_server_text (sanitize_server_text s) = sanitize_server_text s"
  by (rule sanitize_server_text_id) (rule sanitize_server_text_clean)

lemma length_sanitize_server_text [simp]: "length (sanitize_server_text s) = length s"
  by (simp add: sanitize_server_text_def)

lemma set_replace_char: "set (replace_char c r s) \<subseteq> (set s - {c}) \<union> set r"
  by (auto simp: replace_char_def)

lemma replace_char_id: "c \<notin> set s \<Longrightarrow> replace_char c r s = s"
  by (induction s) (auto simp: replace_char_def)

section \<open>Properties\<close>

text \<open>
  C40 (sanitize_for_log_safe): text passed through \<^verbatim>\<open>sanitize_for_log\<close> can neither split a log line nor
  carry a terminal escape: the result holds no line feed, no tab and no character of the
  control class; and text that holds none of those is returned unchanged.
\<close>

theorem sanitize_for_log_safe:
  "(\<forall>c. c \<in> set (sanitize_for_log s) \<longrightarrow> c \<noteq> 10 \<and> c \<noteq> 9 \<and> \<not> is_control_char c)
   \<and> ((\<forall>c. c \<in> set s \<longrightarrow> c \<noteq> 10 \<and> c \<noteq> 9 \<and> \<not> is_control_char c) \<longrightarrow> sanitize_for_log s = s)"
proof (intro conjI allI impI)
  fix c
  assume "c \<in> set (sanitize_for_log s)"
  then have "c \<in> (set (sanitize_server_text s) - {10} \<union> {92, 110} - {9}) \<union> {92, 116}"
    using set_replace_char [of 9 "[92, 116]" "replace_char 10 [92, 110] (sanitize_server_text s)"]
      set_replace_char [of 10 "[92, 110]" "sanitize_server_text s"]
    unfolding sanitize_for_log_def by auto
  then show "c \<noteq> 10" "c \<noteq> 9" "\<not> is_control_char c"
    using sanitize_server_text_clean [of c s] by (auto simp: is_control_char_def)
next
  assume clean: "\<forall>c. c \<in> set s \<longrightarrow> c \<noteq> 10 \<and> c \<noteq> 9 \<and> \<not> is_control_char c"
  then have "sanitize_server_text s = s" by (intro sanitize_server_text_id) blast
  moreover have "10 \<notin> set s" "9 \<notin> set s" using clean by blast+
  ultimately show "sanitize_for_log s = s"
    by (simp add: sanitize_for_log_def replace_char_id)
qed

theorem sanitize_for_log_safe_witness:
  "sanitize_for_log [104, 105] = [104, 105] \<and> sanitize_for_log [10, 27] = [92, 110, 63]"
proof -
  have "sanitize_for_log [104, 105] = [104, 105]"
    using sanitize_for_log_safe [of "[104, 105]"] by (auto simp: is_control_char_def)
  moreover have "sanitize_for_log [10, 27] = [92, 110, 63]" by code_simp
  ultimately show ?thesis by simp
qed

text \<open>
  A capped message keeps its first \<open>max_chars\<close> code points and grows by at most
  the fixed suffix and the digits of the dropped count, so a message below \<open>10 ^ k\<close> code
  points never leaves more than \<open>max_chars + 40 + k\<close>; only a negative cap raises.
\<close>

theorem cap_raw_message_bound:
  assumes "0 \<le> max_chars" and "length s < 10 ^ k" and "0 < k"
  shows "\<exists>r. cap_raw_message (Some s) max_chars = Inr (Some r)
    \<and> take (nat max_chars) r = take (nat max_chars) s
    \<and> length r \<le> nat max_chars + 40 + k"
proof (cases "int (length s) \<le> max_chars")
  case True
  then show ?thesis using assms(1) by (simp add: cap_raw_message_def)
next
  case False
  let ?n = "nat max_chars" and ?o = "nat (int (length s) - max_chars)"
  have "length (nat_digits ?o) \<le> k"
  proof (intro length_nat_digits)
    have "?o \<le> length s" using assms(1) by simp
    then show "?o < 10 ^ k" using assms(2) by (rule le_less_trans)
    show "0 < k" by (rule assms(3))
  qed
  moreover have "length (take ?n s) = ?n" using False by simp
  ultimately show ?thesis
    using False assms(1) by (simp add: cap_raw_message_def truncation_suffix_def ascii_def)
qed

theorem cap_raw_message_bound_witness:
  "\<exists>r. cap_raw_message (Some [65, 66, 67]) 2 = Inr (Some r) \<and> take 2 r = [65, 66] \<and> length r \<le> 43"
  using cap_raw_message_bound [of 2 "[65, 66, 67]" 1] by simp

end
