(* ===== verification/Utf8.thy ===== *)
theory Utf8
  imports Wire_Constants
begin

text \<open>
  Python's UTF-8 codec as \<^verbatim>\<open>encode_text\<close> and \<^verbatim>\<open>decode_text\<close> use it:
  \<^verbatim>\<open>str.encode("utf-8")\<close>, which refuses surrogates, and
  \<^verbatim>\<open>bytes.decode("utf-8", errors=h)\<close> with the eight error handlers the decoder's
  constructor admits.  \<open>utf8_next\<close> is one step of the decoder: a scalar value with the
  bytes it takes, or an invalid range of one to three bytes, as CPython delimits it.
  The handlers follow \<^verbatim>\<open>codecs\<close>: \<^verbatim>\<open>xmlcharrefreplace\<close> and
  \<^verbatim>\<open>namereplace\<close> only know encoding errors and answer a decoding error with
  \<^verbatim>\<open>TypeError\<close>.
\<close>

section \<open>Definitions\<close>

datatype text_errors =
    Strict | Replace | Ignore | Backslashreplace | Surrogateescape | Surrogatepass
  | Xmlcharrefreplace | Namereplace

definition is_surrogate :: "codepoint \<Rightarrow> bool" where
  "is_surrogate c = (0xD800 \<le> c \<and> c < 0xE000)"

definition utf8_char :: "codepoint \<Rightarrow> bytes option" where
  "utf8_char c =
     (if c < 0x80 then Some [of_nat c]
      else if c < 0x800 then Some [of_nat (0xC0 + c div 64), of_nat (0x80 + c mod 64)]
      else if c < 0x10000 then
        (if is_surrogate c then None
         else Some [of_nat (0xE0 + c div 4096), of_nat (0x80 + c div 64 mod 64),
                    of_nat (0x80 + c mod 64)])
      else if c < 0x110000 then
        Some [of_nat (0xF0 + c div 262144), of_nat (0x80 + c div 4096 mod 64),
              of_nat (0x80 + c div 64 mod 64), of_nat (0x80 + c mod 64)]
      else None)"

text \<open>\<^verbatim>\<open>value.encode("utf-8")\<close>; a code point above 0x10FFFF is in no Python string.\<close>

fun utf8_encode :: "pystr \<Rightarrow> bytes result" where
  "utf8_encode [] = Inr []"
| "utf8_encode (c # cs) =
     (case utf8_char c of
        None \<Rightarrow> Inl UnicodeEncodeError
      | Some b \<Rightarrow> bindE (utf8_encode cs) (\<lambda>bs. Inr (b @ bs)))"

datatype utf8_step = Scalar codepoint nat | Invalid nat

definition is_cont :: "byte \<Rightarrow> bool" where
  "is_cont b = (0x80 \<le> unat b \<and> unat b < 0xC0)"

fun utf8_two :: "nat \<Rightarrow> bytes \<Rightarrow> utf8_step" where
  "utf8_two c0 [] = Invalid 1"
| "utf8_two c0 (b1 # _) =
     (if \<not> is_cont b1 then Invalid 1
      else Scalar ((c0 - 0xC0) * 64 + (unat b1 - 0x80)) 2)"

definition bad_second3 :: "nat \<Rightarrow> byte \<Rightarrow> bool" where
  "bad_second3 c0 b1 =
     (\<not> is_cont b1 \<or> c0 = 0xE0 \<and> unat b1 < 0xA0 \<or> c0 = 0xED \<and> 0xA0 \<le> unat b1)"

fun utf8_three :: "nat \<Rightarrow> bytes \<Rightarrow> utf8_step" where
  "utf8_three c0 [] = Invalid 1"
| "utf8_three c0 [b1] = (if bad_second3 c0 b1 then Invalid 1 else Invalid 2)"
| "utf8_three c0 (b1 # b2 # _) =
     (if bad_second3 c0 b1 then Invalid 1
      else if \<not> is_cont b2 then Invalid 2
      else Scalar ((c0 - 0xE0) * 4096 + (unat b1 - 0x80) * 64 + (unat b2 - 0x80)) 3)"

definition bad_second4 :: "nat \<Rightarrow> byte \<Rightarrow> bool" where
  "bad_second4 c0 b1 =
     (\<not> is_cont b1 \<or> c0 = 0xF0 \<and> unat b1 < 0x90 \<or> c0 = 0xF4 \<and> 0x90 \<le> unat b1)"

fun utf8_four :: "nat \<Rightarrow> bytes \<Rightarrow> utf8_step" where
  "utf8_four c0 [] = Invalid 1"
| "utf8_four c0 [b1] = (if bad_second4 c0 b1 then Invalid 1 else Invalid 2)"
| "utf8_four c0 [b1, b2] =
     (if bad_second4 c0 b1 then Invalid 1 else if \<not> is_cont b2 then Invalid 2 else Invalid 3)"
| "utf8_four c0 (b1 # b2 # b3 # _) =
     (if bad_second4 c0 b1 then Invalid 1
      else if \<not> is_cont b2 then Invalid 2
      else if \<not> is_cont b3 then Invalid 3
      else Scalar ((c0 - 0xF0) * 262144 + (unat b1 - 0x80) * 4096
                   + (unat b2 - 0x80) * 64 + (unat b3 - 0x80)) 4)"

fun utf8_next :: "bytes \<Rightarrow> utf8_step" where
  "utf8_next [] = Invalid 0"
| "utf8_next (b0 # bs) =
     (let c0 = unat b0 in
      if c0 < 0x80 then Scalar c0 1
      else if c0 < 0xC2 then Invalid 1
      else if c0 < 0xE0 then utf8_two c0 bs
      else if c0 < 0xF0 then utf8_three c0 bs
      else if c0 < 0xF5 then utf8_four c0 bs
      else Invalid 1)"

definition hex_digit :: "nat \<Rightarrow> codepoint" where
  "hex_digit d = (if d < 10 then 48 + d else 87 + d)"

text \<open>
  The error handlers: \<open>utf8_handler h bs n\<close> is called with the bytes from the start of
  the invalid range, whose length is \<open>n\<close>; it gives the replacement text and the number
  of bytes to move on by.
\<close>

fun utf8_handler :: "text_errors \<Rightarrow> bytes \<Rightarrow> nat \<Rightarrow> (pystr \<times> nat) result" where
  "utf8_handler Strict bs n = Inl UnicodeDecodeError"
| "utf8_handler Replace bs n = Inr ([0xFFFD], n)"
| "utf8_handler Ignore bs n = Inr ([], n)"
| "utf8_handler Backslashreplace bs n =
     Inr (concat (map (\<lambda>b. [92, 120, hex_digit (unat b div 16), hex_digit (unat b mod 16)])
            (take n bs)), n)"
| "utf8_handler Surrogateescape bs n = Inr (map (\<lambda>b. 0xDC00 + unat b) (take n bs), n)"
| "utf8_handler Surrogatepass bs n =
     (case bs of
        b0 # b1 # b2 # _ \<Rightarrow>
          (let c = (unat b0 - 0xE0) * 4096 + (unat b1 - 0x80) * 64 + (unat b2 - 0x80) in
           if 0xE0 \<le> unat b0 \<and> unat b0 < 0xF0 \<and> is_cont b1 \<and> is_cont b2 \<and> is_surrogate c
           then Inr ([c], 3) else Inl UnicodeDecodeError)
      | _ \<Rightarrow> Inl UnicodeDecodeError)"
| "utf8_handler Xmlcharrefreplace bs n = Inl TypeError"
| "utf8_handler Namereplace bs n = Inl TypeError"

primrec step_len :: "utf8_step \<Rightarrow> nat" where
  "step_len (Scalar c n) = n"
| "step_len (Invalid n) = n"

lemma utf8_next_takes:
  assumes "bs \<noteq> []"
  shows "0 < step_len (utf8_next bs) \<and> step_len (utf8_next bs) \<le> length bs"
proof -
  obtain b0 rest where bs: "bs = b0 # rest" using assms by (cases bs) auto
  have "0 < step_len (utf8_two c rest) \<and> step_len (utf8_two c rest) \<le> Suc (length rest)" for c
    by (induction c rest rule: utf8_two.induct) simp_all
  moreover have "0 < step_len (utf8_three c rest) \<and> step_len (utf8_three c rest) \<le> Suc (length rest)" for c
    by (induction c rest rule: utf8_three.induct) simp_all
  moreover have "0 < step_len (utf8_four c rest) \<and> step_len (utf8_four c rest) \<le> Suc (length rest)" for c
    by (induction c rest rule: utf8_four.induct) simp_all
  ultimately show ?thesis by (simp add: bs Let_def)
qed

lemma utf8_handler_takes: "utf8_handler h bs n = Inr (r, k) \<Longrightarrow> 0 < n \<Longrightarrow> 0 < k"
  by (cases h) (auto split: list.splits if_splits simp: Let_def)

text \<open>\<^verbatim>\<open>data.decode("utf-8", errors=h)\<close>.\<close>

function utf8_decode :: "text_errors \<Rightarrow> bytes \<Rightarrow> pystr result" where
  "utf8_decode h bs =
     (if bs = [] then Inr []
      else case utf8_next bs of
        Scalar c n \<Rightarrow> bindE (utf8_decode h (drop n bs)) (\<lambda>s. Inr (c # s))
      | Invalid n \<Rightarrow>
          bindE (utf8_handler h bs n) (\<lambda>r.
          bindE (utf8_decode h (drop (snd r) bs)) (\<lambda>s. Inr (fst r @ s))))"
  by pat_completeness auto
termination
proof (relation "measure (\<lambda>(h, bs). length bs)", goal_cases)
  case 1
  show ?case by simp
next
  case (2 h bs c n)
  then show ?case using utf8_next_takes [of bs] by simp
next
  case (3 h bs n r)
  then have "0 < snd r" using utf8_next_takes [of bs] utf8_handler_takes [of h bs n "fst r" "snd r"]
    by (cases r) simp
  with 3 show ?case by simp
qed

section \<open>Lemmas\<close>

declare utf8_decode.simps [simp del]

lemma utf8_decode_Nil [simp]: "utf8_decode h [] = Inr []"
  by (simp add: utf8_decode.simps)

lemma unat_of_nat_byte: "n < 256 \<Longrightarrow> unat (of_nat n :: byte) = n"
  by (simp add: unat_of_nat)

lemma utf8_char_nonempty: "utf8_char c = Some bs \<Longrightarrow> bs \<noteq> []"
  by (auto simp: utf8_char_def split: if_splits)

lemma split_two: "(c::nat) = c div 64 * 64 + c mod 64"
  by simp

lemma split_three: "(c::nat) = c div 4096 * 4096 + c div 64 mod 64 * 64 + c mod 64"
proof -
  have "c div 64 = c div 64 div 64 * 64 + c div 64 mod 64" by (rule split_two)
  moreover have "c div 64 div 64 = c div 4096" by (simp add: div_mult2_eq [symmetric])
  ultimately show ?thesis using split_two [of c] by linarith
qed

lemma split_four:
  "(c::nat) = c div 262144 * 262144 + c div 4096 mod 64 * 4096 + c div 64 mod 64 * 64 + c mod 64"
proof -
  have "c div 4096 = c div 4096 div 64 * 64 + c div 4096 mod 64" by (rule split_two)
  moreover have "c div 4096 div 64 = c div 262144" by (simp add: div_mult2_eq [symmetric])
  ultimately show ?thesis using split_three [of c] by linarith
qed

text \<open>Each encoded code point is read back by one decoder step, whatever follows it.\<close>

lemma utf8_next_char3:
  assumes "0x800 \<le> c" "c < 0x10000" "\<not> is_surrogate c" "utf8_char c = Some bs"
  shows "utf8_next (bs @ rest) = Scalar c (length bs)"
proof -
  define p q r where d: "p = c div 4096" "q = c div 64 mod 64" "r = c mod 64"
  have c: "c = p * 4096 + q * 64 + r" unfolding d by (rule split_three)
  have b: "p < 16" "q < 64" "r < 64" using assms(2) by (auto simp: d)
  have bs: "bs = [of_nat (0xE0 + p), of_nat (0x80 + q), of_nat (0x80 + r)]"
    using assms by (simp add: utf8_char_def d)
  have "p = 0 \<longrightarrow> 32 \<le> q" "p = 13 \<longrightarrow> q < 32"
    using assms(1,3) b unfolding c is_surrogate_def by auto
  then have "\<not> bad_second3 (0xE0 + p) (of_nat (0x80 + q))"
    using b by (auto simp: bad_second3_def is_cont_def unat_of_nat_byte simp del: of_nat_add)
  then show ?thesis
    using b by (simp add: bs c Let_def unat_of_nat_byte is_cont_def del: of_nat_add)
qed

lemma utf8_next_char4:
  assumes "0x10000 \<le> c" "c < 0x110000" "utf8_char c = Some bs"
  shows "utf8_next (bs @ rest) = Scalar c (length bs)"
proof -
  define p q r t where d: "p = c div 262144" "q = c div 4096 mod 64" "r = c div 64 mod 64" "t = c mod 64"
  have c: "c = p * 262144 + q * 4096 + r * 64 + t" unfolding d by (rule split_four)
  have b: "p < 5" "q < 64" "r < 64" "t < 64" using assms(2) by (auto simp: d)
  have bs: "bs = [of_nat (0xF0 + p), of_nat (0x80 + q), of_nat (0x80 + r), of_nat (0x80 + t)]"
    using assms by (simp add: utf8_char_def d)
  have "p = 0 \<longrightarrow> 16 \<le> q" "p = 4 \<longrightarrow> q < 16"
    using assms(1,2) b unfolding c by auto
  then have "\<not> bad_second4 (0xF0 + p) (of_nat (0x80 + q))"
    using b by (auto simp: bad_second4_def is_cont_def unat_of_nat_byte simp del: of_nat_add)
  then show ?thesis
    using b by (simp add: bs c Let_def unat_of_nat_byte is_cont_def del: of_nat_add)
qed

lemma utf8_next_char:
  assumes "utf8_char c = Some bs"
  shows "utf8_next (bs @ rest) = Scalar c (length bs)"
proof -
  consider "c < 0x80" | "0x80 \<le> c" "c < 0x800" | "0x800 \<le> c" "c < 0x10000" "\<not> is_surrogate c"
    | "0x10000 \<le> c" "c < 0x110000"
    using assms by (auto simp: utf8_char_def not_less split: if_splits)
  then show ?thesis
  proof cases
    case 1
    then show ?thesis using assms by (auto simp: utf8_char_def Let_def unat_of_nat_byte)
  next
    case 2
    have d: "c div 64 < 32" "2 \<le> c div 64" "(192 + c div 64 - 192) * 64 + (128 + c mod 64 - 128) = c"
      using 2 by auto
    show ?thesis
      using assms 2 d by (auto simp: utf8_char_def Let_def unat_of_nat_byte is_cont_def simp del: of_nat_add)
  next
    case 3
    then show ?thesis using assms by (rule utf8_next_char3)
  next
    case 4
    then show ?thesis using assms by (rule utf8_next_char4)
  qed
qed

lemma utf8_decode_encode_append:
  assumes "utf8_encode s = Inr bs"
  shows "utf8_decode h bs = Inr s"
  using assms
proof (induction s arbitrary: bs)
  case Nil
  then show ?case by simp
next
  case (Cons c s)
  then obtain b bs' where b: "utf8_char c = Some b" and bs': "utf8_encode s = Inr bs'" and bs: "bs = b @ bs'"
    by (auto simp: bind_inv split: option.splits)
  have "utf8_decode h bs = bindE (utf8_decode h (drop (length b) bs)) (\<lambda>s. Inr (c # s))"
    using utf8_char_nonempty [OF b] utf8_next_char [OF b, of bs']
    by (subst utf8_decode.simps) (simp add: bs)
  then show ?case using Cons.IH [OF bs'] by (simp add: bs)
qed

text \<open>
  The strict decoder accepts shortest forms only, so what it reads re-encodes to the
  same bytes.
\<close>

lemma join_three:
  assumes "q < 64" "r < 64"
  shows "(p * 4096 + q * 64 + r) div 4096 = (p::nat)"
    and "(p * 4096 + q * 64 + r) div 64 mod 64 = q"
    and "(p * 4096 + q * 64 + r) mod 64 = r"
proof -
  have e: "p * 4096 + q * 64 + r = (p * 64 + q) * 64 + r" by simp
  have d: "(p * 4096 + q * 64 + r) div 64 = p * 64 + q" unfolding e using assms by simp
  show "(p * 4096 + q * 64 + r) div 4096 = p" using assms by simp
  show "(p * 4096 + q * 64 + r) div 64 mod 64 = q" unfolding d using assms by simp
  show "(p * 4096 + q * 64 + r) mod 64 = r"
    unfolding e using assms by (metis mod_less mod_mult_self3)
qed

lemma join_four:
  assumes "q < 64" "r < 64" "t < 64"
  shows "(p * 262144 + q * 4096 + r * 64 + t) div 262144 = (p::nat)"
    and "(p * 262144 + q * 4096 + r * 64 + t) div 4096 mod 64 = q"
    and "(p * 262144 + q * 4096 + r * 64 + t) div 64 mod 64 = r"
    and "(p * 262144 + q * 4096 + r * 64 + t) mod 64 = t"
proof -
  have e: "p * 262144 + q * 4096 + r * 64 + t = (p * 64 + q) * 4096 + r * 64 + t" by simp
  show "(p * 262144 + q * 4096 + r * 64 + t) div 262144 = p" using assms by simp
  show "(p * 262144 + q * 4096 + r * 64 + t) div 4096 mod 64 = q"
    unfolding e using assms by (subst join_three) simp_all
  show "(p * 262144 + q * 4096 + r * 64 + t) div 64 mod 64 = r"
    unfolding e using assms by (subst join_three) simp_all
  show "(p * 262144 + q * 4096 + r * 64 + t) mod 64 = t"
    unfolding e using assms by (subst join_three) simp_all
qed

lemma byte_split:
  fixes b :: byte
  assumes "k \<le> unat b"
  obtains p where "unat b = k + p" and "b = of_nat (k + p)"
  using assms by (metis le_Suc_ex of_nat_unat ucast_id)

lemma cont_split:
  assumes "is_cont b"
  obtains q where "unat b = 0x80 + q" and "b = of_nat (0x80 + q)" and "q < 64"
proof -
  from assms have "0x80 \<le> unat b" by (simp add: is_cont_def)
  then obtain q where "unat b = 0x80 + q" "b = of_nat (0x80 + q)" by (rule byte_split)
  with assms that [of q] show ?thesis by (simp add: is_cont_def)
qed

lemma utf8_char_two:
  assumes "utf8_two (unat b0) bs = Scalar c n" "0xC2 \<le> unat b0" "unat b0 < 0xE0"
  shows "utf8_char c = Some (take n (b0 # bs))"
proof -
  obtain b1 rest where bs: "bs = b1 # rest" and b1: "is_cont b1"
    using assms(1) by (cases bs) (auto split: if_splits)
  from assms(2) have "0xC0 \<le> unat b0" by simp
  then obtain p where p: "unat b0 = 0xC0 + p" "b0 = of_nat (0xC0 + p)" by (rule byte_split)
  obtain q where q: "unat b1 = 0x80 + q" "b1 = of_nat (0x80 + q)" "q < 64"
    using b1 by (rule cont_split)
  have c: "c = p * 64 + q" "n = 2"
    using assms(1) b1 by (simp_all add: bs p(1) q(1))
  have "2 \<le> p" "p < 32" using assms(2,3) by (simp_all add: p(1))
  then have "0x80 \<le> c" "c < 0x800" "c div 64 = p" "c mod 64 = q"
    using q(3) by (simp_all add: c)
  then show ?thesis by (simp add: utf8_char_def bs p(2) q(2) c(2))
qed

lemma utf8_char_three:
  assumes "utf8_three (unat b0) bs = Scalar c n" "0xE0 \<le> unat b0" "unat b0 < 0xF0"
  shows "utf8_char c = Some (take n (b0 # bs))"
proof -
  obtain b1 b2 rest where bs: "bs = b1 # b2 # rest" and b: "\<not> bad_second3 (unat b0) b1" "is_cont b2"
    using assms(1) by (cases "(unat b0, bs)" rule: utf8_three.cases) (auto split: if_splits)
  then have b1: "is_cont b1" by (simp add: bad_second3_def)
  obtain p where p: "unat b0 = 0xE0 + p" "b0 = of_nat (0xE0 + p)" using assms(2) by (rule byte_split)
  obtain q where q: "unat b1 = 0x80 + q" "b1 = of_nat (0x80 + q)" "q < 64"
    using b1 by (rule cont_split)
  obtain r where r: "unat b2 = 0x80 + r" "b2 = of_nat (0x80 + r)" "r < 64"
    using b(2) by (rule cont_split)
  have c: "c = p * 4096 + q * 64 + r" "n = 3"
    using assms(1) b by (simp_all add: bs p(1) q(1) r(1))
  have pq: "p < 16" "p = 0 \<longrightarrow> 32 \<le> q" "p = 13 \<longrightarrow> q < 32"
    using assms(3) b(1) by (auto simp add: p(1) q(1) bad_second3_def)
  then have "0x800 \<le> c" using q(3) r(3) by (cases "p = 0") (simp_all add: c)
  moreover have "c < 0x10000" using pq q(3) r(3) by (simp add: c)
  moreover have "\<not> is_surrogate c" 
    using pq q(3) r(3) unfolding is_surrogate_def c
    by (cases "p = 13"; cases "p < 13") auto
  ultimately show ?thesis
    by (simp add: utf8_char_def bs p(2) q(2) r(2) c join_three q(3) r(3))
qed

lemma utf8_char_four:
  assumes "utf8_four (unat b0) bs = Scalar c n" "0xF0 \<le> unat b0" "unat b0 < 0xF5"
  shows "utf8_char c = Some (take n (b0 # bs))"
proof -
  obtain b1 b2 b3 rest where bs: "bs = b1 # b2 # b3 # rest"
    and b: "\<not> bad_second4 (unat b0) b1" "is_cont b2" "is_cont b3"
    using assms(1) by (cases "(unat b0, bs)" rule: utf8_four.cases) (auto split: if_splits)
  then have b1: "is_cont b1" by (simp add: bad_second4_def)
  obtain p where p: "unat b0 = 0xF0 + p" "b0 = of_nat (0xF0 + p)" using assms(2) by (rule byte_split)
  obtain q where q: "unat b1 = 0x80 + q" "b1 = of_nat (0x80 + q)" "q < 64"
    using b1 by (rule cont_split)
  obtain r where r: "unat b2 = 0x80 + r" "b2 = of_nat (0x80 + r)" "r < 64"
    using b(2) by (rule cont_split)
  obtain t where t: "unat b3 = 0x80 + t" "b3 = of_nat (0x80 + t)" "t < 64"
    using b(3) by (rule cont_split)
  have c: "c = p * 262144 + q * 4096 + r * 64 + t" "n = 4"
    using assms(1) b by (simp_all add: bs p(1) q(1) r(1) t(1))
  have pq: "p < 5" "p = 0 \<longrightarrow> 16 \<le> q" "p = 4 \<longrightarrow> q < 16"
    using assms(3) b(1) by (auto simp add: p(1) q(1) bad_second4_def)
  have "0x10000 \<le> c" using pq q(3) r(3) t(3) by (cases "p = 0") (simp_all add: c)
  moreover have "c < 0x110000" using pq q(3) r(3) t(3) by (cases "p = 4") (simp_all add: c)
  ultimately show ?thesis
    by (simp add: utf8_char_def bs p(2) q(2) r(2) t(2) c join_four q(3) r(3) t(3))
qed

lemma utf8_char_next:
  assumes "utf8_next bs = Scalar c n"
  shows "utf8_char c = Some (take n bs)"
proof (cases bs)
  case Nil
  with assms show ?thesis by simp
next
  case (Cons b0 rest)
  consider "unat b0 < 0x80" | "0xC2 \<le> unat b0" "unat b0 < 0xE0" | "0xE0 \<le> unat b0" "unat b0 < 0xF0"
    | "0xF0 \<le> unat b0" "unat b0 < 0xF5"
    using assms by (auto simp: Cons Let_def not_less split: if_splits)
  then show ?thesis
  proof cases
    case 1
    with assms show ?thesis by (auto simp: Cons Let_def utf8_char_def)
  next
    case 2
    with assms show ?thesis unfolding Cons by (intro utf8_char_two) (simp_all add: Let_def)
  next
    case 3
    with assms show ?thesis unfolding Cons by (intro utf8_char_three) (simp_all add: Let_def)
  next
    case 4
    with assms show ?thesis unfolding Cons by (intro utf8_char_four) (simp_all add: Let_def)
  qed
qed

lemma utf8_encode_decode:
  "utf8_decode Strict bs = Inr s \<Longrightarrow> utf8_encode s = Inr bs"
proof (induction Strict bs arbitrary: s rule: utf8_decode.induct)
  case (1 bs)
  show ?case
  proof (cases "bs = []")
    case True
    with 1 show ?thesis by simp
  next
    case False
    with 1(3) obtain c n s' where st: "utf8_next bs = Scalar c n"
      and s': "utf8_decode Strict (drop n bs) = Inr s'" and s: "s = c # s'"
      by (subst (asm) utf8_decode.simps) (auto simp: bind_inv split: utf8_step.splits)
    have "utf8_encode s' = Inr (drop n bs)" using 1(1) [OF False st s'] .
    then show ?thesis using utf8_char_next [OF st] by (simp add: s)
  qed
qed

lemma of_nat_byte_0: "n < 256 \<Longrightarrow> (of_nat n :: byte) = 0 \<longleftrightarrow> n = 0"
  using unat_0_iff [of "of_nat n :: byte"] by (simp only: unat_of_nat_byte)

lemma utf8_char_nul: 
  assumes "utf8_char c = Some bs" 
  shows "0 \<in> set bs \<longleftrightarrow> c = 0"
proof -
  have "c div 64 < 32" if "c < 0x800" using that by auto
  moreover have "c div 4096 < 16" if "c < 0x10000" using that by auto
  moreover have "c div 262144 < 5" if "c < 0x110000" using that by auto
  ultimately show ?thesis
    using assms
    by (auto simp: utf8_char_def of_nat_byte_0 eq_commute [of 0] simp del: of_nat_add split: if_splits)
qed

lemma utf8_encode_nul: "utf8_encode s = Inr bs \<Longrightarrow> 0 \<in> set bs \<longleftrightarrow> 0 \<in> set s"
proof (induction s arbitrary: bs)
  case Nil
  then show ?case by simp
next
  case (Cons c s)
  then obtain b bs' where "utf8_char c = Some b" "utf8_encode s = Inr bs'" "bs = b @ bs'"
    by (auto simp: bind_inv split: option.splits)
  then show ?case using Cons.IH [of bs'] utf8_char_nul [of c b] by auto
qed

text \<open>Strict decoding fails exactly with \<^verbatim>\<open>UnicodeDecodeError\<close>.\<close>

lemma utf8_decode_Strict_error: "utf8_decode Strict bs = Inl e \<Longrightarrow> e = UnicodeDecodeError"
proof (induction Strict bs rule: utf8_decode.induct)
  case (1 bs)
  then show ?case
    by (subst (asm) utf8_decode.simps) (auto simp: bindE_eq_Inl split: if_splits utf8_step.splits)
qed

end
