(* ===== verification/Primitives.thy ===== *)
theory Primitives
  imports Utf8
begin

text \<open>
  \<^verbatim>\<open>src/dqlitewire/types.py\<close>: the wire primitives.  A Python value a caller may
  hand in is a \<open>pyval\<close>; the \<^verbatim>\<open>isinstance\<close> ladders of the source are case analyses
  on it (\<^verbatim>\<open>bool\<close> is a subclass of \<^verbatim>\<open>int\<close>).  A float is its 64 IEEE bits.
  A decoder's input is \<^verbatim>\<open>bytes\<close> or a \<^verbatim>\<open>memoryview\<close> of the same bytes, which
  matters to \<^verbatim>\<open>decode_text\<close> only: \<open>buffer_kind\<close> says which.  The parser behind
  \<^verbatim>\<open>datetime.fromisoformat\<close> and \<^verbatim>\<open>time.fromisoformat\<close> is the argument \<open>iso_ok\<close>
  of \<open>encode_value\<close>: it says of a string whether one of the two accepts it.
\<close>

section \<open>Definitions\<close>

subsection \<open>Python values\<close>

record memview =
  mv_format :: string
  mv_len :: nat            \<comment> \<open>\<^verbatim>\<open>len(mv)\<close>: elements of the first dimension\<close>
  mv_bytes :: bytes        \<comment> \<open>\<^verbatim>\<open>bytes(mv)\<close>; \<^verbatim>\<open>mv.nbytes\<close> is its length\<close>
  mv_released :: bool

datatype pyval =
    PNone
  | PBool bool
  | PInt int
  | PFloat "64 word"
  | PStr pystr
  | PBytes bytes
  | PByteArray bytes
  | PMemoryView memview
  | PMmap "bytes option"   \<comment> \<open>\<open>None\<close>: closed\<close>
  | POther                 \<comment> \<open>any other type\<close>

datatype buffer_kind = IsBytes | IsView

subsection \<open>Integers and floats\<close>

abbreviation MAX_VALUE_REPR :: nat where
  "MAX_VALUE_REPR \<equiv> 64"

definition bounded_repr :: "int \<Rightarrow> pystr result" where
  "bounded_repr value =
     bindE (py_str_int value) (\<lambda>s.
     if length s \<le> MAX_VALUE_REPR then Inr s
     else Inr (take MAX_VALUE_REPR s @ ascii ''... ['' @ nat_digits (length s) @ ascii '' digits]''))"

text \<open>Of \<^verbatim>\<open>_bounded_repr_any\<close> only whether \<^verbatim>\<open>repr(value)\<close> raises: among the types modelled, for a huge int.\<close>

definition bounded_repr_any :: "pyval \<Rightarrow> unit result" where
  "bounded_repr_any v = (case v of PInt i \<Rightarrow> bindE (py_str_int i) (\<lambda>_. Inr ()) | _ \<Rightarrow> Inr ())"

definition is_int_not_bool :: "pyval \<Rightarrow> bool" where
  "is_int_not_bool v = (case v of PInt _ \<Rightarrow> True | _ \<Rightarrow> False)"

definition validate_uint64 :: "pyval \<Rightarrow> int result" where
  "validate_uint64 v = (case v of
     PInt i \<Rightarrow> if \<not> (0 \<le> i \<and> i < 2 ^ 64) then bindE (bounded_repr i) (\<lambda>_. Inl (EncodeError OutOfRange)) else Inr i
   | _ \<Rightarrow> Inl (EncodeError WrongType))"

definition validate_uint32 :: "pyval \<Rightarrow> int result" where
  "validate_uint32 v = (case v of
     PInt i \<Rightarrow> if \<not> (0 \<le> i \<and> i < 2 ^ 32) then bindE (bounded_repr i) (\<lambda>_. Inl (EncodeError OutOfRange)) else Inr i
   | _ \<Rightarrow> Inl (EncodeError WrongType))"

definition validate_int64 :: "pyval \<Rightarrow> int result" where
  "validate_int64 v = (case v of
     PInt i \<Rightarrow> if \<not> (- (2 ^ 63) \<le> i \<and> i < 2 ^ 63) then bindE (bounded_repr i) (\<lambda>_. Inl (EncodeError OutOfRange)) else Inr i
   | _ \<Rightarrow> Inl (EncodeError WrongType))"

definition encode_uint64 :: "pyval \<Rightarrow> bytes result" where
  "encode_uint64 v = bindE (validate_uint64 v) (\<lambda>i. Inr (le_bytes 8 i))"

definition decode_uint64 :: "bytes \<Rightarrow> int result" where
  "decode_uint64 data =
     (if length data < 8 then Inl (DecodeError TooShort) else Inr (int (le_nat (take 8 data))))"

definition encode_int64 :: "pyval \<Rightarrow> bytes result" where
  "encode_int64 v = bindE (validate_int64 v) (\<lambda>i. Inr (le_bytes 8 i))"

definition signed64 :: "nat \<Rightarrow> int" where
  "signed64 n = (if n < 2 ^ 63 then int n else int n - 2 ^ 64)"

definition decode_int64 :: "bytes \<Rightarrow> int result" where
  "decode_int64 data =
     (if length data < 8 then Inl (DecodeError TooShort) else Inr (signed64 (le_nat (take 8 data))))"

definition encode_uint32 :: "pyval \<Rightarrow> bytes result" where
  "encode_uint32 v = bindE (validate_uint32 v) (\<lambda>i. Inr (le_bytes 4 i))"

definition decode_uint32 :: "bytes \<Rightarrow> int result" where
  "decode_uint32 data =
     (if length data < 4 then Inl (DecodeError TooShort) else Inr (int (le_nat (take 4 data))))"

definition encode_double :: "pyval \<Rightarrow> bytes result" where
  "encode_double v = (case v of PFloat w \<Rightarrow> Inr (le_bytes 8 (uint w)) | _ \<Rightarrow> Inl (EncodeError WrongType))"

definition decode_double :: "bytes \<Rightarrow> (64 word) result" where
  "decode_double data =
     (if length data < 8 then Inl (DecodeError TooShort) else Inr (of_nat (le_nat (take 8 data))))"

definition pad_to_word :: "nat \<Rightarrow> nat" where
  "pad_to_word n =
     (let remainder = n mod WORD_SIZE in if remainder = 0 then 0 else WORD_SIZE - remainder)"

subsection \<open>Text\<close>

text \<open>
  \<^verbatim>\<open>max_size=None\<close> is \<open>None\<close>.  The NUL terminator and the padding are the zeros
  \<^verbatim>\<open>bytearray(n)\<close> starts with.
\<close>

definition encode_text :: "pyval \<Rightarrow> nat option \<Rightarrow> bytes result" where
  "encode_text value max_size = (case value of
     PStr s \<Rightarrow>
       (case utf8_encode s of
          Inl _ \<Rightarrow> Inl (EncodeError BadUtf8)
        | Inr utf8 \<Rightarrow>
            if (case max_size of None \<Rightarrow> False | Some m \<Rightarrow> m < length utf8)
            then Inl (EncodeError TooLong)
            else if find_nul utf8 \<noteq> None then Inl (EncodeError EmbeddedNul)
            else Inr (utf8 @ replicate (1 + pad_to_word (length utf8 + 1)) 0))
   | _ \<Rightarrow> Inl (EncodeError WrongType))"

abbreviation TEXT_ONE_SHOT_MAX :: nat where
  "TEXT_ONE_SHOT_MAX \<equiv> 65536"

abbreviation TEXT_SCAN_CHUNK :: nat where
  "TEXT_SCAN_CHUNK \<equiv> 4096"

abbreviation TEXT_SHORT_PROBE :: nat where
  "TEXT_SHORT_PROBE \<equiv> 256"

text \<open>\<^verbatim>\<open>try: ...decode(...) except UnicodeDecodeError: raise DecodeError\<close>.\<close>

definition decode_utf8_or_raise :: "text_errors \<Rightarrow> bytes \<Rightarrow> pystr result" where
  "decode_utf8_or_raise errors bs = (case utf8_decode errors bs of
     Inl UnicodeDecodeError \<Rightarrow> Inl (DecodeError BadUtf8)
   | r \<Rightarrow> r)"

text \<open>The chunked scan: the joined chunks and the position of the NUL, \<open>None\<close> if there is none.\<close>

function chunk_scan :: "bytes \<Rightarrow> nat \<Rightarrow> nat \<Rightarrow> bytes \<Rightarrow> (bytes \<times> nat) option" where
  "chunk_scan data scan_limit scanned chunks =
     (if scanned < scan_limit then
        (let chunk_end = min (scanned + TEXT_SCAN_CHUNK) scan_limit;
             chunk = drop scanned (take chunk_end data)
         in case find_nul chunk of
              Some loc \<Rightarrow> Some (chunks @ take loc chunk, scanned + loc)
            | None \<Rightarrow> chunk_scan data scan_limit chunk_end (chunks @ chunk))
      else None)"
  by pat_completeness auto
termination
  by (relation "measure (\<lambda>(data, scan_limit, scanned, chunks). scan_limit - scanned)") auto

definition finish_text :: "bytes \<Rightarrow> pystr \<Rightarrow> nat \<Rightarrow> (pystr \<times> nat) result" where
  "finish_text data text null_pos =
     (let total_size = null_pos + 1 + pad_to_word (null_pos + 1) in
      if length data < total_size then Inl (DecodeError BadPadding) else Inr (text, total_size))"

text \<open>\<^verbatim>\<open>decode_text\<close> on a memoryview: short probe, one-shot probe, chunked scan.\<close>

definition decode_text_view :: "text_errors \<Rightarrow> nat \<Rightarrow> bytes \<Rightarrow> (pystr \<times> nat) result" where
  "decode_text_view errors max_size data =
     (let data_len = length data;
          short_window = min data_len (min (max_size + 1) TEXT_SHORT_PROBE);
          short_materialized = take short_window data
      in case find_nul short_materialized of
           Some short_null \<Rightarrow>
             bindE (decode_utf8_or_raise errors (take short_null short_materialized)) (\<lambda>text.
             finish_text data text short_null)
         | None \<Rightarrow>
             if max_size + 1 \<le> short_window then Inl (DecodeError TooLong)
             else if data_len \<le> short_window then Inl (DecodeError NotTerminated)
             else
               (let probe_window = min data_len (min (max_size + 1) TEXT_ONE_SHOT_MAX);
                    materialized = take probe_window data
                in case find_nul materialized of
                     Some null_pos \<Rightarrow>
                       bindE (decode_utf8_or_raise errors (take null_pos materialized)) (\<lambda>text.
                       finish_text data text null_pos)
                   | None \<Rightarrow>
                       if max_size + 1 \<le> probe_window then Inl (DecodeError TooLong)
                       else if data_len \<le> probe_window then Inl (DecodeError NotTerminated)
                       else
                         (let scan_limit = min data_len (max_size + 1) in
                          case chunk_scan data scan_limit probe_window materialized of
                            None \<Rightarrow>
                              Inl (DecodeError (if scan_limit < data_len then TooLong else NotTerminated))
                          | Some (chunks, null_pos) \<Rightarrow>
                              bindE (decode_utf8_or_raise errors chunks) (\<lambda>text.
                              finish_text data text null_pos))))"

text \<open>\<^verbatim>\<open>decode_text\<close> on bytes: one bounded \<^verbatim>\<open>find\<close>.\<close>

definition decode_text_bytes :: "text_errors \<Rightarrow> nat \<Rightarrow> bytes \<Rightarrow> (pystr \<times> nat) result" where
  "decode_text_bytes errors max_size data =
     (let scan_end = min (length data) (max_size + 1) in
      case find_nul (take scan_end data) of
        None \<Rightarrow> Inl (DecodeError (if scan_end < length data then TooLong else NotTerminated))
      | Some null_pos \<Rightarrow>
          bindE (decode_utf8_or_raise errors (take null_pos data)) (\<lambda>text.
          finish_text data text null_pos))"

definition decode_text :: "buffer_kind \<Rightarrow> text_errors \<Rightarrow> nat \<Rightarrow> bytes \<Rightarrow> (pystr \<times> nat) result" where
  "decode_text kind errors max_size data = (case kind of
     IsView \<Rightarrow> decode_text_view errors max_size data
   | IsBytes \<Rightarrow> decode_text_bytes errors max_size data)"

subsection \<open>Blobs\<close>

text \<open>
  \<^verbatim>\<open>len(value)\<close> and \<^verbatim>\<open>bytes(value)\<close> of the bytes-like types; both raise
  \<^verbatim>\<open>ValueError\<close> on a released memoryview and on a closed mmap, and
  \<^verbatim>\<open>TypeError\<close> on the types that have neither.
\<close>

definition py_len :: "pyval \<Rightarrow> nat result" where
  "py_len v = (case v of
     PBytes b \<Rightarrow> Inr (length b)
   | PByteArray b \<Rightarrow> Inr (length b)
   | PMemoryView m \<Rightarrow> if mv_released m then Inl ValueError else Inr (mv_len m)
   | PMmap (Some b) \<Rightarrow> Inr (length b)
   | PMmap None \<Rightarrow> Inl ValueError
   | PStr s \<Rightarrow> Inr (length s)
   | _ \<Rightarrow> Inl TypeError)"

definition py_bytes :: "pyval \<Rightarrow> bytes result" where
  "py_bytes v = (case v of
     PBytes b \<Rightarrow> Inr b
   | PByteArray b \<Rightarrow> Inr b
   | PMemoryView m \<Rightarrow> if mv_released m then Inl ValueError else Inr (mv_bytes m)
   | PMmap (Some b) \<Rightarrow> Inr b
   | PMmap None \<Rightarrow> Inl ValueError
   | _ \<Rightarrow> Inl TypeError)"

definition is_byteslike :: "pyval \<Rightarrow> bool" where
  "is_byteslike v = (case v of PBytes _ \<Rightarrow> True | PByteArray _ \<Rightarrow> True | PMemoryView _ \<Rightarrow> True | _ \<Rightarrow> False)"

text \<open>
  The slice assignment \<^verbatim>\<open>buf[8 : 8 + length] = value\<close> copies all bytes of the value,
  and moves the rest of \<^verbatim>\<open>buf\<close> when their number is not \<^verbatim>\<open>length\<close>.
\<close>

definition encode_blob :: "pyval \<Rightarrow> nat \<Rightarrow> bytes result" where
  "encode_blob value max_blob_size =
     (if \<not> is_byteslike value then Inl (EncodeError WrongType)
      else bindE (py_len value) (\<lambda>len.
        if max_blob_size < len then Inl (EncodeError TooLong)
        else (let padding = pad_to_word len in
          bindE (encode_uint64 (PInt (int len))) (\<lambda>prefix.
          bindE (py_bytes value) (\<lambda>content.
          Inr (prefix @ content @ replicate padding 0))))))"

definition decode_blob :: "bytes \<Rightarrow> nat \<Rightarrow> (bytes \<times> nat) result" where
  "decode_blob data max_blob_size =
     (if length data < 8 then Inl (DecodeError TooShort)
      else bindE (decode_uint64 (take 8 data)) (\<lambda>len.
        if int max_blob_size < len then Inl (DecodeError TooLong)
        else (let total_size = 8 + nat len + pad_to_word (nat len) in
          if length data < total_size then Inl (DecodeError TooShort)
          else Inr (drop 8 (take (8 + nat len) data), total_size))))"

subsection \<open>Values\<close>

abbreviation NULL_CELL_WIDTH :: nat where
  "NULL_CELL_WIDTH \<equiv> 8"

definition BYTE_FORMAT_MEMORYVIEW :: "string set" where
  "BYTE_FORMAT_MEMORYVIEW = {''B'', ''b'', ''c''}"

definition reject_non_byte_format_memoryview :: "memview \<Rightarrow> unit result" where
  "reject_non_byte_format_memoryview m =
     (if mv_released m then Inr ()
      else raise_if (mv_format m \<notin> BYTE_FORMAT_MEMORYVIEW) (EncodeError WrongType))"

definition infer_value_type :: "pyval \<Rightarrow> value_type result" where
  "infer_value_type v = (case v of
     PNone \<Rightarrow> Inr NULL
   | PBool _ \<Rightarrow> Inr BOOLEAN
   | PInt _ \<Rightarrow> Inr INTEGER
   | PFloat _ \<Rightarrow> Inr FLOAT
   | PStr _ \<Rightarrow> Inr TEXT
   | PBytes _ \<Rightarrow> Inr BLOB
   | PByteArray _ \<Rightarrow> Inr BLOB
   | PMemoryView _ \<Rightarrow> Inr BLOB
   | PMmap _ \<Rightarrow> Inr BLOB
   | POther \<Rightarrow> Inl (EncodeError WrongType))"

text \<open>The BLOB branch of \<open>encode_value\<close>: probe the size, materialise, encode.\<close>

definition blob_size_probe :: "pyval \<Rightarrow> nat option" where
  "blob_size_probe v = (case v of
     PMemoryView m \<Rightarrow> if mv_released m then None else Some (length (mv_bytes m))
   | _ \<Rightarrow> (case py_len v of Inl _ \<Rightarrow> None | Inr n \<Rightarrow> Some n))"

definition encode_value_blob :: "pyval \<Rightarrow> bytes result" where
  "encode_value_blob v =
     (if \<not> (is_byteslike v \<or> (case v of PMmap _ \<Rightarrow> True | _ \<Rightarrow> False)) then Inl (EncodeError WrongType)
      else if (case blob_size_probe v of None \<Rightarrow> False | Some n \<Rightarrow> MAX_BLOB_SIZE < n)
      then Inl (EncodeError TooLong)
      else (case py_bytes v of
              Inl _ \<Rightarrow> Inl (EncodeError Malformed)
            | Inr materialized \<Rightarrow> encode_blob (PBytes materialized) MAX_BLOB_SIZE))"

text \<open>\<^verbatim>\<open>encode_value\<close> for a value that is not \<^verbatim>\<open>None\<close> and a type already chosen.\<close>

definition encode_value_as :: "(pystr \<Rightarrow> bool) \<Rightarrow> pyval \<Rightarrow> value_type \<Rightarrow> bytes result" where
  "encode_value_as iso_ok v t = (case t of
     BOOLEAN \<Rightarrow> (case v of
         PBool b \<Rightarrow> encode_uint64 (PInt (if b then 1 else 0))
       | PInt i \<Rightarrow> if i = 0 \<or> i = 1 then encode_uint64 (PInt i)
                   else bindE (bounded_repr_any v) (\<lambda>_. Inl (EncodeError OutOfRange))
       | _ \<Rightarrow> Inl (EncodeError WrongType))
   | INTEGER \<Rightarrow> (case v of PInt i \<Rightarrow> encode_int64 v | _ \<Rightarrow> Inl (EncodeError WrongType))
   | UNIXTIME \<Rightarrow> (case v of PInt i \<Rightarrow> encode_int64 v | _ \<Rightarrow> Inl (EncodeError WrongType))
   | FLOAT \<Rightarrow> (case v of
         PBool _ \<Rightarrow> Inl (EncodeError WrongType)
       | PInt _ \<Rightarrow> Inl (EncodeError WrongType)
       | _ \<Rightarrow> encode_double v)
   | TEXT \<Rightarrow> (case v of
         PStr _ \<Rightarrow> encode_text v (Some MAX_TEXT_VALUE_SIZE)
       | _ \<Rightarrow> Inl (EncodeError WrongType))
   | ISO8601 \<Rightarrow> (case v of
         PStr s \<Rightarrow> if \<not> iso_ok s then Inl (EncodeError BadFormat)
                   else encode_text v (Some MAX_TEXT_VALUE_SIZE)
       | _ \<Rightarrow> Inl (EncodeError WrongType))
   | BLOB \<Rightarrow> encode_value_blob v
   | NULL \<Rightarrow> bindE (bounded_repr_any v) (\<lambda>_. Inl (EncodeError WrongType)))"

definition encode_value ::
  "(pystr \<Rightarrow> bool) \<Rightarrow> pyval \<Rightarrow> value_type option \<Rightarrow> (bytes \<times> value_type) result" where
  "encode_value iso_ok v vt =
     (if v = PNone then
        (if vt \<noteq> None \<and> vt \<noteq> Some NULL then Inl (EncodeError WrongType)
         else Inr (replicate NULL_CELL_WIDTH 0, NULL))
      else
        bindE (case v of PMemoryView m \<Rightarrow> reject_non_byte_format_memoryview m | _ \<Rightarrow> Inr ()) (\<lambda>_.
        bindE (case vt of None \<Rightarrow> infer_value_type v | Some t \<Rightarrow> Inr t) (\<lambda>t.
        bindE (encode_value_as iso_ok v t) (\<lambda>bs. Inr (bs, t)))))"

type_synonym value_decoder = "buffer_kind \<Rightarrow> text_errors \<Rightarrow> bytes \<Rightarrow> (pyval \<times> nat) result"

definition decode_value_integer :: value_decoder where
  "decode_value_integer kind errors data = bindE (decode_int64 data) (\<lambda>i. Inr (PInt i, 8))"

definition decode_value_float :: value_decoder where
  "decode_value_float kind errors data = bindE (decode_double data) (\<lambda>w. Inr (PFloat w, 8))"

definition decode_value_text :: value_decoder where
  "decode_value_text kind errors data =
     bindE (decode_text kind errors MAX_TEXT_VALUE_SIZE data) (\<lambda>(s, n). Inr (PStr s, n))"

definition decode_value_iso8601 :: value_decoder where
  "decode_value_iso8601 kind errors data =
     bindE (decode_text kind errors MAX_TEXT_VALUE_SIZE data) (\<lambda>(s, n). Inr (PStr s, n))"

definition decode_value_blob :: value_decoder where
  "decode_value_blob kind errors data =
     bindE (decode_blob data MAX_BLOB_SIZE) (\<lambda>(b, n). Inr (PBytes b, n))"

definition decode_value_null :: value_decoder where
  "decode_value_null kind errors data = bindE (decode_uint64 data) (\<lambda>_. Inr (PNone, NULL_CELL_WIDTH))"

definition decode_value_unixtime :: value_decoder where
  "decode_value_unixtime kind errors data = bindE (decode_int64 data) (\<lambda>i. Inr (PInt i, 8))"

definition decode_value_boolean :: value_decoder where
  "decode_value_boolean kind errors data = bindE (decode_uint64 data) (\<lambda>raw. Inr (PBool (raw \<noteq> 0), 8))"

definition VALUE_TYPE_DECODERS :: "int \<Rightarrow> value_decoder option" where
  "VALUE_TYPE_DECODERS =
     [value_type_code INTEGER \<mapsto> decode_value_integer,
      value_type_code FLOAT \<mapsto> decode_value_float,
      value_type_code TEXT \<mapsto> decode_value_text,
      value_type_code BLOB \<mapsto> decode_value_blob,
      value_type_code NULL \<mapsto> decode_value_null,
      value_type_code UNIXTIME \<mapsto> decode_value_unixtime,
      value_type_code ISO8601 \<mapsto> decode_value_iso8601,
      value_type_code BOOLEAN \<mapsto> decode_value_boolean]"

definition decode_value ::
  "buffer_kind \<Rightarrow> text_errors \<Rightarrow> value_type \<Rightarrow> bytes \<Rightarrow> (pyval \<times> nat) result" where
  "decode_value kind errors t data = (case VALUE_TYPE_DECODERS (value_type_code t) of
     None \<Rightarrow> Inl (DecodeError BadTag)
   | Some decoder \<Rightarrow> decoder kind errors data)"

text \<open>A cell of a row, written as its column's type; a text field under its cap.\<close>

definition encode_cell :: "(pystr \<Rightarrow> bool) \<Rightarrow> value_type \<Rightarrow> pyval \<Rightarrow> bytes result" where
  "encode_cell iso_ok t v = bindE (encode_value iso_ok v (Some t)) (\<lambda>(encoded, _). Inr encoded)"

definition text_field :: "nat \<Rightarrow> unit \<Rightarrow> pystr \<Rightarrow> bytes result" where
  "text_field m _ s = encode_text (PStr s) (Some m)"

text \<open>
  \<open>wire_image t v\<close> is what a reader sees of the value \<open>v\<close> written as type \<open>t\<close>:
  \<^verbatim>\<open>0\<close> and \<^verbatim>\<open>1\<close> written as BOOLEAN come back as bool, and every bytes-like object
  written as BLOB comes back as bytes.
\<close>

definition wire_image :: "value_type \<Rightarrow> pyval \<Rightarrow> pyval" where
  "wire_image t v = (case t of
     BOOLEAN \<Rightarrow> (case v of PInt i \<Rightarrow> PBool (i \<noteq> 0) | _ \<Rightarrow> v)
   | BLOB \<Rightarrow> (case py_bytes v of Inr b \<Rightarrow> PBytes b | Inl _ \<Rightarrow> v)
   | _ \<Rightarrow> v)"

section \<open>Lemmas\<close>

subsection \<open>Integers and floats\<close>

lemma bounded_repr_raise [simp]: "bindE (bounded_repr i) (\<lambda>_. Inl e) = Inl (shown_error i e)"
  by (cases "huge_int i") (simp_all add: bounded_repr_def shown_error_eq)

lemma bounded_repr_any_raise [simp]:
  "bindE (bounded_repr_any v) (\<lambda>_. Inl e) = Inl (case v of PInt i \<Rightarrow> shown_error i e | _ \<Rightarrow> e)"
  by (cases v) (simp_all add: bounded_repr_any_def shown_error_def bindE_def split: sum.split)

lemma bounded_repr_short:
  assumes "\<not> huge_int i"
  shows "\<exists>s. bounded_repr i = Inr s \<and> length s \<le> 81"
proof -
  have "nat \<bar>i\<bar> < 10 ^ INT_MAX_STR_DIGITS"
    using assms by (simp add: huge_int_def nat_less_iff)
  then have "length (nat_digits (nat \<bar>i\<bar>)) \<le> INT_MAX_STR_DIGITS"
    by (rule length_nat_digits) (simp add: INT_MAX_STR_DIGITS_def)
  then have "length (int_str i) \<le> 4301" by (auto simp: int_str_def INT_MAX_STR_DIGITS_def)
  then have "length (nat_digits (length (int_str i))) \<le> 4" by (intro length_nat_digits) simp_all
  then show ?thesis using assms by (simp add: bounded_repr_def ascii_def)
qed

lemma encode_uint64_eq_Inr [bind_inv]:
  "encode_uint64 v = Inr bs \<longleftrightarrow> (\<exists>i. v = PInt i \<and> 0 \<le> i \<and> i < 2 ^ 64 \<and> bs = le_bytes 8 i)"
  by (cases v) (auto simp: encode_uint64_def validate_uint64_def bind_inv)

lemma encode_int64_eq_Inr [bind_inv]:
  "encode_int64 v = Inr bs \<longleftrightarrow> (\<exists>i. v = PInt i \<and> - (2 ^ 63) \<le> i \<and> i < 2 ^ 63 \<and> bs = le_bytes 8 i)"
  by (cases v) (auto simp: encode_int64_def validate_int64_def bind_inv)

lemma encode_uint32_eq_Inr [bind_inv]:
  "encode_uint32 v = Inr bs \<longleftrightarrow> (\<exists>i. v = PInt i \<and> 0 \<le> i \<and> i < 2 ^ 32 \<and> bs = le_bytes 4 i)"
  by (cases v) (auto simp: encode_uint32_def validate_uint32_def bind_inv)

lemma encode_double_eq_Inr [bind_inv]:
  "encode_double v = Inr bs \<longleftrightarrow> (\<exists>w. v = PFloat w \<and> bs = le_bytes 8 (uint w))"
  by (cases v) (auto simp: encode_double_def)

lemma decode_uint64_le_bytes [simp]:
  "0 \<le> i \<Longrightarrow> i < 2 ^ 64 \<Longrightarrow> decode_uint64 (le_bytes 8 i @ rest) = Inr i"
  by (simp add: decode_uint64_def le_nat_le_bytes)

lemma decode_uint32_le_bytes [simp]:
  "0 \<le> i \<Longrightarrow> i < 2 ^ 32 \<Longrightarrow> decode_uint32 (le_bytes 4 i @ rest) = Inr i"
  by (simp add: decode_uint32_def le_nat_le_bytes)

lemma signed64_mod:
  assumes "- (2 ^ 63) \<le> i" and "i < 2 ^ 63"
  shows "signed64 (nat (i mod 2 ^ 64)) = i"
proof (cases "0 \<le> i")
  case True
  then show ?thesis using assms by (simp add: signed64_def)
next
  case False
  then have "i mod 2 ^ 64 = i + 2 ^ 64"
    using assms by (intro int_mod_pos_eq [of i "2 ^ 64" "- 1"]) simp_all
  then show ?thesis using False assms by (simp add: signed64_def)
qed

lemma decode_int64_le_bytes [simp]:
  assumes "- (2 ^ 63) \<le> i" and "i < 2 ^ 63"
  shows "decode_int64 (le_bytes 8 i @ rest) = Inr i"
proof -
  have "le_nat (le_bytes 8 i) = nat (i mod 2 ^ 64)"
    using le_nat_le_bytes [of 8 i] by simp
  then show ?thesis using signed64_mod [OF assms] by (simp add: decode_int64_def)
qed

lemma decode_double_le_bytes [simp]: "decode_double (le_bytes 8 (uint w) @ rest) = Inr w"
proof -
  have "uint w < 2 ^ 64" using uint_lt2p [of w] by simp
  then have "int (le_nat (le_bytes 8 (uint w))) = uint w" by (simp add: le_nat_le_bytes)
  then have "le_nat (le_bytes 8 (uint w)) = unat w" by (metis nat_int unat_eq_nat_uint)
  then show ?thesis by (simp add: decode_double_def)
qed

lemma decode_uint64_eq_Inr:
  "decode_uint64 data = Inr i \<longleftrightarrow> 8 \<le> length data \<and> i = int (le_nat (take 8 data))"
  by (auto simp: decode_uint64_def)

lemma decode_uint64_range: "decode_uint64 data = Inr i \<Longrightarrow> 0 \<le> i \<and> i < 2 ^ 64"
  using le_nat_less [of "take 8 data"] by (auto simp: decode_uint64_eq_Inr)

lemma decode_uint32_range: "decode_uint32 data = Inr i \<Longrightarrow> 0 \<le> i \<and> i < 2 ^ 32"
  using le_nat_less [of "take 4 data"] by (auto simp: decode_uint32_def split: if_splits)

lemma decode_int64_range: "decode_int64 data = Inr i \<Longrightarrow> - (2 ^ 63) \<le> i \<and> i < 2 ^ 63"
  using le_nat_less [of "take 8 data"] by (auto simp: decode_int64_def signed64_def split: if_splits)

lemma encode_decode_uint64: "decode_uint64 data = Inr i \<Longrightarrow> encode_uint64 (PInt i) = Inr (take 8 data)"
  using le_bytes_le_nat [of "take 8 data"] decode_uint64_range [of data i]
  by (auto simp: decode_uint64_eq_Inr bind_inv)

subsection \<open>Padding\<close>

lemma pad_to_word_aligns: "(n + pad_to_word n) mod 8 = 0"
  unfolding pad_to_word_def Let_def by presburger

lemma pad_to_word_less: "pad_to_word n < 8"
  by (simp add: pad_to_word_def Let_def)

lemma pad_to_word_0 [simp]: "n mod 8 = 0 \<Longrightarrow> pad_to_word n = 0"
  by (simp add: pad_to_word_def)

lemma pad_to_word_add [simp]: "m mod 8 = 0 \<Longrightarrow> pad_to_word (m + n) = pad_to_word n"
  by (simp add: pad_to_word_def mod_add_eq [of m 8 n, symmetric])

subsection \<open>Text\<close>

lemma encode_text_eq_Inr [bind_inv]:
  "encode_text v m = Inr bs \<longleftrightarrow>
     (\<exists>s u. v = PStr s \<and> utf8_encode s = Inr u \<and> (\<forall>k. m = Some k \<longrightarrow> length u \<le> k)
        \<and> 0 \<notin> set u \<and> bs = u @ replicate (1 + pad_to_word (length u + 1)) 0)"
  by (cases v)
    (auto simp: encode_text_def find_nul_None_iff not_less simp del: replicate.simps
       split: sum.splits option.splits if_splits)

lemma encode_text_error: "encode_text v m = Inl e \<Longrightarrow> is_EncodeError e"
  by (auto simp: encode_text_def split: pyval.splits sum.splits if_splits)

lemma find_nul_take_mono:
  assumes "find_nul (take n xs) = Some p" and "n \<le> m"
  shows "find_nul (take m xs) = Some p"
  using assms by (auto simp: find_nul_take split: option.splits if_splits)

lemma find_nul_take_full: "find_nul (take n xs) = Some p \<Longrightarrow> find_nul xs = Some p"
  by (auto simp: find_nul_take split: option.splits if_splits)

declare chunk_scan.simps [simp del]

lemma chunk_scan_eq:
  assumes "scanned \<le> scan_limit" and "scan_limit \<le> length data"
    and "find_nul (take scanned data) = None" and "chunks = take scanned data"
  shows "chunk_scan data scan_limit scanned chunks =
    map_option (\<lambda>p. (take p data, p)) (find_nul (take scan_limit data))"
  using assms
proof (induction data scan_limit scanned chunks rule: chunk_scan.induct)
  case (1 data scan_limit scanned chunks)
  show ?case
  proof (cases "scanned < scan_limit")
    case False
    then show ?thesis using 1 by (subst chunk_scan.simps) simp
  next
    case True
    define stop where "stop = min (scanned + TEXT_SCAN_CHUNK) scan_limit"
    define chunk where "chunk = drop scanned (take stop data)"
    have le: "scanned \<le> stop" "stop \<le> scan_limit" using True by (simp_all add: stop_def)
    have joined: "take stop data = chunks @ chunk"
      using le 1(5) append_take_drop_id [of scanned "take stop data"]
      by (simp add: chunk_def min_absorb1)
    have found: "find_nul (take stop data) = map_option ((+) scanned) (find_nul chunk)"
      using 1 le unfolding joined find_nul_append by simp
    have unfold: "chunk_scan data scan_limit scanned chunks = (case find_nul chunk of
        Some loc \<Rightarrow> Some (chunks @ take loc chunk, scanned + loc)
      | None \<Rightarrow> chunk_scan data scan_limit stop (chunks @ chunk))"
      using True unfolding chunk_def stop_def by (subst chunk_scan.simps) (simp add: Let_def)
    show ?thesis
    proof (cases "find_nul chunk")
      case None
      then have "chunk_scan data scan_limit stop (chunks @ chunk)
          = map_option (\<lambda>p. (take p data, p)) (find_nul (take scan_limit data))"
        using True le found joined "1.prems"
        by (intro "1.IH" [of stop chunk]) (simp_all add: stop_def chunk_def)
      then show ?thesis using None unfold by simp
    next
      case (Some loc)
      then have fs: "find_nul (take stop data) = Some (scanned + loc)" using found by simp
      then have "find_nul (take scan_limit data) = Some (scanned + loc)"
        using le(2) by (rule find_nul_take_mono)
      moreover have "take (scanned + loc) data = chunks @ take loc chunk"
      proof -
        have "scanned + loc < stop" using find_nul_Some_less [OF fs] by simp
        then have "take (scanned + loc) data = take (scanned + loc) (chunks @ chunk)"
          by (simp flip: joined)
        then show ?thesis using 1 le by simp
      qed
      ultimately show ?thesis using Some unfold by simp
    qed
  qed
qed

text \<open>
  The three-stage scan over a memoryview finds the NUL the bounded search over bytes
  finds; the two paths differ in one diagnostic only, for data of exactly
  \<open>max_size + 1\<close> bytes without a NUL.
\<close>

lemma decode_text_view_eq:
  "decode_text_view errors m data =
     (if length data = m + 1 \<and> find_nul data = None \<and> m + 1 \<le> TEXT_ONE_SHOT_MAX
      then Inl (DecodeError TooLong) else decode_text_bytes errors m data)"
proof -
  have cs: "chunk_scan data lim w (take w data)
      = map_option (\<lambda>p. (take p data, p)) (find_nul (take lim data))"
    if "w \<le> lim" "lim \<le> length data" "find_nul (take w data) = None" for lim w
    using that by (intro chunk_scan_eq) simp_all
  show ?thesis
  proof (cases "find_nul data")
    case None
    then have none: "find_nul (take n data) = None" for n by (simp add: find_nul_take)
    show ?thesis
      by (auto simp: decode_text_view_def decode_text_bytes_def Let_def none None cs)
  next
    case (Some p)
    then have len: "p < length data" by (rule find_nul_Some_less)
    have fnd: "find_nul (take n data) = (if p < n then Some p else None)" for n
      using Some by (simp add: find_nul_take)
    consider "m < p" | "p \<le> m" "p < TEXT_SHORT_PROBE" | "p \<le> m" "TEXT_SHORT_PROBE \<le> p" "p < TEXT_ONE_SHOT_MAX"
      | "p \<le> m" "TEXT_ONE_SHOT_MAX \<le> p" by linarith
    then show ?thesis
    proof cases
      case 1
      then show ?thesis using len
        by (auto simp: decode_text_view_def decode_text_bytes_def Let_def fnd cs)
    next
      case 2
      then show ?thesis using len Some
        by (simp add: decode_text_view_def decode_text_bytes_def Let_def fnd min_def)
    next
      case 3
      then show ?thesis using len Some
        by (simp add: decode_text_view_def decode_text_bytes_def Let_def fnd min_def)
    next
      case 4
      then show ?thesis using len Some
        by (simp add: decode_text_view_def decode_text_bytes_def Let_def fnd cs)
    qed
  qed
qed

lemma decode_text_encoded:
  assumes "encode_text v (Some m) = Inr bs"
  shows "\<exists>s. v = PStr s \<and> decode_text kind errors m (bs @ rest) = Inr (s, length bs)"
proof -
  obtain s u where v: "v = PStr s" and u: "utf8_encode s = Inr u" "length u \<le> m" "0 \<notin> set u"
    and bs: "bs = u @ replicate (1 + pad_to_word (length u + 1)) 0"
    using assms unfolding encode_text_eq_Inr by blast
  let ?data = "bs @ rest"
  have data: "?data = u @ 0 # replicate (pad_to_word (length u + 1)) 0 @ rest"
    by (simp add: bs)
  have fnd: "find_nul ?data = Some (length u)"
    unfolding data using u(3) by (rule find_nul_no_nul)
  have fndt: "find_nul (take (min (length ?data) (m + 1)) ?data) = Some (length u)"
    unfolding find_nul_take [of _ ?data] fnd using u(2) find_nul_Some_less [OF fnd]
    by (simp del: length_append)
  have "take (length u) ?data = u" by (simp add: data)
  then have "decode_text_bytes errors m ?data = Inr (s, length bs)"
    using fndt utf8_decode_encode_append [OF u(1)]
    by (simp add: decode_text_bytes_def decode_utf8_or_raise_def finish_text_def Let_def)
      (simp add: bs)
  then show ?thesis
    using v fnd by (cases kind) (simp_all add: decode_text_def decode_text_view_eq)
qed

lemma encode_text_length:
  assumes "encode_text v m = Inr bs"
  shows "length bs mod 8 = 0 \<and> 8 \<le> length bs"
proof -
  obtain u :: bytes where "bs = u @ replicate (1 + pad_to_word (length u + 1)) 0"
    using assms unfolding encode_text_eq_Inr by blast
  then have l: "length bs = (length u + 1) + pad_to_word (length u + 1)" by simp
  then have "length bs mod 8 = 0" by (metis pad_to_word_aligns)
  moreover have "0 < length bs" using l by simp
  ultimately show ?thesis by presburger
qed

lemma finish_text_eq_Inr:
  "finish_text data text p = Inr (s, n) \<longleftrightarrow>
     s = text \<and> n = p + 1 + pad_to_word (p + 1) \<and> n \<le> length data"
  by (auto simp: finish_text_def Let_def)

lemma decode_text_bytes_eq_Inr:
  "decode_text_bytes errors m data = Inr (s, n) \<longleftrightarrow>
     (\<exists>p. find_nul data = Some p \<and> p \<le> m \<and> utf8_decode errors (take p data) = Inr s
        \<and> n = p + 1 + pad_to_word (p + 1) \<and> n \<le> length data)"
  (is "?l = ?r")
proof -
  have "?l \<longleftrightarrow> (\<exists>p. find_nul (take (min (length data) (m + 1)) data) = Some p
      \<and> utf8_decode errors (take p data) = Inr s
      \<and> n = p + 1 + pad_to_word (p + 1) \<and> n \<le> length data)"
    by (auto simp: decode_text_bytes_def Let_def bind_inv decode_utf8_or_raise_def finish_text_eq_Inr
        split: option.splits sum.splits exc.splits)
  also have "\<dots> \<longleftrightarrow> ?r"
    by (auto simp: find_nul_take split: option.splits if_splits dest: find_nul_Some_less)
  finally show ?thesis .
qed

lemma decode_text_eq_Inr:
  "decode_text kind errors m data = Inr (s, n) \<longleftrightarrow>
     (\<exists>p. find_nul data = Some p \<and> p \<le> m \<and> utf8_decode errors (take p data) = Inr s
        \<and> n = p + 1 + pad_to_word (p + 1) \<and> n \<le> length data)"
proof -
  have "decode_text kind errors m data = Inr (s, n) \<longleftrightarrow> decode_text_bytes errors m data = Inr (s, n)"
    by (cases kind) (auto simp: decode_text_def decode_text_view_eq decode_text_bytes_eq_Inr)
  then show ?thesis by (simp add: decode_text_bytes_eq_Inr)
qed

lemma decode_text_consumed:
  assumes "decode_text kind errors m data = Inr (s, n)"
  shows "8 \<le> n \<and> n \<le> length data \<and> n mod 8 = 0"
proof -
  obtain p where n: "n = (p + 1) + pad_to_word (p + 1)" "n \<le> length data"
    using assms unfolding decode_text_eq_Inr by auto
  have "n mod 8 = 0" unfolding n(1) by (rule pad_to_word_aligns)
  moreover have "0 < n" using n(1) by simp
  ultimately show ?thesis using n(2) by presburger
qed

subsection \<open>Blobs\<close>

lemma encode_blob_bytes [bind_inv]:
  "encode_blob (PBytes b) m = Inr bs \<longleftrightarrow>
     length b \<le> m \<and> int (length b) < 2 ^ 64
       \<and> bs = le_bytes 8 (int (length b)) @ b @ replicate (pad_to_word (length b)) 0"
  by (auto simp: encode_blob_def is_byteslike_def py_len_def py_bytes_def bind_inv Let_def)

lemma decode_blob_encoded:
  assumes "encode_blob (PBytes b) m = Inr bs"
  shows "decode_blob (bs @ rest) m = Inr (b, length bs)"
proof -
  have "decode_uint64 (take 8 (bs @ rest)) = Inr (int (length b))"
    using assms decode_uint64_le_bytes [of "int (length b)" "[]"] by (simp add: encode_blob_bytes)
  then show ?thesis using assms by (simp add: decode_blob_def encode_blob_bytes)
qed

lemma encode_blob_length:
  assumes "encode_blob (PBytes b) m = Inr bs"
  shows "length bs mod 8 = 0 \<and> 8 \<le> length bs"
proof -
  have "length bs = 8 + (length b + pad_to_word (length b))"
    using assms by (simp add: encode_blob_bytes)
  then show ?thesis using pad_to_word_aligns [of "length b"] by (simp add: mod_add_eq)
qed

lemma decode_blob_consumed:
  assumes "decode_blob data m = Inr (b, n)"
  shows "8 \<le> n \<and> n \<le> length data \<and> n mod 8 = 0"
proof -
  obtain len where n: "n = 8 + (len + pad_to_word len)" "n \<le> length data"
    using assms by (auto simp: decode_blob_def bind_inv Let_def split: if_splits)
  then show ?thesis using pad_to_word_aligns [of len] by simp
qed

subsection \<open>Values\<close>

lemma decode_value_cases:
  "decode_value kind errors t data = (case t of
     INTEGER \<Rightarrow> decode_value_integer kind errors data
   | FLOAT \<Rightarrow> decode_value_float kind errors data
   | TEXT \<Rightarrow> decode_value_text kind errors data
   | BLOB \<Rightarrow> decode_value_blob kind errors data
   | NULL \<Rightarrow> decode_value_null kind errors data
   | UNIXTIME \<Rightarrow> decode_value_unixtime kind errors data
   | ISO8601 \<Rightarrow> decode_value_iso8601 kind errors data
   | BOOLEAN \<Rightarrow> decode_value_boolean kind errors data)"
  by (cases t) (simp_all add: decode_value_def VALUE_TYPE_DECODERS_def)

lemmas value_decoders = decode_value_integer_def decode_value_float_def decode_value_text_def
  decode_value_iso8601_def decode_value_blob_def decode_value_null_def decode_value_unixtime_def
  decode_value_boolean_def

lemma encode_value_blob_eq_Inr:
  "encode_value_blob v = Inr bs \<longleftrightarrow>
     (is_byteslike v \<or> (\<exists>x. v = PMmap x))
       \<and> (\<exists>b. py_bytes v = Inr b \<and> encode_blob (PBytes b) MAX_BLOB_SIZE = Inr bs)"
  by (cases v) (auto simp: encode_value_blob_def blob_size_probe_def py_bytes_def py_len_def
      is_byteslike_def encode_blob_bytes not_less split: sum.splits option.splits if_splits)

lemma encode_value_as_Inr:
  assumes "encode_value_as iso_ok v t = Inr bs"
  shows "decode_value kind errors t (bs @ rest) = Inr (wire_image t v, length bs)
    \<and> length bs mod 8 = 0 \<and> 8 \<le> length bs"
proof (cases t)
  case BLOB
  then obtain b where "py_bytes v = Inr b" "encode_blob (PBytes b) MAX_BLOB_SIZE = Inr bs"
    using assms by (auto simp: encode_value_as_def encode_value_blob_eq_Inr)
  then show ?thesis
    using decode_blob_encoded [of b _ bs rest] encode_blob_length [of b _ bs]
    by (simp add: BLOB decode_value_cases decode_value_blob_def wire_image_def)
next
  case TEXT
  then have e: "encode_text v (Some MAX_TEXT_VALUE_SIZE) = Inr bs"
    using assms by (auto simp: encode_value_as_def split: pyval.splits)
  then show ?thesis
    using decode_text_encoded [OF e, of kind errors rest] encode_text_length [OF e]
    by (auto simp: TEXT decode_value_cases decode_value_text_def wire_image_def)
next
  case ISO8601
  then have e: "encode_text v (Some MAX_TEXT_VALUE_SIZE) = Inr bs"
    using assms by (auto simp: encode_value_as_def split: pyval.splits if_splits)
  then show ?thesis
    using decode_text_encoded [OF e, of kind errors rest] encode_text_length [OF e]
    by (auto simp: ISO8601 decode_value_cases decode_value_iso8601_def wire_image_def)
qed (use assms in \<open>auto simp: encode_value_as_def decode_value_cases value_decoders wire_image_def
      encode_uint64_eq_Inr encode_int64_eq_Inr encode_double_eq_Inr split: pyval.splits if_splits\<close>)

lemma encode_value_type:
  "encode_value iso_ok v vt = Inr (bs, t) \<Longrightarrow> (vt = Some t) \<or> (vt = None \<and> infer_value_type v = Inr t)"
  by (auto simp: encode_value_def infer_value_type_def bind_inv split: if_splits option.splits)

lemma decode_encode_value:
  assumes "encode_value iso_ok v vt = Inr (bs, t)"
  shows "decode_value kind errors t (bs @ rest) = Inr (wire_image t v, length bs)"
    and "length bs mod 8 = 0 \<and> 8 \<le> length bs"
proof -
  have "(v = PNone \<and> t = NULL \<and> bs = replicate 8 0) \<or> encode_value_as iso_ok v t = Inr bs"
    using assms by (auto simp: encode_value_def bind_inv split: if_splits)
  then have "decode_value kind errors t (bs @ rest) = Inr (wire_image t v, length bs)
    \<and> length bs mod 8 = 0 \<and> 8 \<le> length bs"
  proof
    assume "v = PNone \<and> t = NULL \<and> bs = replicate 8 0"
    then show ?thesis
      by (simp add: decode_value_cases decode_value_null_def decode_uint64_def wire_image_def)
  qed (rule encode_value_as_Inr)
  then show "decode_value kind errors t (bs @ rest) = Inr (wire_image t v, length bs)"
    and "length bs mod 8 = 0 \<and> 8 \<le> length bs" by simp_all
qed

lemma decode_value_consumed:
  assumes "decode_value kind errors t data = Inr (v, n)"
  shows "8 \<le> n \<and> n \<le> length data \<and> n mod 8 = 0"
  using assms
  by (cases t) (auto simp: decode_value_cases value_decoders bind_inv decode_int64_def decode_uint64_def
      decode_double_def dest: decode_text_consumed decode_blob_consumed split: if_splits)

lemma encode_blob_PBytes_error: "encode_blob (PBytes b) MAX_BLOB_SIZE = Inl e \<Longrightarrow> is_EncodeError e"
  by (auto simp: encode_blob_def is_byteslike_def py_len_def py_bytes_def encode_uint64_def validate_uint64_def
      MAX_BLOB_SIZE_def FRAME_PAYLOAD_def bindE_eq_Inl Let_def split: if_splits)

lemma encode_value_error:
  "encode_value iso_ok v vt = Inl e \<Longrightarrow> is_EncodeError e \<or> (\<exists>i. v = PInt i \<and> huge_int i \<and> e = ValueError)"
  by (cases v) (auto simp: shown_error_eq encode_value_def encode_value_as_def encode_value_blob_def bindE_eq_Inl
      infer_value_type_def reject_non_byte_format_memoryview_def raise_if_eq_Inl encode_uint64_def
      encode_int64_def encode_double_def validate_uint64_def validate_int64_def
      is_byteslike_def py_len_def py_bytes_def Let_def
      dest: encode_text_error encode_blob_PBytes_error
      split: if_splits option.splits value_type.splits sum.splits)

lemma decode_text_strict_error:
  assumes "decode_text kind Strict m data = Inl e"
  shows "is_DecodeError e"
proof -
  have "is_DecodeError e'" if "decode_text_bytes Strict m data = Inl e'" for e'
    using that
    by (auto simp: decode_text_bytes_def Let_def bindE_eq_Inl decode_utf8_or_raise_def finish_text_def
        dest: utf8_decode_Strict_error split: option.splits sum.splits exc.splits if_splits)
  then show ?thesis
    using assms by (cases kind) (auto simp: decode_text_def decode_text_view_eq split: if_splits)
qed

lemma decode_value_strict_error: "decode_value kind Strict t data = Inl e \<Longrightarrow> is_DecodeError e"
  by (cases t) (auto simp: decode_value_cases value_decoders bindE_eq_Inl decode_int64_def
      decode_uint64_def decode_double_def decode_blob_def Let_def
      dest: decode_text_strict_error split: if_splits)

subsection \<open>The fields as instances of the codec interface\<close>

interpretation value_field: field_codec "encode_cell iso_ok" "decode_value kind errors" wire_image
  for iso_ok kind errors
proof unfold_locales
  fix t x bs rest
  assume "encode_cell iso_ok t x = Inr bs"
  then obtain t' where "encode_value iso_ok x (Some t) = Inr (bs, t')"
    by (auto simp: encode_cell_def bind_inv)
  then show "decode_value kind errors t (bs @ rest) = Inr (wire_image t x, length bs)"
    using encode_value_type [of iso_ok x "Some t"] decode_encode_value(1) by auto
qed

interpretation text_field: field_codec "text_field m" "\<lambda>_. decode_text kind errors m" "\<lambda>_ s. s"
  for m kind errors
proof unfold_locales
  fix t x bs rest
  assume "text_field m t x = Inr bs"
  then show "decode_text kind errors m (bs @ rest) = Inr (x, length bs)"
    using decode_text_encoded [of "PStr x" m bs kind errors rest] by (simp add: text_field_def)
qed

interpretation uint64_field: field_codec "\<lambda>_ i. encode_uint64 (PInt i)"
  "\<lambda>_ data. bindE (decode_uint64 data) (\<lambda>i. Inr (i, 8))" "\<lambda>_ i. i"
  by unfold_locales (auto simp: encode_uint64_eq_Inr)

interpretation value_reader: word_decoder "decode_value kind errors"
  for kind errors
  by unfold_locales (rule decode_value_consumed)

interpretation text_reader: word_decoder "\<lambda>_ :: unit. decode_text kind errors m"
  for kind errors m
  by unfold_locales (rule decode_text_consumed)

interpretation strict_value: strict_decoder "decode_value kind Strict" is_DecodeError
  for kind
  by unfold_locales (rule decode_value_strict_error)

interpretation strict_text: strict_decoder "\<lambda>_ :: unit. decode_text kind Strict m" is_DecodeError
  for kind m
  by unfold_locales (rule decode_text_strict_error)

text \<open>
  \<^verbatim>\<open>encode_blob\<close> on a view whose elements are wider than a byte, or rows of a matrix: the length
  field counts elements, the bytes of all of them follow, and a reader gets the first bytes only.
\<close>

lemma encode_blob_wide_view:
  assumes "\<not> mv_released m" and "mv_len m \<le> cap" and "mv_len m < 2 ^ 64"
  shows "encode_blob (PMemoryView m) cap
    = Inr (le_bytes 8 (int (mv_len m)) @ mv_bytes m @ replicate (pad_to_word (mv_len m)) 0)"
  using assms by (simp add: encode_blob_def is_byteslike_def py_len_def py_bytes_def encode_uint64_def validate_uint64_def Let_def)

section \<open>Properties\<close>

text \<open>
  C10 (value_roundtrip): whatever type a value is written as, explicit or inferred, and
  whatever bytes follow it, reading it back as that type, from bytes or from a memoryview and
  under any text error handler, returns the value's wire image and consumes exactly the
  bytes written, which are a positive number of whole words.
\<close>

theorem value_roundtrip:
  assumes "encode_value iso_ok v vt = Inr (bs, t)"
  shows "decode_value kind errors t (bs @ rest) = Inr (wire_image t v, length bs)
    \<and> length bs mod WORD_SIZE = 0 \<and> WORD_SIZE \<le> length bs"
  using decode_encode_value [OF assms] by simp

theorem value_roundtrip_witness:
  "decode_value IsView Strict TEXT ([0x68, 0x69, 0, 0, 0, 0, 0, 0] @ [0xAA])
     = Inr (PStr [0x68, 0x69], 8)"
proof -
  have "encode_value (\<lambda>_. True) (PStr [0x68, 0x69]) None = Inr ([0x68, 0x69, 0, 0, 0, 0, 0, 0], TEXT)"
    by code_simp
  from value_roundtrip [OF this, of IsView Strict "[0xAA]"] show ?thesis
    by (simp add: wire_image_def)
qed

text \<open>
  C35 (decode_text_view_agrees): the optimised memoryview path of \<^verbatim>\<open>decode_text\<close> (a 256-byte
  probe, a 64 KiB probe, then 4 KiB chunks) is the reference single search over bytes: same
  text, same consumed count, same errors, but for the diagnostic on data of exactly
  \<open>max_size + 1\<close> bytes without a NUL, where it says too long instead of not terminated.
\<close>

theorem decode_text_view_agrees:
  "decode_text IsView errors m data =
     (if length data = m + 1 \<and> find_nul data = None \<and> m + 1 \<le> TEXT_ONE_SHOT_MAX
      then Inl (DecodeError TooLong) else decode_text IsBytes errors m data)"
  by (simp add: decode_text_def decode_text_view_eq)

text \<open>
  C36 (value_errors): the error convention of the codec.  Encoding any Python value as any
  type raises nothing but \<^verbatim>\<open>EncodeError\<close>, with one exception: an int of more than 4300 digits
  under a type it does not fit, for which the message cannot be built, raises \<^verbatim>\<open>ValueError\<close>.
  Decoding any bytes as any type under the strict handler raises nothing but \<^verbatim>\<open>DecodeError\<close>; a
  decoder that returns has consumed a positive number of whole words that were there.
\<close>

theorem value_errors:
  "(case encode_value iso_ok v vt of
      Inl e \<Rightarrow> is_EncodeError e \<or> (\<exists>i. v = PInt i \<and> huge_int i \<and> e = ValueError)
    | Inr (bs, t) \<Rightarrow> vt = None \<or> vt = Some t)
   \<and> (case decode_value kind Strict t data of
        Inl e \<Rightarrow> is_DecodeError e
      | Inr (w, n) \<Rightarrow> WORD_SIZE \<le> n \<and> n \<le> length data \<and> n mod WORD_SIZE = 0)"
  using encode_value_error [of iso_ok v vt] encode_value_type [of iso_ok v vt]
    decode_value_strict_error [of kind t data] decode_value_consumed [of kind Strict t data]
  by (auto split: sum.splits)

text \<open>
  An int of more than 4300 digits is out of every range and too long to
  print.  Every encoder of an integer field then raises \<^verbatim>\<open>ValueError\<close>, past callers that handle \<^verbatim>\<open>EncodeError\<close>; any int
  that can be printed is shown in at most 81 characters.
\<close>

theorem huge_int_escapes:
  "(if huge_int i then
      encode_value iso_ok (PInt i) None = Inl ValueError \<and> encode_uint64 (PInt i) = Inl ValueError
      \<and> encode_uint32 (PInt i) = Inl ValueError \<and> encode_int64 (PInt i) = Inl ValueError
    else (\<exists>s. bounded_repr i = Inr s \<and> length s \<le> 81))
   \<and> huge_int (10 ^ INT_MAX_STR_DIGITS)"
proof (cases "huge_int i")
  case True
  then have "\<not> \<bar>i\<bar> < 2 ^ 64" using not_huge_int by blast
  then have "\<not> (0 \<le> i \<and> i < 2 ^ 64)" "\<not> (0 \<le> i \<and> i < 2 ^ 32)" "\<not> (- (2 ^ 63) \<le> i \<and> i < 2 ^ 63)" by auto
  then have "validate_uint64 (PInt i) = Inl ValueError" "validate_uint32 (PInt i) = Inl ValueError"
    "validate_int64 (PInt i) = Inl ValueError"
    using True by (simp_all add: validate_uint64_def validate_uint32_def validate_int64_def shown_error_eq)
  then show ?thesis
    using True by (simp add: encode_value_def infer_value_type_def encode_value_as_def encode_uint64_def
        encode_uint32_def encode_int64_def huge_int_def)
next
  case False
  then show ?thesis using bounded_repr_short [OF False] by (simp add: huge_int_def)
qed

end
