(* ===== verification/Tuples.thy ===== *)
theory Tuples
  imports Primitives
begin

text \<open>
  \<^verbatim>\<open>src/dqlitewire/tuples.py\<close>: parameter tuples (a count, one type byte per value, padding
  to the absolute word, the values) and result rows (4-bit type codes packed two per byte,
  then the values), with the two 8-byte markers that end a batch of rows.  A count handed to
  \<^verbatim>\<open>decode_params_tuple\<close> by its caller is a non-negative number.
\<close>

unbundle bit_operations_syntax

section \<open>Definitions\<close>

subsection \<open>Parameter tuples\<close>

text \<open>The loop that encodes all values and collects their types, in order.\<close>

fun encode_param_values ::
  "(pystr \<Rightarrow> bool) \<Rightarrow> pyval list \<Rightarrow> (value_type list \<times> bytes list) result"
where
  "encode_param_values iso_ok [] = Inr ([], [])"
| "encode_param_values iso_ok (param # params) =
     bindE (encode_value iso_ok param None) (\<lambda>(encoded, value_type).
     if value_type = UNIXTIME then Inl (EncodeError BadTag)
     else bindE (encode_param_values iso_ok params) (\<lambda>(types, values).
       Inr (value_type # types, encoded # values)))"

definition type_byte :: "value_type \<Rightarrow> byte" where
  "type_byte t = word_of_int (value_type_code t)"

definition encode_params_tuple ::
  "(pystr \<Rightarrow> bool) \<Rightarrow> pyval list \<Rightarrow> int \<Rightarrow> nat \<Rightarrow> bool \<Rightarrow> bytes result"
where
  "encode_params_tuple iso_ok params schema buffer_offset emit_empty_header =
     (if schema \<noteq> 0 \<and> schema \<noteq> 1 then Inl (shown_error schema (EncodeError BadSchema))
      else if MAX_PARAM_COUNT < length params then Inl (EncodeError TooMany)
      else if params = [] then Inr (if emit_empty_header then replicate 8 0 else [])
      else
        bindE (encode_param_values iso_ok params) (\<lambda>(types, values).
        bindE (if schema = 1 then Inr (le_bytes 4 (int (length params)))
               else if 255 < length params then Inl (EncodeError TooMany)
               else Inr [of_nat (length params)]) (\<lambda>count.
        let header = count @ map type_byte types;
            padding = pad_to_word (buffer_offset + length header)
        in Inr (header @ replicate padding 0 @ concat values))))"

text \<open>\<^verbatim>\<open>ValueType(raw_type)\<close> for each type byte; UNIXTIME is refused.\<close>

fun decode_param_types :: "bytes \<Rightarrow> value_type list result" where
  "decode_param_types [] = Inr []"
| "decode_param_types (raw_type # raws) = (case value_type_of (uint raw_type) of
     None \<Rightarrow> Inl (DecodeError BadTag)
   | Some value_type \<Rightarrow>
       if value_type = UNIXTIME then Inl (DecodeError BadTag)
       else bindE (decode_param_types raws) (\<lambda>types. Inr (value_type # types)))"

text \<open>The part of \<^verbatim>\<open>decode_params_tuple\<close> after the count is known to be positive.\<close>

definition decode_params_body ::
  "buffer_kind \<Rightarrow> nat \<Rightarrow> nat \<Rightarrow> nat \<Rightarrow> bytes \<Rightarrow> (pyval list \<times> nat) result"
where
  "decode_params_body kind count count_size buffer_offset data =
     (if MAX_PARAM_COUNT < count then Inl (shown_error (int count) (DecodeError TooMany))
      else
        (let header_len = count_size + count;
             padded_header_len = header_len + pad_to_word (buffer_offset + header_len)
         in if length data < padded_header_len then Inl (DecodeError TooShort)
            else bindE (decode_param_types (take count (drop count_size data))) (\<lambda>types.
              decode_each (decode_value kind Strict) types data padded_header_len)))"

definition decode_params_tuple ::
  "buffer_kind \<Rightarrow> nat option \<Rightarrow> int \<Rightarrow> nat \<Rightarrow> bytes \<Rightarrow> (pyval list \<times> nat) result"
where
  "decode_params_tuple kind count schema buffer_offset data =
     (if schema \<noteq> 0 \<and> schema \<noteq> 1 then Inl (shown_error schema (DecodeError BadSchema))
      else if data = [] then
        (case count of
           None \<Rightarrow> Inr ([], 0)
         | Some c \<Rightarrow> if 0 < c then Inl (shown_error (int c) (DecodeError TooShort)) else Inr ([], 0))
      else if length data < 8 then
        (if count = Some 0 then Inr ([], 0) else Inl (DecodeError TooShort))
      else
        (case count of
           None \<Rightarrow>
             (let (c, count_size) = (if schema = 1 then (le_nat (take 4 data), 4)
                                     else (unat (data ! 0), 1))
              in if c = 0 then Inr ([], count_size + pad_to_word (buffer_offset + count_size))
                 else decode_params_body kind c count_size buffer_offset data)
         | Some c \<Rightarrow>
             if c = 0 then Inr ([], 0)
             else decode_params_body kind c 0 buffer_offset data))"

subsection \<open>Row headers\<close>

datatype row_marker = DONE | PART

datatype row_header = Types "value_type list" | Marker row_marker

definition VALID_TYPE_CODES :: "int list" where
  "VALID_TYPE_CODES =
     map value_type_code [INTEGER, FLOAT, TEXT, BLOB, NULL, UNIXTIME, ISO8601, BOOLEAN]"

definition NIBBLE_TO_VALUETYPE :: "value_type option list" where
  "NIBBLE_TO_VALUETYPE =
     map (\<lambda>i. if i \<in> set VALID_TYPE_CODES then value_type_of i else None) [0..15]"

definition ROW_DONE_BYTES :: bytes where
  "ROW_DONE_BYTES = replicate 8 ROW_DONE_BYTE"

definition ROW_PART_BYTES :: bytes where
  "ROW_PART_BYTES = replicate 8 ROW_PART_BYTE"

text \<open>The source accepts any integer codes here, so the checks see integers.\<close>

fun check_type_codes :: "int list \<Rightarrow> unit result" where
  "check_type_codes [] = Inr ()"
| "check_type_codes (code # codes) =
     (if 15 < code then Inl (shown_error code (EncodeError OutOfRange))
      else if code \<notin> set VALID_TYPE_CODES then Inl (shown_error code (EncodeError BadTag))
      else check_type_codes codes)"

fun pack_nibbles :: "int list \<Rightarrow> bytes" where
  "pack_nibbles [] = []"
| "pack_nibbles [low] = [word_of_int (push_bit 4 0 OR low)]"
| "pack_nibbles (low # high # codes) = word_of_int (push_bit 4 high OR low) # pack_nibbles codes"

definition encode_row_header :: "int list \<Rightarrow> bytes result" where
  "encode_row_header codes =
     (if codes = [] then Inr []
      else bindE (check_type_codes codes) (\<lambda>_.
        let header = pack_nibbles codes
        in Inr (header @ replicate (pad_to_word (length header)) 0)))"

definition nibble_at :: "bytes \<Rightarrow> nat \<Rightarrow> byte" where
  "nibble_at data i =
     (if i mod 2 = 0 then data ! (i div 2) AND 0x0F
      else drop_bit 4 (data ! (i div 2)) AND 0x0F)"

fun decode_row_types :: "bytes \<Rightarrow> nat list \<Rightarrow> value_type list result" where
  "decode_row_types data [] = Inr []"
| "decode_row_types data (i # is) = (case NIBBLE_TO_VALUETYPE ! unat (nibble_at data i) of
     None \<Rightarrow> Inl (DecodeError BadTag)
   | Some vt \<Rightarrow> bindE (decode_row_types data is) (\<lambda>types. Inr (vt # types)))"

definition decode_row_header :: "bytes \<Rightarrow> nat \<Rightarrow> (row_header \<times> nat) result" where
  "decode_row_header data column_count =
     (if 8 \<le> length data \<and> take 8 data = ROW_DONE_BYTES then Inr (Marker DONE, 8)
      else if 8 \<le> length data \<and> take 8 data = ROW_PART_BYTES then Inr (Marker PART, 8)
      else
        (let bytes_for_types = (column_count + 1) div 2;
             header_size = bytes_for_types + pad_to_word bytes_for_types
         in if length data < header_size then Inl (DecodeError TooShort)
            else bindE (decode_row_types data [0..<column_count]) (\<lambda>types.
              Inr (Types types, header_size))))"

subsection \<open>Row values\<close>

definition encode_row_values ::
  "(pystr \<Rightarrow> bool) \<Rightarrow> pyval list \<Rightarrow> value_type list \<Rightarrow> bytes result"
where
  "encode_row_values iso_ok values types =
     (if length values \<noteq> length types then Inl (EncodeError Mismatch)
      else encode_each (encode_cell iso_ok) types values)"

definition decode_row_values ::
  "buffer_kind \<Rightarrow> text_errors \<Rightarrow> bytes \<Rightarrow> value_type list \<Rightarrow> (pyval list \<times> nat) result"
where
  "decode_row_values kind errors data types =
     decode_each (decode_value kind errors) types data 0"

text \<open>What a reader sees of a parameter: its wire image under the type inferred for it.\<close>

definition param_image :: "pyval \<Rightarrow> pyval" where
  "param_image v = (case infer_value_type v of Inr t \<Rightarrow> wire_image t v | Inl _ \<Rightarrow> v)"

section \<open>Lemmas\<close>

subsection \<open>Parameter tuples\<close>

lemma value_type_of_type_byte [simp]: "value_type_of (uint (type_byte t)) = Some t"
  by (cases t) (simp_all add: type_byte_def value_type_of_def)

lemma encode_cell_inferred:
  "encode_value iso_ok v None = Inr (bs, t) \<Longrightarrow> encode_cell iso_ok t v = Inr bs"
  by (auto simp: encode_cell_def encode_value_def infer_value_type_def bind_inv split: if_splits)

lemma encode_param_values_Inr:
  assumes "encode_param_values iso_ok params = Inr (types, vals)"
  shows "length types = length params \<and> UNIXTIME \<notin> set types
    \<and> encode_each (encode_cell iso_ok) types params = Inr (concat vals)
    \<and> map2 wire_image types params = map param_image params
    \<and> 8 * length params \<le> length (concat vals) \<and> length (concat vals) mod 8 = 0"
  using assms
proof (induction params arbitrary: types vals)
  case Nil
  then show ?case by simp
next
  case (Cons p ps)
  then obtain b t ts vs where e: "encode_value iso_ok p None = Inr (b, t)" "t \<noteq> UNIXTIME"
    and r: "encode_param_values iso_ok ps = Inr (ts, vs)"
    and s: "types = t # ts" "vals = b # vs"
    by (auto simp: bind_inv split: if_splits)
  have "encode_cell iso_ok t p = Inr b" using e(1) by (rule encode_cell_inferred)
  moreover have "infer_value_type p = Inr t" using encode_value_type [OF e(1)] by simp
  ultimately show ?case
    using Cons.IH [OF r] e(2) decode_encode_value(2) [OF e(1)]
    by (simp add: s param_image_def mod_add_eq [of "length b" 8 _, symmetric])
qed

lemma decode_param_types_map [simp]:
  "UNIXTIME \<notin> set types \<Longrightarrow> decode_param_types (map type_byte types) = Inr types"
  by (induction types) auto

lemma decode_param_types_error: "decode_param_types raws = Inl e \<Longrightarrow> is_DecodeError e"
  by (induction raws) (auto simp: bindE_eq_Inl split: option.splits if_splits)

text \<open>
  One statement for both count widths: \<open>count\<close> stands for the bytes of the count field,
  absent when the caller knows the count.
\<close>

lemma decode_params_body_encoded:
  assumes "encode_param_values iso_ok params = Inr (types, vals)"
    and "length params \<le> MAX_PARAM_COUNT"
    and "header = count @ map type_byte types"
    and "bs = header @ replicate (pad_to_word (off + length header)) 0 @ concat vals"
  shows "decode_params_body kind (length params) (length count) off (bs @ rest)
    = Inr (map param_image params, length bs)"
proof -
  note facts = encode_param_values_Inr [OF assms(1)]
  define pre where "pre = header @ replicate (pad_to_word (off + length header)) 0"
  have lens: "length count + length params = length header"
    using facts assms(3) by simp
  have "take (length params) (drop (length count) (bs @ rest)) = map type_byte types"
    using facts assms(3,4) by simp
  moreover have "decode_each (decode_value kind Strict) types (bs @ rest) (length pre)
      = Inr (map2 wire_image types params, length pre + length (concat vals))"
    using facts assms(4)
    by (intro value_field.decode_each_encode_each [of iso_ok _ _ _ _ _ rest]) (simp_all add: pre_def)
  moreover have "length pre = length header + pad_to_word (off + length header)"
    "length bs = length pre + length (concat vals)"
    using assms(4) by (simp_all add: pre_def)
  ultimately show ?thesis
    using facts assms(2) lens by (simp add: decode_params_body_def Let_def)
qed

lemma encode_params_tuple_eq_Inr:
  assumes "encode_params_tuple iso_ok params schema off hdr0 = Inr bs" and "params \<noteq> []"
  obtains types vals and count header :: bytes where
    "encode_param_values iso_ok params = Inr (types, vals)"
    "length params \<le> MAX_PARAM_COUNT" "header = count @ map type_byte types"
    "bs = header @ replicate (pad_to_word (off + length header)) 0 @ concat vals"
    "schema = 1 \<and> count = le_bytes 4 (int (length params))
      \<or> schema = 0 \<and> length params \<le> 255 \<and> count = [of_nat (length params)]"
  using assms
  by (auto simp: encode_params_tuple_def bind_inv Let_def not_less split: if_splits)

lemma decode_encode_params_tuple:
  assumes "encode_params_tuple iso_ok params schema off hdr0 = Inr bs" and "params \<noteq> []"
  shows "decode_params_tuple kind None schema off (bs @ rest) = Inr (map param_image params, length bs)"
proof -
  obtain types vals count header where
    p: "encode_param_values iso_ok params = Inr (types, vals)"
    "length params \<le> MAX_PARAM_COUNT" "header = count @ map type_byte types"
    "bs = header @ replicate (pad_to_word (off + length header)) 0 @ concat vals"
    and c: "schema = 1 \<and> count = le_bytes 4 (int (length params))
      \<or> schema = 0 \<and> length params \<le> 255 \<and> count = [of_nat (length params)]"
    using encode_params_tuple_eq_Inr [OF assms] .
  have pos: "0 < length params" using assms(2) by simp
  have len: "8 \<le> length bs"
  proof -
    have "8 * length params \<le> length (concat vals)" using encode_param_values_Inr [OF p(1)] by blast
    moreover have "8 \<le> 8 * length params" using pos by linarith
    moreover have "length (concat vals) \<le> length bs" by (simp add: p(4))
    ultimately show ?thesis by linarith
  qed
  note body = decode_params_body_encoded [OF p, of kind rest]
  show ?thesis
  proof (cases "schema = 1")
    case True
    with c have count: "count = le_bytes 4 (int (length params))" by simp
    have "length params < 256 ^ 4" using p(2) by (simp add: MAX_PARAM_COUNT_def)
    then have "le_nat (take 4 (bs @ rest)) = length params"
      by (simp add: p(3,4) count)
    then show ?thesis
      using True len body pos by (auto simp: decode_params_tuple_def count)
  next
    case False
    with c have count: "count = [of_nat (length params)]" "length params \<le> 255" "schema = 0" by simp_all
    then have "unat ((bs @ rest) ! 0) = length params"
      by (simp add: p(3,4) unat_of_nat)
    then show ?thesis
      using count len body pos by (auto simp: decode_params_tuple_def)
  qed
qed

lemma encode_params_tuple_length:
  assumes "encode_params_tuple iso_ok params schema off hdr0 = Inr bs"
  shows "params = [] \<or> (off + length bs) mod 8 = 0"
proof (cases "params = []")
  case False
  then obtain types vals and header :: bytes where
    p: "encode_param_values iso_ok params = Inr (types, vals)"
    "bs = header @ replicate (pad_to_word (off + length header)) 0 @ concat vals"
    using encode_params_tuple_eq_Inr [OF assms] by metis
  have "(off + length header + pad_to_word (off + length header)) mod 8 = 0"
    by (rule pad_to_word_aligns)
  moreover have "length (concat vals) mod 8 = 0"
    using encode_param_values_Inr [OF p(1)] by simp
  ultimately have "(off + length header + pad_to_word (off + length header) + length (concat vals)) mod 8 = 0"
    by (metis add_0 mod_add_eq mod_0)
  then show ?thesis by (simp add: p(2) add.assoc)
qed simp

subsection \<open>Row headers\<close>

lemma VALID_TYPE_CODES_iff: "c \<in> set VALID_TYPE_CODES \<longleftrightarrow> (\<exists>t. c = value_type_code t)"
proof -
  have "t \<in> set [INTEGER, FLOAT, TEXT, BLOB, NULL, UNIXTIME, ISO8601, BOOLEAN]" for t
    by (cases t) simp_all
  then show ?thesis unfolding VALID_TYPE_CODES_def set_map by blast
qed

lemma check_type_codes_map [simp]: "check_type_codes (map value_type_code ts) = Inr ()"
proof (induction ts)
  case (Cons t ts)
  have "\<not> 15 < value_type_code t" using value_type_code_range [of t] by linarith
  moreover have "value_type_code t \<in> set VALID_TYPE_CODES" unfolding VALID_TYPE_CODES_iff by blast
  ultimately show ?case using Cons.IH by simp
qed simp

lemma check_type_codes_valid:
  "check_type_codes codes = Inr u \<Longrightarrow> \<exists>ts. codes = map value_type_code ts"
proof (induction codes)
  case (Cons c cs)
  then obtain t ts where "c = value_type_code t" "cs = map value_type_code ts"
    by (auto simp: VALID_TYPE_CODES_iff split: if_splits)
  then show ?case by (intro exI [of _ "t # ts"]) simp
qed simp

lemma length_pack_nibbles [simp]: "length (pack_nibbles codes) = (length codes + 1) div 2"
  by (induction codes rule: pack_nibbles.induct) simp_all

lemma nibble_lookup_low [simp]:
  "NIBBLE_TO_VALUETYPE ! unat ((word_of_int (push_bit 4 (value_type_code h) OR value_type_code t) :: byte) AND 0x0F)
     = Some t"
  by (induct h; induct t; code_simp)

lemma nibble_lookup_high [simp]:
  "NIBBLE_TO_VALUETYPE ! unat (drop_bit 4 (word_of_int (push_bit 4 (value_type_code t) OR value_type_code l) :: byte) AND 0x0F)
     = Some t"
  by (induct l; induct t; code_simp)

lemma nibble_lookup_single [simp]:
  "NIBBLE_TO_VALUETYPE ! unat ((word_of_int (value_type_code t) :: byte) AND 0x0F) = Some t"
  by (induct t; code_simp)

lemma nibble_at_Suc_Suc [simp]: "nibble_at (b # bs) (Suc (Suc i)) = nibble_at bs i"
  by (simp add: nibble_at_def)

lemma nibble_at_pack:
  assumes "i < length ts"
  shows "NIBBLE_TO_VALUETYPE ! unat (nibble_at (pack_nibbles (map value_type_code ts) @ rest) i)
    = Some (ts ! i)"
  using assms
proof (induction "map value_type_code ts" arbitrary: ts i rule: pack_nibbles.induct)
  case 1
  then show ?case by simp
next
  case (2 low)
  then obtain t where "ts = [t]" by (auto simp: map_eq_Cons_conv)
  then show ?case using 2 by (simp add: nibble_at_def)
next
  case (3 low high codes)
  then obtain l h us where ts: "ts = l # h # us" by (cases ts; cases "tl ts") auto
  show ?case
  proof (cases i)
    case (Suc j)
    then show ?thesis
      using 3 by (cases j) (simp_all add: ts nibble_at_def [of _ "Suc 0"])
  qed (simp add: ts nibble_at_def)
qed

lemma decode_row_types_eq:
  assumes "\<And>i. i \<in> set is \<Longrightarrow> NIBBLE_TO_VALUETYPE ! unat (nibble_at data i) = Some (f i)"
  shows "decode_row_types data is = Inr (map f is)"
  using assms by (induction "is") simp_all

lemma decode_row_types_length: "decode_row_types data is = Inr ts \<Longrightarrow> length ts = length is"
  by (induction "is" arbitrary: ts) (auto simp: bind_inv split: option.splits)

lemma decode_row_types_error: "decode_row_types data is = Inl e \<Longrightarrow> is_DecodeError e"
  by (induction "is") (auto simp: bindE_eq_Inl split: option.splits)

text \<open>The codes 14 and 15 are not value types, so the first byte tells a header from a marker.\<close>

lemma pack_nibbles_first_byte:
  assumes "ts \<noteq> []"
  shows "hd (pack_nibbles (map value_type_code ts)) \<notin> {ROW_DONE_BYTE, ROW_PART_BYTE}"
proof -
  have two: "(word_of_int (push_bit 4 (value_type_code h) OR value_type_code l) :: byte)
      \<notin> {ROW_DONE_BYTE, ROW_PART_BYTE}" for l h
    by (induct h; induct l; code_simp)
  have one: "(word_of_int (value_type_code l) :: byte) \<notin> {ROW_DONE_BYTE, ROW_PART_BYTE}" for l
    by (induct l; code_simp)
  show ?thesis
  proof (cases ts)
    case (Cons l us)
    then show ?thesis using one two by (cases us) simp_all
  qed (use assms in simp)
qed

lemma not_marker_if_first_byte:
  assumes "xs \<noteq> []" and "hd xs \<notin> {ROW_DONE_BYTE, ROW_PART_BYTE}"
  shows "take 8 xs \<noteq> ROW_DONE_BYTES" and "take 8 xs \<noteq> ROW_PART_BYTES"
  using assms by (cases xs; auto simp: ROW_DONE_BYTES_def ROW_PART_BYTES_def numeral_eq_Suc)+

lemma encode_row_header_types:
  "encode_row_header (map value_type_code ts) =
     Inr (pack_nibbles (map value_type_code ts)
       @ replicate (pad_to_word ((length ts + 1) div 2)) 0)"
  by (simp add: encode_row_header_def)

lemma decode_encode_row_header:
  assumes "encode_row_header (map value_type_code ts) = Inr bs" and "ts \<noteq> []"
  shows "decode_row_header (bs @ rest) (length ts) = Inr (Types ts, length bs)"
proof -
  let ?p = "pack_nibbles (map value_type_code ts)"
  have bs: "bs = ?p @ replicate (pad_to_word ((length ts + 1) div 2)) 0"
    using assms(1) by (simp add: encode_row_header_types)
  have ne: "?p \<noteq> []" using assms(2) by (cases ts rule: remdups_adj.cases) simp_all
  have "take 8 (bs @ rest) \<noteq> ROW_DONE_BYTES" "take 8 (bs @ rest) \<noteq> ROW_PART_BYTES"
    using ne pack_nibbles_first_byte [OF assms(2)] unfolding bs
    by (intro not_marker_if_first_byte; simp)+
  moreover have "decode_row_types (bs @ rest) [0..<length ts] = Inr (map ((!) ts) [0..<length ts])"
    by (rule decode_row_types_eq) (simp add: bs nibble_at_pack)
  ultimately show ?thesis
    by (simp add: decode_row_header_def Let_def map_nth) (simp add: bs)
qed

lemma decode_row_header_consumed:
  assumes "decode_row_header data n = Inr (h, k)"
  shows "k \<le> length data \<and> k mod 8 = 0 \<and> (\<forall>ts. h = Types ts \<longrightarrow> length ts = n)
    \<and> (0 < n \<longrightarrow> 8 \<le> k)"
proof -
  define w where "w = (n + 1) div 2"
  consider m where "k = 8" "8 \<le> length data" "h = Marker m"
    | ts where "h = Types ts" "decode_row_types data [0..<n] = Inr ts"
      "k = w + pad_to_word w" "k \<le> length data"
    using assms by (auto simp: decode_row_header_def Let_def bind_inv w_def not_less split: if_splits)
  then show ?thesis
  proof cases
    case 1
    then show ?thesis by auto
  next
    case (2 ts)
    have "k mod 8 = 0" unfolding 2(3) by (rule pad_to_word_aligns)
    moreover have "0 < n \<Longrightarrow> 0 < k" using 2(3) by (simp add: w_def)
    ultimately have "0 < n \<longrightarrow> 8 \<le> k" by presburger
    then show ?thesis
      using 2 decode_row_types_length [OF 2(2)] \<open>k mod 8 = 0\<close> by simp
  qed
qed

lemma decode_row_header_error: "decode_row_header data n = Inl e \<Longrightarrow> is_DecodeError e"
  by (auto simp: decode_row_header_def Let_def bindE_eq_Inl dest: decode_row_types_error
      split: if_splits)

lemma encode_row_header_length:
  assumes "encode_row_header codes = Inr bs"
  shows "length bs mod 8 = 0"
  using assms pad_to_word_aligns [of "(length codes + 1) div 2"]
  by (auto simp: encode_row_header_def bind_inv Let_def split: if_splits)

subsection \<open>Row values\<close>

lemma decode_encode_row_values:
  assumes "encode_row_values iso_ok vals types = Inr bs"
  shows "decode_row_values kind errors (bs @ rest) types = Inr (map2 wire_image types vals, length bs)"
  using assms value_field.decode_each_encode_each [of iso_ok types vals bs "bs @ rest" "[]" rest kind errors]
  by (auto simp: encode_row_values_def decode_row_values_def split: if_splits)

lemma encode_cell_length: "encode_cell iso_ok t v = Inr bs \<Longrightarrow> length bs mod 8 = 0 \<and> 8 \<le> length bs"
  by (auto simp: encode_cell_def bind_inv dest: decode_encode_value(2))

lemma encode_each_cells_length:
  "encode_each (encode_cell iso_ok) types vals = Inr bs \<Longrightarrow> length bs mod 8 = 0"
proof (induction types vals arbitrary: bs rule: list_induct2')
  case (4 t ts v vs)
  then obtain b bs' where "encode_cell iso_ok t v = Inr b"
    "encode_each (encode_cell iso_ok) ts vs = Inr bs'" "bs = b @ bs'"
    by (auto simp: bind_inv)
  then show ?case
    using 4 encode_cell_length [of iso_ok t v b] by (simp add: mod_add_eq [of "length b" 8, symmetric])
qed simp_all

lemma encode_row_values_length: "encode_row_values iso_ok vals types = Inr bs \<Longrightarrow> length bs mod 8 = 0"
  by (auto simp: encode_row_values_def dest: encode_each_cells_length split: if_splits)

lemma decode_row_values_consumed:
  assumes "decode_row_values kind errors data types = Inr (vals, n)"
  shows "length vals = length types \<and> 8 * length types \<le> n \<and> n \<le> length data \<and> n mod 8 = 0"
  using value_reader.decode_each_consumed [of kind errors types data 0] assms
  by (simp add: decode_row_values_def)

section \<open>Properties\<close>

text \<open>
  A non-empty parameter list written as a V0 or V1 tuple at any
  body offset is read back as the same parameters (each as the wire image of its inferred
  type), from bytes or from a memoryview and whatever follows, with exactly the tuple's bytes
  consumed, and the tuple ends on a word boundary of the body.
\<close>

theorem params_tuple_roundtrip:
  assumes "encode_params_tuple iso_ok params schema off hdr0 = Inr bs" and "params \<noteq> []"
  shows "decode_params_tuple kind None schema off (bs @ rest) = Inr (map param_image params, length bs)
    \<and> (off + length bs) mod WORD_SIZE = 0"
  using decode_encode_params_tuple [OF assms] encode_params_tuple_length [OF assms(1)] assms(2) by simp

theorem params_tuple_roundtrip_witness:
  "decode_params_tuple IsView None 0 16 [2, 1, 5, 0, 0, 0, 0, 0, 7, 0, 0, 0, 0, 0, 0, 0, 0, 0, 0, 0, 0, 0, 0, 0]
     = Inr ([PInt 7, PNone], 24)"
proof -
  have "encode_params_tuple (\<lambda>_. True) [PInt 7, PNone] 0 16 False
      = Inr [2, 1, 5, 0, 0, 0, 0, 0, 7, 0, 0, 0, 0, 0, 0, 0, 0, 0, 0, 0, 0, 0, 0, 0]"
    by code_simp
  from params_tuple_roundtrip [OF this, of IsView "[]"] show ?thesis
    by (simp add: param_image_def wire_image_def infer_value_type_def)
qed

text \<open>
  One row.  The header written for the column types is recognised as a
  header and never taken for one of the two end markers, gives the types back, and the values
  written under these types are read back as their wire images.
\<close>

theorem row_roundtrip:
  assumes "encode_row_header (map value_type_code types) = Inr hdr" and "types \<noteq> []"
    and "encode_row_values iso_ok vals types = Inr bs"
  shows "decode_row_header (hdr @ bs @ rest) (length types) = Inr (Types types, length hdr)
    \<and> decode_row_values kind errors (drop (length hdr) (hdr @ bs @ rest)) types
        = Inr (map2 wire_image types vals, length bs)"
  using decode_encode_row_header [OF assms(1,2)] decode_encode_row_values [OF assms(3)] by simp

theorem row_roundtrip_witness:
  "decode_row_header ([0xB3, 0, 0, 0, 0, 0, 0, 0] @ [65, 0, 0, 0, 0, 0, 0, 0, 1, 0, 0, 0, 0, 0, 0, 0] @ []) 2
     = Inr (Types [TEXT, BOOLEAN], 8)
   \<and> decode_row_values IsView Strict
       (drop 8 ([0xB3, 0, 0, 0, 0, 0, 0, 0] @ [65, 0, 0, 0, 0, 0, 0, 0, 1, 0, 0, 0, 0, 0, 0, 0] @ []))
       [TEXT, BOOLEAN]
     = Inr ([PStr [65], PBool True], 16)"
proof -
  have "encode_row_header (map value_type_code [TEXT, BOOLEAN]) = Inr [0xB3, 0, 0, 0, 0, 0, 0, 0]"
    by code_simp
  moreover have "encode_row_values (\<lambda>_. True) [PStr [65], PInt 1] [TEXT, BOOLEAN]
      = Inr [65, 0, 0, 0, 0, 0, 0, 0, 1, 0, 0, 0, 0, 0, 0, 0]"
    by code_simp
  ultimately show ?thesis
    using row_roundtrip [of "[TEXT, BOOLEAN]" "[0xB3, 0, 0, 0, 0, 0, 0, 0]" "\<lambda>_. True" "[PStr [65], PInt 1]" _ "[]" IsView Strict]
    by (simp add: wire_image_def numeral_2_eq_2)
qed

end
