(* ===== verification/Message_Base.thy ===== *)
theory Message_Base
  imports Tuples
begin

text \<open>
  \<^verbatim>\<open>src/dqlitewire/messages/base.py\<close>: the 8-byte message header (\<^verbatim>\<open><IBBH\<close>), the
  frame a \<^verbatim>\<open>Message\<close> is encoded to, and the three guards the decoders share.  The frozen
  dataclass \<^verbatim>\<open>Header\<close> is a record of the integers its constructor has validated.
\<close>

section \<open>Definitions\<close>

record header =
  size_words :: int
  msg_type :: int
  schema :: int
  reserved :: int

text \<open>\<open>check_uint w v\<close>: an int (not a bool) in the range of an unsigned \<open>w\<close>-bit field.\<close>

definition check_uint :: "nat \<Rightarrow> pyval \<Rightarrow> int result" where
  "check_uint w v = (case v of
     PInt i \<Rightarrow> if \<not> (0 \<le> i \<and> i < 2 ^ w) then Inl (shown_error i (EncodeError OutOfRange)) else Inr i
   | _ \<Rightarrow> Inl (EncodeError WrongType))"

text \<open>
  \<^verbatim>\<open>Header(...)\<close> with its \<^verbatim>\<open>__post_init__\<close>, in the order of its checks; the reserved
  field has one check with one message.
\<close>

definition Header :: "pyval \<Rightarrow> pyval \<Rightarrow> pyval \<Rightarrow> pyval \<Rightarrow> header result" where
  "Header sw mt sc rv =
     bindE (case rv of
              PInt i \<Rightarrow> if \<not> (0 \<le> i \<and> i < 2 ^ 16) then Inl (shown_error i (EncodeError OutOfRange)) else Inr i
            | _ \<Rightarrow> Inl (EncodeError OutOfRange)) (\<lambda>reserved'.
     bindE (check_uint 32 sw) (\<lambda>size_words'.
     bindE (check_uint 8 mt) (\<lambda>msg_type'.
     bindE (check_uint 8 sc) (\<lambda>schema'.
     Inr \<lparr>size_words = size_words', msg_type = msg_type', schema = schema', reserved = reserved'\<rparr>))))"

text \<open>\<^verbatim>\<open>struct.pack\<close> of one unsigned field, which raises \<^verbatim>\<open>struct.error\<close> out of range.\<close>

definition pack_uint :: "nat \<Rightarrow> int \<Rightarrow> bytes result" where
  "pack_uint n i = (if 0 \<le> i \<and> i < 256 ^ n then Inr (le_bytes n i) else Inl StructError)"

definition header_encode :: "header \<Rightarrow> bytes result" where
  "header_encode h =
     (case bindE (pack_uint 4 (size_words h)) (\<lambda>a.
           bindE (pack_uint 1 (msg_type h)) (\<lambda>b.
           bindE (pack_uint 1 (schema h)) (\<lambda>c.
           bindE (pack_uint 2 (reserved h)) (\<lambda>d. Inr (a @ b @ c @ d))))) of
        Inl StructError \<Rightarrow> Inl (EncodeError Malformed)
      | r \<Rightarrow> r)"

definition header_decode :: "bytes \<Rightarrow> header result" where
  "header_decode data =
     (if length data < HEADER_SIZE then Inl (DecodeError TooShort)
      else
        Header (PInt (int (le_nat (take 4 data))))
               (PInt (int (le_nat (take 1 (drop 4 data)))))
               (PInt (int (le_nat (take 1 (drop 5 data)))))
               (PInt (int (le_nat (take 2 (drop 6 data))))))"

definition body_size :: "header \<Rightarrow> int" where
  "body_size h = size_words h * int WORD_SIZE"

text \<open>\<^verbatim>\<open>Message.encode\<close>, given the body or the exception of \<^verbatim>\<open>encode_body\<close>.\<close>

definition message_encode :: "bytes result \<Rightarrow> int \<Rightarrow> int \<Rightarrow> bytes result" where
  "message_encode encode_body mt sc =
     bindE encode_body (\<lambda>body.
     if length body mod WORD_SIZE \<noteq> 0 then Inl (EncodeError Misaligned)
     else
       bindE (Header (PInt (int (length body div WORD_SIZE))) (PInt mt) (PInt sc) (PInt 0)) (\<lambda>h.
       bindE (header_encode h) (\<lambda>hdr. Inr (hdr @ body))))"

definition require_schema :: "int \<Rightarrow> int list \<Rightarrow> unit result" where
  "require_schema sc allowed =
     (if sc \<notin> set allowed then Inl (shown_error sc (DecodeError BadSchema)) else Inr ())"

definition require_length :: "bytes \<Rightarrow> nat \<Rightarrow> unit result" where
  "require_length data n = raise_if (length data \<noteq> n) (DecodeError BadLength)"

definition require_consumed :: "bytes \<Rightarrow> nat \<Rightarrow> unit result" where
  "require_consumed data offset = raise_if (offset \<noteq> length data) (DecodeError Trailing)"

text \<open>The eight bytes of a header with reserved field 0.\<close>

definition header_bytes :: "nat \<Rightarrow> int \<Rightarrow> int \<Rightarrow> bytes" where
  "header_bytes words mt sc = le_bytes 4 (int words) @ le_bytes 1 mt @ le_bytes 1 sc @ [0, 0]"

section \<open>Lemmas\<close>

lemma require_schema_raise:
  "require_schema sc allowed = raise_if (sc \<notin> set allowed) (shown_error sc (DecodeError BadSchema))"
  by (simp add: require_schema_def)

lemmas require_defs = require_schema_raise require_length_def require_consumed_def

lemma length_header_bytes [simp]: "length (header_bytes w mt sc) = 8"
  by (simp add: header_bytes_def)

lemma replicate_2 [simp]: "replicate 2 x = [x, x]"
  by (simp add: numeral_2_eq_2)

lemma Header_PInt:
  "Header (PInt a) (PInt b) (PInt c) (PInt d) = Inr h \<longleftrightarrow>
     0 \<le> a \<and> a < 2 ^ 32 \<and> 0 \<le> b \<and> b < 2 ^ 8 \<and> 0 \<le> c \<and> c < 2 ^ 8 \<and> 0 \<le> d \<and> d < 2 ^ 16
       \<and> h = \<lparr>size_words = a, msg_type = b, schema = c, reserved = d\<rparr>"
  by (auto simp: Header_def check_uint_def bind_inv)

lemma header_encode_Inr:
  assumes "Header a b c d = Inr h"
  shows "header_encode h =
    Inr (le_bytes 4 (size_words h) @ le_bytes 1 (msg_type h) @ le_bytes 1 (schema h) @ le_bytes 2 (reserved h))"
  using assms by (auto simp: Header_def check_uint_def bind_inv header_encode_def pack_uint_def
      split: pyval.splits if_splits)

lemma message_encode_eq_Inr [bind_inv]:
  "message_encode r mt sc = Inr bs \<longleftrightarrow>
     (\<exists>body. r = Inr body \<and> length body mod 8 = 0 \<and> length body div 8 < 2 ^ 32
        \<and> 0 \<le> mt \<and> mt < 256 \<and> 0 \<le> sc \<and> sc < 256
        \<and> bs = header_bytes (length body div 8) mt sc @ body)"
  (is "?l \<longleftrightarrow> ?r")
proof
  assume ?l
  then obtain body h where "r = Inr body" "length body mod 8 = 0"
    and h: "Header (PInt (int (length body div 8))) (PInt mt) (PInt sc) (PInt 0) = Inr h"
    and bs: "bindE (header_encode h) (\<lambda>hdr. Inr (hdr @ body)) = Inr bs"
    by (auto simp: message_encode_def bind_inv split: if_splits)
  moreover have "bs = header_bytes (length body div 8) mt sc @ body"
    using bs h by (auto simp: header_encode_Inr [OF h] Header_PInt header_bytes_def)
  ultimately show ?r using h unfolding Header_PInt by auto
next
  assume ?r
  then obtain body where b: "r = Inr body" "length body mod 8 = 0" "length body div 8 < 2 ^ 32"
    "0 \<le> mt" "mt < 256" "0 \<le> sc" "sc < 256" "bs = header_bytes (length body div 8) mt sc @ body"
    by (elim exE conjE) (rule that)
  have h: "Header (PInt (int (length body div 8))) (PInt mt) (PInt sc) (PInt 0)
      = Inr \<lparr>size_words = int (length body div 8), msg_type = mt, schema = sc, reserved = 0\<rparr>"
    using b unfolding Header_PInt by simp
  show ?l unfolding message_encode_def b(1) bindE_Inr h header_encode_Inr [OF h]
    using b(2,8) by (simp add: header_bytes_def)
qed

lemma le_nat_word: "int (le_nat (le_bytes n i)) = i" if "0 \<le> i" "i < 256 ^ n"
  using that by (simp add: le_nat_le_bytes)

lemma header_decode_eq:
  assumes "8 \<le> length data"
  shows "header_decode data = Inr \<lparr>size_words = int (le_nat (take 4 data)),
    msg_type = int (le_nat (take 1 (drop 4 data))), schema = int (le_nat (take 1 (drop 5 data))),
    reserved = int (le_nat (take 2 (drop 6 data)))\<rparr>"
proof -
  have "int (le_nat (take 4 data)) < 2 ^ 32" "int (le_nat (take 2 (drop 6 data))) < 2 ^ 16"
    "int (le_nat (take 1 (drop 4 data))) < 2 ^ 8" "int (le_nat (take 1 (drop 5 data))) < 2 ^ 8"
    using le_nat_less [of "take 4 data"] le_nat_less [of "take 2 (drop 6 data)"]
      le_nat_less [of "take 1 (drop 4 data)"] le_nat_less [of "take 1 (drop 5 data)"] assms
    by simp_all
  then show ?thesis
    using assms unfolding header_decode_def by (simp add: Header_PInt not_less)
qed

lemma header_decode_header_bytes:
  assumes "w < 2 ^ 32" and "0 \<le> mt" "mt < 256" and "0 \<le> sc" "sc < 256"
  shows "header_decode (header_bytes w mt sc @ rest)
    = Inr \<lparr>size_words = int w, msg_type = mt, schema = sc, reserved = 0\<rparr>"
proof -
  have "int (le_nat (le_bytes 4 (int w))) = int w"
    "int (le_nat (le_bytes 1 mt)) = mt" "int (le_nat (le_bytes 1 sc)) = sc"
    using assms by (intro le_nat_word; simp)+
  then show ?thesis by (simp add: header_decode_eq) (simp add: header_bytes_def)
qed

text \<open>The reserved field is not checked.\<close>

lemma header_decode_reserved:
  assumes "length pre = 6" and "length res = 2"
  shows "\<exists>h. header_decode (pre @ res) = Inr h \<and> reserved h = int (le_nat res)"
  using assms by (simp add: header_decode_eq)

lemma header_decode_error: "header_decode data = Inl e \<Longrightarrow> is_DecodeError e"
  by (cases "8 \<le> length data") (auto simp: header_decode_eq, auto simp: header_decode_def)

lemma header_decode_small: "header_decode data = Inr h \<Longrightarrow> \<not> huge_int (schema h)"
  by (rule not_huge_int) (auto simp: header_decode_def Header_PInt split: if_splits)

section \<open>Properties\<close>

text \<open>
  A message encodes to its header followed by its body.  Reading the
  header of such a frame back gives the type, the schema and the exact size of the body, so a
  reader of the stream knows where the frame ends.
\<close>

theorem message_frame:
  assumes "message_encode (Inr body) mt sc = Inr bs"
  shows "drop HEADER_SIZE bs = body
    \<and> (\<exists>h. header_decode (bs @ rest) = Inr h \<and> msg_type h = mt \<and> schema h = sc \<and> reserved h = 0
         \<and> body_size h = int (length body))"
proof -
  have b: "length body mod 8 = 0" "length body div 8 < 2 ^ 32" "0 \<le> mt" "mt < 256" "0 \<le> sc" "sc < 256"
    "bs = header_bytes (length body div 8) mt sc @ body"
    using assms unfolding message_encode_eq_Inr by auto
  then show ?thesis
    using header_decode_header_bytes [OF b(2-6), of "body @ rest"] by (auto simp: body_size_def)
qed

theorem message_frame_witness:
  "\<exists>h. header_decode ([1, 0, 0, 0, 5, 1, 0, 0, 9, 9, 9, 9, 9, 9, 9, 9] @ [7]) = Inr h
     \<and> msg_type h = 5 \<and> schema h = 1 \<and> reserved h = 0 \<and> body_size h = 8"
proof -
  have "message_encode (Inr [9, 9, 9, 9, 9, 9, 9, 9]) 5 1 = Inr [1, 0, 0, 0, 5, 1, 0, 0, 9, 9, 9, 9, 9, 9, 9, 9]"
    by code_simp
  from message_frame [OF this, of "[7]"] show ?thesis by simp
qed

end
