(* ===== verification/Requests.thy ===== *)
theory Requests
  imports Message_Base
begin

text \<open>
  \<^verbatim>\<open>src/dqlitewire/messages/requests.py\<close>: the client-to-server messages.  A request object
  is a value of the datatype \<open>request\<close>, its fields as the caller passed them; the base classes
  of the source are the operations \<open>WordRequest_\<dots>\<close>, \<open>NodeAddressRequest_\<dots>\<close>,
  \<open>ParamsRequest_\<dots>\<close> and so on, and the record \<open>params_request\<close> with its two extensions
  follows the inheritance of the statement requests.  The constructor's \<^verbatim>\<open>__post_init__\<close> is
  \<open>request_post_init\<close>; every decoder ends with it, as \<^verbatim>\<open>cls(...)\<close> does.  The private hints
  \<^verbatim>\<open>_decoded_schema\<close> and \<^verbatim>\<open>_decoded_empty_header\<close> hold \<^verbatim>\<open>None\<close> or a value of their
  declared type.
\<close>

section \<open>Definitions\<close>

subsection \<open>Data\<close>

record params_request =
  params :: "pyval list"
  decoded_schema :: "int option"
  decoded_empty_header :: "bool option"

record prepared_request = params_request +
  db_id :: pyval
  stmt_id :: pyval

record sql_request = params_request +
  sql_db_id :: pyval
  sql :: pyval

datatype request =
    LeaderRequest
  | ClientRequest pyval
  | HeartbeatRequest pyval
  | InterruptRequest pyval
  | RemoveRequest pyval
  | TransferRequest pyval
  | WeightRequest pyval
  | AddRequest pyval pyval
  | ConnectRequest pyval pyval
  | ExecRequest prepared_request
  | QueryRequest prepared_request
  | ExecSqlRequest sql_request
  | QuerySqlRequest sql_request
  | PrepareRequest pyval pyval int           \<comment> \<open>db id, SQL, schema\<close>
  | FinalizeRequest pyval pyval
  | OpenRequest pyval pyval pyval            \<comment> \<open>name, flags, vfs\<close>
  | DumpRequest pyval
  | AssignRequest pyval "node_role option" bool   \<comment> \<open>node id, role, \<^verbatim>\<open>_legacy_intent\<close>\<close>
  | ClusterRequest pyval bool                \<comment> \<open>format, \<^verbatim>\<open>_decoded\<close>\<close>
  | DescribeRequest pyval bool

text \<open>The \<^verbatim>\<open>role\<close> argument of \<^verbatim>\<open>AssignRequest\<close>: absent, a \<^verbatim>\<open>NodeRole\<close>, or anything else.\<close>

datatype role_arg = RoleNone | RoleEnum node_role | RoleRaw pyval

subsection \<open>Construction\<close>

definition require_str :: "pyval \<Rightarrow> unit result" where
  "require_str v = (case v of PStr _ \<Rightarrow> Inr () | _ \<Rightarrow> Inl (EncodeError WrongType))"

definition check_uint64 :: "pyval \<Rightarrow> unit result" where
  "check_uint64 v = bindE (validate_uint64 v) (\<lambda>_. Inr ())"

definition check_uint32 :: "pyval \<Rightarrow> unit result" where
  "check_uint32 v = bindE (validate_uint32 v) (\<lambda>_. Inr ())"

definition WordRequest_post_init :: "pyval \<Rightarrow> unit result" where
  "WordRequest_post_init v = check_uint64 v"

definition NodeAddressRequest_post_init :: "pyval \<Rightarrow> pyval \<Rightarrow> unit result" where
  "NodeAddressRequest_post_init node_id address =
     bindE (check_uint64 node_id) (\<lambda>_. require_str address)"

definition validate_decoded_schema :: "int option \<Rightarrow> nat \<Rightarrow> unit result" where
  "validate_decoded_schema ds param_count = (case ds of
     None \<Rightarrow> Inr ()
   | Some s \<Rightarrow>
       if s \<noteq> 0 \<and> s \<noteq> 1 then Inl (shown_error s (EncodeError BadSchema))
       else if s = 0 \<and> 255 < param_count then Inl (EncodeError TooMany)
       else if s = 1 \<and> MAX_PARAM_COUNT < param_count then Inl (EncodeError TooMany)
       else Inr ())"

definition validate_decoded_empty_header :: "bool option \<Rightarrow> nat \<Rightarrow> unit result" where
  "validate_decoded_empty_header hint param_count =
     raise_if (hint = Some True \<and> 0 < param_count) (EncodeError Malformed)"

definition validate_params_hints :: "('a params_request_scheme) \<Rightarrow> unit result" where
  "validate_params_hints r =
     bindE (validate_decoded_schema (decoded_schema r) (length (params r))) (\<lambda>_.
     validate_decoded_empty_header (decoded_empty_header r) (length (params r)))"

definition PreparedStatementRequest_post_init :: "prepared_request \<Rightarrow> unit result" where
  "PreparedStatementRequest_post_init r =
     bindE (check_uint32 (db_id r)) (\<lambda>_.
     bindE (check_uint32 (stmt_id r)) (\<lambda>_. validate_params_hints r))"

definition SqlTextRequest_post_init :: "sql_request \<Rightarrow> unit result" where
  "SqlTextRequest_post_init r =
     bindE (check_uint64 (sql_db_id r)) (\<lambda>_.
     bindE (require_str (sql r)) (\<lambda>_. validate_params_hints r))"

definition PrepareRequest_post_init :: "pyval \<Rightarrow> pyval \<Rightarrow> int \<Rightarrow> unit result" where
  "PrepareRequest_post_init db stmt sc =
     bindE (check_uint64 db) (\<lambda>_.
     bindE (require_str stmt) (\<lambda>_. 
     if sc \<noteq> 0 \<and> sc \<noteq> 1 then Inl (shown_error sc (EncodeError BadSchema)) else Inr ()))"

definition FinalizeRequest_post_init :: "pyval \<Rightarrow> pyval \<Rightarrow> unit result" where
  "FinalizeRequest_post_init db stmt = bindE (check_uint32 db) (\<lambda>_. check_uint32 stmt)"

definition OpenRequest_post_init :: "pyval \<Rightarrow> pyval \<Rightarrow> pyval \<Rightarrow> unit result" where
  "OpenRequest_post_init name flags vfs =
     bindE (require_str name) (\<lambda>_. bindE (require_str vfs) (\<lambda>_. check_uint64 flags))"

definition DumpRequest_post_init :: "pyval \<Rightarrow> unit result" where
  "DumpRequest_post_init name = require_str name"

text \<open>\<^verbatim>\<open>AssignRequest(node_id, role, _legacy_intent)\<close>; an integer role is coerced.\<close>

definition AssignRequest_init :: "pyval \<Rightarrow> role_arg \<Rightarrow> bool \<Rightarrow> request result" where
  "AssignRequest_init node_id role legacy_intent =
     bindE (check_uint64 node_id) (\<lambda>_.
     case role of
       RoleNone \<Rightarrow>
         if \<not> legacy_intent then Inl (EncodeError Malformed)
         else Inr (AssignRequest node_id None legacy_intent)
     | RoleEnum r \<Rightarrow> Inr (AssignRequest node_id (Some r) legacy_intent)
     | RoleRaw v \<Rightarrow>
         bindE (validate_uint64 v) (\<lambda>i.
         case node_role_of i of
           None \<Rightarrow> Inl (EncodeError BadRole)
         | Some r \<Rightarrow> Inr (AssignRequest node_id (Some r) legacy_intent)))"

definition ClusterRequest_post_init :: "pyval \<Rightarrow> bool \<Rightarrow> unit result" where
  "ClusterRequest_post_init format decoded =
     bindE (validate_uint64 format) (\<lambda>f.
     if f = 0 \<and> \<not> decoded then Inl (EncodeError BadFormat)
     else raise_if (f \<noteq> 0 \<and> f \<noteq> 1) (EncodeError BadFormat))"

definition DescribeRequest_post_init :: "pyval \<Rightarrow> bool \<Rightarrow> unit result" where
  "DescribeRequest_post_init format decoded =
     bindE (validate_uint64 format) (\<lambda>f. raise_if (f \<noteq> 0 \<and> \<not> decoded) (EncodeError BadFormat))"

fun request_check :: "request \<Rightarrow> unit result" where
  "request_check LeaderRequest = Inr ()"
| "request_check (ClientRequest v) = WordRequest_post_init v"
| "request_check (HeartbeatRequest v) = WordRequest_post_init v"
| "request_check (InterruptRequest v) = WordRequest_post_init v"
| "request_check (RemoveRequest v) = WordRequest_post_init v"
| "request_check (TransferRequest v) = WordRequest_post_init v"
| "request_check (WeightRequest v) = WordRequest_post_init v"
| "request_check (AddRequest n a) = NodeAddressRequest_post_init n a"
| "request_check (ConnectRequest n a) = NodeAddressRequest_post_init n a"
| "request_check (ExecRequest r) = PreparedStatementRequest_post_init r"
| "request_check (QueryRequest r) = PreparedStatementRequest_post_init r"
| "request_check (ExecSqlRequest r) = SqlTextRequest_post_init r"
| "request_check (QuerySqlRequest r) = SqlTextRequest_post_init r"
| "request_check (PrepareRequest db stmt sc) = PrepareRequest_post_init db stmt sc"
| "request_check (FinalizeRequest db stmt) = FinalizeRequest_post_init db stmt"
| "request_check (OpenRequest name flags vfs) = OpenRequest_post_init name flags vfs"
| "request_check (DumpRequest name) = DumpRequest_post_init name"
| "request_check (AssignRequest n ro legacy) =
     bindE (AssignRequest_init n (case ro of None \<Rightarrow> RoleNone | Some r \<Rightarrow> RoleEnum r) legacy) (\<lambda>_. Inr ())"
| "request_check (ClusterRequest f decoded) = ClusterRequest_post_init f decoded"
| "request_check (DescribeRequest f decoded) = DescribeRequest_post_init f decoded"

definition request_post_init :: "request \<Rightarrow> request result" where
  "request_post_init r = bindE (request_check r) (\<lambda>_. Inr r)"

subsection \<open>Encoding\<close>

fun request_MSG_TYPE :: "request \<Rightarrow> request_type" where
  "request_MSG_TYPE LeaderRequest = RT_LEADER"
| "request_MSG_TYPE (ClientRequest v) = RT_CLIENT"
| "request_MSG_TYPE (HeartbeatRequest v) = RT_HEARTBEAT"
| "request_MSG_TYPE (InterruptRequest v) = RT_INTERRUPT"
| "request_MSG_TYPE (RemoveRequest v) = RT_REMOVE"
| "request_MSG_TYPE (TransferRequest v) = RT_TRANSFER"
| "request_MSG_TYPE (WeightRequest v) = RT_WEIGHT"
| "request_MSG_TYPE (AddRequest n a) = RT_ADD"
| "request_MSG_TYPE (ConnectRequest n a) = RT_CONNECT"
| "request_MSG_TYPE (ExecRequest r) = RT_EXEC"
| "request_MSG_TYPE (QueryRequest r) = RT_QUERY"
| "request_MSG_TYPE (ExecSqlRequest r) = RT_EXEC_SQL"
| "request_MSG_TYPE (QuerySqlRequest r) = RT_QUERY_SQL"
| "request_MSG_TYPE (PrepareRequest db stmt sc) = RT_PREPARE"
| "request_MSG_TYPE (FinalizeRequest db stmt) = RT_FINALIZE"
| "request_MSG_TYPE (OpenRequest name flags vfs) = RT_OPEN"
| "request_MSG_TYPE (DumpRequest name) = RT_DUMP"
| "request_MSG_TYPE (AssignRequest n ro legacy) = RT_ASSIGN"
| "request_MSG_TYPE (ClusterRequest f decoded) = RT_CLUSTER"
| "request_MSG_TYPE (DescribeRequest f decoded) = RT_DESCRIBE"

definition params_get_schema :: "('a params_request_scheme) \<Rightarrow> int" where
  "params_get_schema r = (case decoded_schema r of
     Some s \<Rightarrow> s
   | None \<Rightarrow> if 255 < length (params r) then 1 else 0)"

fun request_get_schema :: "request \<Rightarrow> int" where
  "request_get_schema (ExecRequest r) = params_get_schema r"
| "request_get_schema (QueryRequest r) = params_get_schema r"
| "request_get_schema (ExecSqlRequest r) = params_get_schema r"
| "request_get_schema (QuerySqlRequest r) = params_get_schema r"
| "request_get_schema (PrepareRequest db stmt sc) = sc"
| "request_get_schema _ = 0"

definition id_pair :: "pyval \<Rightarrow> pyval \<Rightarrow> bytes result" where
  "id_pair a b = bindE (encode_uint32 a) (\<lambda>x. bindE (encode_uint32 b) (\<lambda>y. Inr (x @ y)))"

definition word_text :: "pyval \<Rightarrow> pyval \<Rightarrow> nat \<Rightarrow> bytes result" where
  "word_text a s max_size =
     bindE (encode_uint64 a) (\<lambda>x. bindE (encode_text s (Some max_size)) (\<lambda>y. Inr (x @ y)))"

definition ParamsRequest_encode_body ::
  "(pystr \<Rightarrow> bool) \<Rightarrow> bytes result \<Rightarrow> ('a params_request_scheme) \<Rightarrow> bytes result"
where
  "ParamsRequest_encode_body iso_ok encode_prefix r =
     bindE encode_prefix (\<lambda>prefix.
     bindE (encode_params_tuple iso_ok (params r) (params_get_schema r) (length prefix)
              (decoded_empty_header r = Some True)) (\<lambda>tuple.
     Inr (prefix @ tuple)))"

definition PreparedStatementRequest_encode_prefix :: "prepared_request \<Rightarrow> bytes result" where
  "PreparedStatementRequest_encode_prefix r = id_pair (db_id r) (stmt_id r)"

definition SqlTextRequest_encode_prefix :: "sql_request \<Rightarrow> bytes result" where
  "SqlTextRequest_encode_prefix r = word_text (sql_db_id r) (sql r) MAX_TEXT_VALUE_SIZE"

definition OpenRequest_encode_body :: "pyval \<Rightarrow> pyval \<Rightarrow> pyval \<Rightarrow> bytes result" where
  "OpenRequest_encode_body name flags vfs =
     bindE (encode_text name (Some MAX_FILENAME_SIZE)) (\<lambda>a.
     bindE (encode_uint64 flags) (\<lambda>b.
     bindE (encode_text vfs (Some MAX_FILENAME_SIZE)) (\<lambda>c. Inr (a @ b @ c))))"

definition AssignRequest_encode_body :: "pyval \<Rightarrow> node_role option \<Rightarrow> bytes result" where
  "AssignRequest_encode_body node_id role = (case role of
     None \<Rightarrow> Inl (EncodeError Malformed)
   | Some r \<Rightarrow>
       bindE (encode_uint64 node_id) (\<lambda>a.
       bindE (encode_uint64 (PInt (node_role_code r))) (\<lambda>b. Inr (a @ b))))"

definition AssignRequest_encode_body_legacy :: "pyval \<Rightarrow> bytes result" where
  "AssignRequest_encode_body_legacy node_id = encode_uint64 node_id"

fun request_encode_body :: "(pystr \<Rightarrow> bool) \<Rightarrow> request \<Rightarrow> bytes result" where
  "request_encode_body iso_ok LeaderRequest = encode_uint64 (PInt 0)"
| "request_encode_body iso_ok (ClientRequest v) = encode_uint64 v"
| "request_encode_body iso_ok (HeartbeatRequest v) = encode_uint64 v"
| "request_encode_body iso_ok (InterruptRequest v) = encode_uint64 v"
| "request_encode_body iso_ok (RemoveRequest v) = encode_uint64 v"
| "request_encode_body iso_ok (TransferRequest v) = encode_uint64 v"
| "request_encode_body iso_ok (WeightRequest v) = encode_uint64 v"
| "request_encode_body iso_ok (AddRequest n a) = word_text n a MAX_ADDRESS_SIZE"
| "request_encode_body iso_ok (ConnectRequest n a) = word_text n a MAX_ADDRESS_SIZE"
| "request_encode_body iso_ok (ExecRequest r) =
     ParamsRequest_encode_body iso_ok (PreparedStatementRequest_encode_prefix r) r"
| "request_encode_body iso_ok (QueryRequest r) =
     ParamsRequest_encode_body iso_ok (PreparedStatementRequest_encode_prefix r) r"
| "request_encode_body iso_ok (ExecSqlRequest r) =
     ParamsRequest_encode_body iso_ok (SqlTextRequest_encode_prefix r) r"
| "request_encode_body iso_ok (QuerySqlRequest r) =
     ParamsRequest_encode_body iso_ok (SqlTextRequest_encode_prefix r) r"
| "request_encode_body iso_ok (PrepareRequest db stmt sc) = word_text db stmt MAX_TEXT_VALUE_SIZE"
| "request_encode_body iso_ok (FinalizeRequest db stmt) = id_pair db stmt"
| "request_encode_body iso_ok (OpenRequest name flags vfs) = OpenRequest_encode_body name flags vfs"
| "request_encode_body iso_ok (DumpRequest name) = encode_text name (Some MAX_DUMP_FILENAME_SIZE)"
| "request_encode_body iso_ok (AssignRequest n ro legacy) = AssignRequest_encode_body n ro"
| "request_encode_body iso_ok (ClusterRequest f decoded) = encode_uint64 f"
| "request_encode_body iso_ok (DescribeRequest f decoded) = encode_uint64 f"

definition request_encode :: "(pystr \<Rightarrow> bool) \<Rightarrow> request \<Rightarrow> bytes result" where
  "request_encode iso_ok r =
     message_encode (request_encode_body iso_ok r) (request_type_code (request_MSG_TYPE r))
       (request_get_schema r)"

subsection \<open>Decoding\<close>

definition WordRequest_decode_body :: "(pyval \<Rightarrow> request) \<Rightarrow> bytes \<Rightarrow> int \<Rightarrow> request result" where
  "WordRequest_decode_body cls data sc =
     bindE (require_schema sc [0]) (\<lambda>_.
     bindE (require_length data 8) (\<lambda>_.
     bindE (decode_uint64 data) (\<lambda>i. request_post_init (cls (PInt i)))))"

definition LeaderRequest_decode_body :: "bytes \<Rightarrow> int \<Rightarrow> request result" where
  "LeaderRequest_decode_body data sc =
     bindE (require_schema sc [0]) (\<lambda>_.
     bindE (require_length data 8) (\<lambda>_.
     bindE (decode_uint64 data) (\<lambda>reserved'.
     if reserved' \<noteq> 0 then Inl (DecodeError Malformed) else request_post_init LeaderRequest)))"

definition NodeAddressRequest_decode_body ::
  "(pyval \<Rightarrow> pyval \<Rightarrow> request) \<Rightarrow> bytes \<Rightarrow> int \<Rightarrow> request result"
where
  "NodeAddressRequest_decode_body cls data sc =
     bindE (require_schema sc [0]) (\<lambda>_.
     bindE (decode_uint64 data) (\<lambda>node_id.
     bindE (decode_text IsBytes Strict MAX_ADDRESS_SIZE (drop 8 data)) (\<lambda>(address, consumed).
     bindE (require_consumed data (8 + consumed)) (\<lambda>_.
     request_post_init (cls (PInt node_id) (PStr address))))))"

text \<open>
  \<^verbatim>\<open>_ParamsRequest.decode_body\<close>: \<open>decode_prefix\<close> returns the constructor arguments and the
  bytes consumed; \<open>cls\<close> builds the object from them, the parameters and the two hints.
\<close>

definition ParamsRequest_decode_body ::
  "(bytes \<Rightarrow> ((pyval \<times> pyval) \<times> nat) result)
    \<Rightarrow> (pyval \<times> pyval \<Rightarrow> pyval list \<Rightarrow> int option \<Rightarrow> bool option \<Rightarrow> request)
    \<Rightarrow> bytes \<Rightarrow> int \<Rightarrow> request result"
where
  "ParamsRequest_decode_body decode_prefix cls data sc =
     bindE (require_schema sc [0, 1]) (\<lambda>_.
     bindE (decode_prefix data) (\<lambda>(args, offset).
     bindE (decode_params_tuple IsView None sc offset (drop offset data)) (\<lambda>(ps, consumed).
     bindE (require_consumed data (offset + consumed)) (\<lambda>_.
     request_post_init (cls args ps (Some sc) (Some (ps = [] \<and> 0 < consumed)))))))"

definition PreparedStatementRequest_decode_prefix :: "bytes \<Rightarrow> ((pyval \<times> pyval) \<times> nat) result" where
  "PreparedStatementRequest_decode_prefix view =
     bindE (decode_uint32 view) (\<lambda>db.
     bindE (decode_uint32 (drop 4 view)) (\<lambda>stmt. Inr ((PInt db, PInt stmt), 8)))"

definition SqlTextRequest_decode_prefix :: "bytes \<Rightarrow> ((pyval \<times> pyval) \<times> nat) result" where
  "SqlTextRequest_decode_prefix view =
     bindE (decode_uint64 view) (\<lambda>db.
     bindE (decode_text IsView Strict MAX_TEXT_VALUE_SIZE (drop 8 view)) (\<lambda>(stmt, consumed).
     Inr ((PInt db, PStr stmt), 8 + consumed)))"

definition prepared_fields ::
  "pyval \<times> pyval \<Rightarrow> pyval list \<Rightarrow> int option \<Rightarrow> bool option \<Rightarrow> prepared_request"
where
  "prepared_fields args ps ds deh =
     \<lparr>params = ps, decoded_schema = ds, decoded_empty_header = deh, db_id = fst args, stmt_id = snd args\<rparr>"

definition sql_fields ::
  "pyval \<times> pyval \<Rightarrow> pyval list \<Rightarrow> int option \<Rightarrow> bool option \<Rightarrow> sql_request"
where
  "sql_fields args ps ds deh =
     \<lparr>params = ps, decoded_schema = ds, decoded_empty_header = deh, sql_db_id = fst args, sql = snd args\<rparr>"

definition PrepareRequest_decode_body :: "bytes \<Rightarrow> int \<Rightarrow> request result" where
  "PrepareRequest_decode_body data sc =
     bindE (require_schema sc [0, 1]) (\<lambda>_.
     bindE (decode_uint64 data) (\<lambda>db.
     bindE (decode_text IsView Strict MAX_TEXT_VALUE_SIZE (drop 8 data)) (\<lambda>(stmt, consumed).
     bindE (require_consumed data (8 + consumed)) (\<lambda>_.
     request_post_init (PrepareRequest (PInt db) (PStr stmt) sc)))))"

definition FinalizeRequest_decode_body :: "bytes \<Rightarrow> int \<Rightarrow> request result" where
  "FinalizeRequest_decode_body data sc =
     bindE (require_schema sc [0]) (\<lambda>_.
     bindE (require_length data 8) (\<lambda>_.
     bindE (decode_uint32 data) (\<lambda>db.
     bindE (decode_uint32 (drop 4 data)) (\<lambda>stmt.
     request_post_init (FinalizeRequest (PInt db) (PInt stmt))))))"

definition OpenRequest_decode_body :: "bytes \<Rightarrow> int \<Rightarrow> request result" where
  "OpenRequest_decode_body data sc =
     bindE (require_schema sc [0]) (\<lambda>_.
     bindE (decode_text IsView Strict MAX_FILENAME_SIZE data) (\<lambda>(name, offset).
     bindE (decode_uint64 (drop offset data)) (\<lambda>flags.
     bindE (decode_text IsView Strict MAX_FILENAME_SIZE (drop (offset + 8) data)) (\<lambda>(vfs, consumed).
     bindE (require_consumed data (offset + 8 + consumed)) (\<lambda>_.
     request_post_init (OpenRequest (PStr name) (PInt flags) (PStr vfs)))))))"

definition DumpRequest_decode_body :: "bytes \<Rightarrow> int \<Rightarrow> request result" where
  "DumpRequest_decode_body data sc =
     bindE (require_schema sc [0]) (\<lambda>_.
     bindE (decode_text IsBytes Strict MAX_DUMP_FILENAME_SIZE data) (\<lambda>(name, consumed).
     bindE (require_consumed data consumed) (\<lambda>_. request_post_init (DumpRequest (PStr name)))))"

definition AssignRequest_decode_body :: "bytes \<Rightarrow> int \<Rightarrow> request result" where
  "AssignRequest_decode_body data sc =
     bindE (require_schema sc [0]) (\<lambda>_.
     if length data = 8 then
       bindE (decode_uint64 data) (\<lambda>n. AssignRequest_init (PInt n) (RoleEnum VOTER) False)
     else if length data = 16 then
       bindE (decode_uint64 (drop 8 data)) (\<lambda>raw.
       case node_role_of raw of
         None \<Rightarrow> Inl (DecodeError BadRole)
       | Some role \<Rightarrow>
           bindE (decode_uint64 data) (\<lambda>n. AssignRequest_init (PInt n) (RoleEnum role) False))
     else Inl (DecodeError BadLength))"

definition ClusterRequest_decode_body :: "bytes \<Rightarrow> int \<Rightarrow> request result" where
  "ClusterRequest_decode_body data sc =
     bindE (require_schema sc [0]) (\<lambda>_.
     bindE (require_length data 8) (\<lambda>_.
     bindE (decode_uint64 data) (\<lambda>f.
     if f \<noteq> 0 \<and> f \<noteq> 1 then Inl (DecodeError BadFormat)
     else request_post_init (ClusterRequest (PInt f) True))))"

definition DescribeRequest_decode_body :: "bool \<Rightarrow> bytes \<Rightarrow> int \<Rightarrow> request result" where
  "DescribeRequest_decode_body strict data sc =
     bindE (require_schema sc [0]) (\<lambda>_.
     bindE (require_length data 8) (\<lambda>_.
     bindE (decode_uint64 data) (\<lambda>f.
     if f \<noteq> 0 then
       (if strict then Inl (DecodeError BadFormat)
        else request_post_init (DescribeRequest (PInt f) True))
     else request_post_init (DescribeRequest (PInt f) False))))"

text \<open>The class of each request type, with its \<^verbatim>\<open>decode_body\<close>.\<close>

fun request_decode_body :: "request_type \<Rightarrow> bytes \<Rightarrow> int \<Rightarrow> request result" where
  "request_decode_body RT_LEADER = LeaderRequest_decode_body"
| "request_decode_body RT_CLIENT = WordRequest_decode_body ClientRequest"
| "request_decode_body RT_HEARTBEAT = WordRequest_decode_body HeartbeatRequest"
| "request_decode_body RT_OPEN = OpenRequest_decode_body"
| "request_decode_body RT_PREPARE = PrepareRequest_decode_body"
| "request_decode_body RT_EXEC =
     ParamsRequest_decode_body PreparedStatementRequest_decode_prefix
       (\<lambda>args ps ds deh. ExecRequest (prepared_fields args ps ds deh))"
| "request_decode_body RT_QUERY =
     ParamsRequest_decode_body PreparedStatementRequest_decode_prefix
       (\<lambda>args ps ds deh. QueryRequest (prepared_fields args ps ds deh))"
| "request_decode_body RT_FINALIZE = FinalizeRequest_decode_body"
| "request_decode_body RT_EXEC_SQL =
     ParamsRequest_decode_body SqlTextRequest_decode_prefix
       (\<lambda>args ps ds deh. ExecSqlRequest (sql_fields args ps ds deh))"
| "request_decode_body RT_QUERY_SQL =
     ParamsRequest_decode_body SqlTextRequest_decode_prefix
       (\<lambda>args ps ds deh. QuerySqlRequest (sql_fields args ps ds deh))"
| "request_decode_body RT_INTERRUPT = WordRequest_decode_body InterruptRequest"
| "request_decode_body RT_CONNECT = NodeAddressRequest_decode_body ConnectRequest"
| "request_decode_body RT_ADD = NodeAddressRequest_decode_body AddRequest"
| "request_decode_body RT_ASSIGN = AssignRequest_decode_body"
| "request_decode_body RT_REMOVE = WordRequest_decode_body RemoveRequest"
| "request_decode_body RT_DUMP = DumpRequest_decode_body"
| "request_decode_body RT_CLUSTER = ClusterRequest_decode_body"
| "request_decode_body RT_TRANSFER = WordRequest_decode_body TransferRequest"
| "request_decode_body RT_DESCRIBE = DescribeRequest_decode_body True"
| "request_decode_body RT_WEIGHT = WordRequest_decode_body WeightRequest"

subsection \<open>What a reader sees of a request\<close>

definition params_image :: "('a params_request_scheme) \<Rightarrow> ('a params_request_scheme)" where
  "params_image r = r\<lparr>params := map param_image (params r),
     decoded_schema := Some (params_get_schema r),
     decoded_empty_header := Some (decoded_empty_header r = Some True)\<rparr>"

fun request_image :: "request \<Rightarrow> request" where
  "request_image (ExecRequest r) = ExecRequest (params_image r)"
| "request_image (QueryRequest r) = QueryRequest (params_image r)"
| "request_image (ExecSqlRequest r) = ExecSqlRequest (params_image r)"
| "request_image (QuerySqlRequest r) = QuerySqlRequest (params_image r)"
| "request_image (AssignRequest n ro legacy) = AssignRequest n ro False"
| "request_image (ClusterRequest f decoded) = ClusterRequest f True"
| "request_image (DescribeRequest f decoded) = DescribeRequest f False"
| "request_image r = r"

text \<open>
  The one request that can be built but that the strict decoder refuses: a
  \<^verbatim>\<open>DescribeRequest\<close> of another format, admitted only by \<^verbatim>\<open>decode_body(strict=False)\<close>.
\<close>

fun strict_request :: "request \<Rightarrow> bool" where
  "strict_request (DescribeRequest f decoded) = (f = PInt 0)"
| "strict_request r = True"

section \<open>Lemmas\<close>

lemmas request_defs = require_str_def check_uint64_def check_uint32_def WordRequest_post_init_def
  NodeAddressRequest_post_init_def PreparedStatementRequest_post_init_def SqlTextRequest_post_init_def
  PrepareRequest_post_init_def FinalizeRequest_post_init_def OpenRequest_post_init_def
  DumpRequest_post_init_def ClusterRequest_post_init_def DescribeRequest_post_init_def
  AssignRequest_init_def request_post_init_def

lemma validate_uint64_PInt [simp]: "0 \<le> i \<Longrightarrow> i < 2 ^ 64 \<Longrightarrow> validate_uint64 (PInt i) = Inr i"
  by (simp add: validate_uint64_def)

lemma validate_uint32_PInt [simp]: "0 \<le> i \<Longrightarrow> i < 2 ^ 32 \<Longrightarrow> validate_uint32 (PInt i) = Inr i"
  by (simp add: validate_uint32_def)

lemma require_simps [simp]:
  "require_schema sc allowed = Inr u \<longleftrightarrow> sc \<in> set allowed"
  "require_length data n = Inr u \<longleftrightarrow> length data = n"
  "require_consumed data n = Inr u \<longleftrightarrow> n = length data"
  by (auto simp: require_defs bind_inv)

lemma decode_uint64_word [simp]:
  "0 \<le> i \<Longrightarrow> i < 2 ^ 64 \<Longrightarrow> decode_uint64 (le_bytes 8 i) = Inr i"
  using decode_uint64_le_bytes [of i "[]"] by simp

lemma decode_uint32_word [simp]:
  "0 \<le> i \<Longrightarrow> i < 2 ^ 32 \<Longrightarrow> decode_uint32 (le_bytes 4 i) = Inr i"
  using decode_uint32_le_bytes [of i "[]"] by simp

lemma WordRequest_decode_encode:
  assumes "encode_uint64 v = Inr bs" and "request_check (cls v) = Inr ()"
  shows "WordRequest_decode_body cls bs 0 = Inr (cls v)"
  using assms by (auto simp: WordRequest_decode_body_def encode_uint64_eq_Inr require_defs request_post_init_def)

lemma id_pair_eq_Inr:
  "id_pair a b = Inr bs \<longleftrightarrow>
     (\<exists>i j. a = PInt i \<and> b = PInt j \<and> 0 \<le> i \<and> i < 2 ^ 32 \<and> 0 \<le> j \<and> j < 2 ^ 32
        \<and> bs = le_bytes 4 i @ le_bytes 4 j)"
  by (auto simp: id_pair_def bind_inv encode_uint32_eq_Inr)

lemma word_text_eq_Inr:
  assumes "word_text a s m = Inr bs"
  obtains i t u where "a = PInt i" "s = PStr t" "0 \<le> i" "i < 2 ^ 64"
    "encode_text (PStr t) (Some m) = Inr u" "bs = le_bytes 8 i @ u"
  using assms unfolding word_text_def
  by (auto simp: bindE_eq_Inr encode_uint64_eq_Inr) (auto simp: encode_text_eq_Inr)

lemma decode_text_field:
  "encode_text (PStr t) (Some m) = Inr u \<Longrightarrow> decode_text kind errors m (u @ rest) = Inr (t, length u)"
  using decode_text_encoded [of "PStr t" m u kind errors rest] by simp

subsection \<open>Statement requests\<close>

lemma encode_value_param_image:
  assumes "encode_value iso_ok v None = Inr (bs, t)"
  shows "encode_value iso_ok (param_image v) None = Inr (bs, t)"
  using assms
  by (cases v) (auto simp: encode_value_def param_image_def wire_image_def infer_value_type_def
      encode_value_as_def encode_value_blob_eq_Inr py_bytes_def is_byteslike_def bind_inv
      split: if_splits option.splits)

lemma encode_param_values_image:
  "encode_param_values iso_ok ps = Inr r \<Longrightarrow> encode_param_values iso_ok (map param_image ps) = Inr r"
proof (induction ps arbitrary: r)
  case (Cons p ps)
  then obtain b t r' where e: "encode_value iso_ok p None = Inr (b, t)"
    and r': "encode_param_values iso_ok ps = Inr r'"
    by (auto simp: bindE_eq_Inr split: if_splits)
  show ?case using Cons.prems by (simp add: e encode_value_param_image [OF e] r' Cons.IH [OF r'] split: if_splits)
qed simp

lemma encode_params_tuple_image:
  assumes "encode_params_tuple iso_ok ps sc off h = Inr bs"
  shows "encode_params_tuple iso_ok (map param_image ps) sc off h = Inr bs"
proof (cases "ps = []")
  case False
  then obtain r where r: "encode_param_values iso_ok ps = Inr r"
    using assms by (auto simp: encode_params_tuple_def bindE_eq_Inr split: if_splits)
  show ?thesis
    using assms False by (simp add: encode_params_tuple_def r encode_param_values_image [OF r] split: if_splits)
qed (use assms in simp)

lemma params_get_schema_image [simp]: "params_get_schema (params_image r) = params_get_schema r"
  by (simp add: params_image_def params_get_schema_def)

lemma ParamsRequest_encode_image:
  assumes "ParamsRequest_encode_body iso_ok prefix r = Inr bs"
  shows "ParamsRequest_encode_body iso_ok prefix (params_image r) = Inr bs"
proof -
  obtain p tuple where p: "prefix = Inr p" "bs = p @ tuple"
    and t: "encode_params_tuple iso_ok (params r) (params_get_schema r) (length p)
      (decoded_empty_header r = Some True) = Inr tuple"
    using assms by (auto simp: ParamsRequest_encode_body_def bindE_eq_Inr)
  show ?thesis
    using encode_params_tuple_image [OF t] by (simp add: ParamsRequest_encode_body_def p)
      (simp add: params_image_def)
qed

lemma encode_params_tuple_counts:
  assumes "encode_params_tuple iso_ok ps sc off h = Inr bs"
  shows "(sc = 0 \<or> sc = 1) \<and> length ps \<le> MAX_PARAM_COUNT \<and> (sc = 0 \<longrightarrow> length ps \<le> 255)"
  using assms by (cases "ps = []") (auto simp: encode_params_tuple_def bindE_eq_Inr not_less split: if_splits)

lemma ParamsRequest_hints_image:
  assumes "ParamsRequest_encode_body iso_ok prefix r = Inr bs" and "validate_params_hints r = Inr ()"
  shows "validate_params_hints (params_image r) = Inr ()"
proof -
  obtain off tuple where t: "encode_params_tuple iso_ok (params r) (params_get_schema r) off
      (decoded_empty_header r = Some True) = Inr tuple"
    using assms(1) by (auto simp: ParamsRequest_encode_body_def bindE_eq_Inr)
  show ?thesis
    using encode_params_tuple_counts [OF t] assms(2)
    by (auto simp: validate_params_hints_def validate_decoded_schema_def bind_inv
        validate_decoded_empty_header_def params_image_def raise_if_def split: if_splits option.splits)
qed

lemma decode_params_tuple_image:
  assumes "encode_params_tuple iso_ok ps sc off h = Inr bs" and "off mod 8 = 0" and "ps \<noteq> [] \<longrightarrow> \<not> h"
  shows "decode_params_tuple kind None sc off bs = Inr (map param_image ps, length bs)
    \<and> (ps = [] \<and> 0 < length bs \<longleftrightarrow> h)"
proof (cases "ps = []")
  case True
  then have sc: "sc = 0 \<or> sc = 1" and bs: "bs = (if h then replicate 8 0 else [])"
    using assms(1) by (auto simp: encode_params_tuple_def split: if_splits)
  show ?thesis
  proof (cases h)
    case True
    have "pad_to_word (off + 1) = 7" "pad_to_word (off + 4) = 4"
      unfolding pad_to_word_add [OF assms(2)] by (simp_all add: pad_to_word_def)
    then show ?thesis using sc bs True \<open>ps = []\<close> by (auto simp: decode_params_tuple_def)
  qed (use sc bs True in \<open>simp add: decode_params_tuple_def\<close>)
next
  case False
  then show ?thesis
    using decode_encode_params_tuple [OF assms(1) False, of kind "[]"] assms(3) by simp
qed

lemma ParamsRequest_decode_encode:
  assumes body: "ParamsRequest_encode_body iso_ok (Inr prefix) r = Inr bs"
    and prefix: "\<And>rest. decode_prefix (prefix @ rest) = Inr (args, length prefix)"
      "length prefix mod 8 = 0"
    and hints: "validate_params_hints r = Inr ()"
  shows "ParamsRequest_decode_body decode_prefix cls bs (params_get_schema r)
    = request_post_init (cls args (map param_image (params r)) (Some (params_get_schema r))
        (Some (decoded_empty_header r = Some True)))"
proof -
  obtain tuple where t: "encode_params_tuple iso_ok (params r) (params_get_schema r) (length prefix)
      (decoded_empty_header r = Some True) = Inr tuple" and bs: "bs = prefix @ tuple"
    using body by (auto simp: ParamsRequest_encode_body_def bindE_eq_Inr)
  have "params r \<noteq> [] \<longrightarrow> decoded_empty_header r \<noteq> Some True"
    using hints by (auto simp: validate_params_hints_def validate_decoded_empty_header_def bind_inv)
  note d = decode_params_tuple_image [OF t prefix(2) this, of IsView]
  show ?thesis
    using encode_params_tuple_counts [OF t] d
    by (auto simp: ParamsRequest_decode_body_def require_defs bs prefix(1))
qed

lemma prepared_prefix:
  assumes "PreparedStatementRequest_encode_prefix r = Inr p"
  shows "PreparedStatementRequest_decode_prefix (p @ rest) = Inr ((db_id r, stmt_id r), length p)"
    and "length p mod 8 = 0"
  using assms
  by (auto simp: PreparedStatementRequest_encode_prefix_def PreparedStatementRequest_decode_prefix_def
      id_pair_eq_Inr)

lemma sql_prefix:
  assumes "SqlTextRequest_encode_prefix r = Inr p"
  shows "SqlTextRequest_decode_prefix (p @ rest) = Inr ((sql_db_id r, sql r), length p)"
    and "length p mod 8 = 0"
proof -
  obtain i t u where w: "sql_db_id r = PInt i" "sql r = PStr t" "0 \<le> i" "i < 2 ^ 64"
    "encode_text (PStr t) (Some MAX_TEXT_VALUE_SIZE) = Inr u" "p = le_bytes 8 i @ u"
    using assms unfolding SqlTextRequest_encode_prefix_def by (rule word_text_eq_Inr)
  show "SqlTextRequest_decode_prefix (p @ rest) = Inr ((sql_db_id r, sql r), length p)"
    using w decode_text_field [OF w(5)] by (simp add: SqlTextRequest_decode_prefix_def)
  show "length p mod 8 = 0" using w encode_text_length [OF w(5)] by simp
qed

lemma prepared_roundtrip:
  assumes "ParamsRequest_encode_body iso_ok (PreparedStatementRequest_encode_prefix r) r = Inr bs"
    and "PreparedStatementRequest_post_init r = Inr ()"
  shows "ParamsRequest_decode_body PreparedStatementRequest_decode_prefix
      (\<lambda>args ps ds deh. cls (prepared_fields args ps ds deh)) bs (params_get_schema r)
    = request_post_init (cls (params_image r))"
proof -
  obtain p where p: "PreparedStatementRequest_encode_prefix r = Inr p"
    using assms(1) by (auto simp: ParamsRequest_encode_body_def bindE_eq_Inr)
  have "validate_params_hints r = Inr ()"
    using assms(2) by (auto simp: PreparedStatementRequest_post_init_def bindE_eq_Inr)
  note d = ParamsRequest_decode_encode
    [where decode_prefix = PreparedStatementRequest_decode_prefix and args = "(db_id r, stmt_id r)",
      OF assms(1) [unfolded p] prepared_prefix [OF p] this]
  show ?thesis unfolding d by (cases r) (simp add: prepared_fields_def params_image_def)
qed

lemma sql_roundtrip:
  assumes "ParamsRequest_encode_body iso_ok (SqlTextRequest_encode_prefix r) r = Inr bs"
    and "SqlTextRequest_post_init r = Inr ()"
  shows "ParamsRequest_decode_body SqlTextRequest_decode_prefix
      (\<lambda>args ps ds deh. cls (sql_fields args ps ds deh)) bs (params_get_schema r)
    = request_post_init (cls (params_image r))"
proof -
  obtain p where p: "SqlTextRequest_encode_prefix r = Inr p"
    using assms(1) by (auto simp: ParamsRequest_encode_body_def bindE_eq_Inr)
  have "validate_params_hints r = Inr ()"
    using assms(2) by (auto simp: SqlTextRequest_post_init_def bindE_eq_Inr)
  note d = ParamsRequest_decode_encode
    [where decode_prefix = SqlTextRequest_decode_prefix and args = "(sql_db_id r, sql r)",
      OF assms(1) [unfolded p] sql_prefix [OF p] this]
  show ?thesis unfolding d by (cases r) (simp add: sql_fields_def params_image_def)
qed

lemma params_image_fields [simp]:
  "db_id (params_image r) = db_id r" "stmt_id (params_image r) = stmt_id r"
  "sql_db_id (params_image s) = sql_db_id s" "sql (params_image s) = sql s"
  by (simp_all add: params_image_def)

lemma prepared_check_image:
  assumes "ParamsRequest_encode_body iso_ok p r = Inr bs" and "PreparedStatementRequest_post_init r = Inr ()"
  shows "PreparedStatementRequest_post_init (params_image r) = Inr ()"
proof -
  have "validate_params_hints (params_image r) = Inr ()"
    using assms by (intro ParamsRequest_hints_image) (auto simp: PreparedStatementRequest_post_init_def bindE_eq_Inr)
  then show ?thesis using assms(2) by (auto simp: PreparedStatementRequest_post_init_def bindE_eq_Inr)
qed

lemma sql_check_image:
  assumes "ParamsRequest_encode_body iso_ok p r = Inr bs" and "SqlTextRequest_post_init r = Inr ()"
  shows "SqlTextRequest_post_init (params_image r) = Inr ()"
proof -
  have "validate_params_hints (params_image r) = Inr ()"
    using assms by (intro ParamsRequest_hints_image) (auto simp: SqlTextRequest_post_init_def bindE_eq_Inr)
  then show ?thesis using assms(2) by (auto simp: SqlTextRequest_post_init_def bindE_eq_Inr)
qed

subsection \<open>Text requests\<close>

lemma NodeAddressRequest_decode_encode:
  assumes "word_text n a MAX_ADDRESS_SIZE = Inr bs" and "request_post_init (cls n a) = Inr (cls n a)"
  shows "NodeAddressRequest_decode_body cls bs 0 = Inr (cls n a)"
  using assms(1)
proof (rule word_text_eq_Inr)
  fix i t u
  assume w: "n = PInt i" "a = PStr t" "0 \<le> i" "i < 2 ^ 64"
    "encode_text (PStr t) (Some MAX_ADDRESS_SIZE) = Inr u" "bs = le_bytes 8 i @ u"
  then show ?thesis
    using decode_text_field [OF w(5), of IsBytes Strict "[]"] assms(2)
    by (simp add: NodeAddressRequest_decode_body_def require_defs)
qed

lemma PrepareRequest_decode_encode:
  assumes "word_text n a MAX_TEXT_VALUE_SIZE = Inr bs" and "PrepareRequest_post_init n a sc = Inr ()"
  shows "PrepareRequest_decode_body bs sc = Inr (PrepareRequest n a sc)"
  using assms(1)
proof (rule word_text_eq_Inr)
  fix i t u
  assume w: "n = PInt i" "a = PStr t" "0 \<le> i" "i < 2 ^ 64"
    "encode_text (PStr t) (Some MAX_TEXT_VALUE_SIZE) = Inr u" "bs = le_bytes 8 i @ u"
  then have "sc = 0 \<or> sc = 1" using assms(2) by (auto simp: PrepareRequest_post_init_def bind_inv)
  then show ?thesis
    using w decode_text_field [OF w(5), of IsView Strict "[]"] assms(2)
    by (auto simp: PrepareRequest_decode_body_def require_defs request_post_init_def)
qed

lemma OpenRequest_decode_encode:
  assumes "OpenRequest_encode_body name flags vfs = Inr bs"
  shows "OpenRequest_decode_body bs 0 = Inr (OpenRequest name flags vfs)"
proof -
  obtain a c where e: "encode_text name (Some MAX_FILENAME_SIZE) = Inr a"
    "encode_text vfs (Some MAX_FILENAME_SIZE) = Inr c"
    and f: "bindE (encode_uint64 flags) (\<lambda>b. Inr (a @ b @ c)) = Inr bs"
    using assms by (auto simp: OpenRequest_encode_body_def bindE_eq_Inr)
  obtain i where i: "flags = PInt i" "0 \<le> i" "i < 2 ^ 64" "bs = a @ le_bytes 8 i @ c"
    using f by (auto simp: bindE_eq_Inr encode_uint64_eq_Inr)
  obtain s t where n: "name = PStr s" "decode_text IsView Strict MAX_FILENAME_SIZE (a @ le_bytes 8 i @ c) = Inr (s, length a)"
    and v: "vfs = PStr t" "decode_text IsView Strict MAX_FILENAME_SIZE (c @ []) = Inr (t, length c)"
    using decode_text_encoded [OF e(1)] decode_text_encoded [OF e(2)] by metis
  show ?thesis
    using i n v by (simp add: OpenRequest_decode_body_def require_defs request_defs)
qed

lemma DumpRequest_decode_encode:
  assumes "encode_text name (Some MAX_DUMP_FILENAME_SIZE) = Inr bs"
  shows "DumpRequest_decode_body bs 0 = Inr (DumpRequest name)"
  using decode_text_encoded [OF assms, of IsBytes Strict "[]"]
  by (auto simp: DumpRequest_decode_body_def require_defs request_defs)

lemma AssignRequest_decode_encode:
  assumes "AssignRequest_encode_body n ro = Inr bs"
  shows "AssignRequest_decode_body bs 0 = Inr (AssignRequest n ro False)"
proof -
  obtain i r where i: "n = PInt i" "0 \<le> i" "i < 2 ^ 64" "ro = Some r"
    and bs: "bs = le_bytes 8 i @ le_bytes 8 (node_role_code r)"
    using assms by (auto simp: AssignRequest_encode_body_def bindE_eq_Inr encode_uint64_eq_Inr
        split: option.splits)
  have "node_role_code r < 2 ^ 64" using node_role_code_range [of r] by simp
  then show ?thesis
    using i node_role_code_range [of r]
    by (simp add: bs AssignRequest_decode_body_def require_defs request_defs)
qed

lemma request_body_roundtrip:
  assumes "request_check r = Inr ()" and "request_encode_body iso_ok r = Inr body" and "strict_request r"
  shows "request_decode_body (request_MSG_TYPE r) body (request_get_schema r) = Inr (request_image r)
    \<and> request_check (request_image r) = Inr ()"
proof (cases r)
  case (ExecRequest q)
  then show ?thesis
    using assms prepared_roundtrip [of iso_ok q body ExecRequest] prepared_check_image [of iso_ok _ q body]
    by (simp add: request_post_init_def)
next
  case (QueryRequest q)
  then show ?thesis
    using assms prepared_roundtrip [of iso_ok q body QueryRequest] prepared_check_image [of iso_ok _ q body]
    by (simp add: request_post_init_def)
next
  case (ExecSqlRequest q)
  then show ?thesis
    using assms sql_roundtrip [of iso_ok q body ExecSqlRequest] sql_check_image [of iso_ok _ q body]
    by (simp add: request_post_init_def)
next
  case (QuerySqlRequest q)
  then show ?thesis
    using assms sql_roundtrip [of iso_ok q body QuerySqlRequest] sql_check_image [of iso_ok _ q body]
    by (simp add: request_post_init_def)
next
  case (AddRequest n a)
  then show ?thesis using assms by (simp add: NodeAddressRequest_decode_encode request_post_init_def)
next
  case (ConnectRequest n a)
  then show ?thesis using assms by (simp add: NodeAddressRequest_decode_encode request_post_init_def)
next
  case (PrepareRequest db stmt sc)
  then show ?thesis using assms by (simp add: PrepareRequest_decode_encode)
next
  case (OpenRequest name flags vfs)
  then show ?thesis using assms by (simp add: OpenRequest_decode_encode)
next
  case (DumpRequest name)
  then show ?thesis using assms by (simp add: DumpRequest_decode_encode)
next
  case (AssignRequest n ro legacy)
  then show ?thesis
    using assms AssignRequest_decode_encode [of n ro body]
    by (auto simp: AssignRequest_encode_body_def AssignRequest_init_def bindE_eq_Inr split: option.splits)
next
  case (FinalizeRequest db stmt)
  then show ?thesis
    using assms by (auto simp: FinalizeRequest_decode_body_def require_defs id_pair_eq_Inr request_defs)
next
  case (ClusterRequest f decoded)
  then show ?thesis
    using assms by (auto simp: ClusterRequest_decode_body_def require_defs encode_uint64_eq_Inr request_defs
        raise_if_def split: if_splits)
next
  case (DescribeRequest f decoded)
  then show ?thesis
    using assms by (auto simp: DescribeRequest_decode_body_def require_defs encode_uint64_eq_Inr request_defs
        decode_uint64_def)
next
  case LeaderRequest
  then show ?thesis
    using assms by (auto simp: LeaderRequest_decode_body_def require_defs encode_uint64_eq_Inr request_defs
        decode_uint64_def)
qed (use assms in \<open>auto intro: WordRequest_decode_encode\<close>)

lemma request_encode_image:
  assumes "request_encode_body iso_ok r = Inr body"
  shows "request_encode_body iso_ok (request_image r) = Inr body"
    and "request_get_schema (request_image r) = request_get_schema r"
    and "request_MSG_TYPE (request_image r) = request_MSG_TYPE r"
  using assms
  by (cases r; simp add: ParamsRequest_encode_image PreparedStatementRequest_encode_prefix_def
      SqlTextRequest_encode_prefix_def)+

subsection \<open>Decoding errors\<close>

lemma decode_param_types_length: "decode_param_types raws = Inr ts \<Longrightarrow> length ts = length raws"
  by (induction raws arbitrary: ts) (auto simp: bindE_eq_Inr split: option.splits if_splits)

lemma decode_params_body_bounds:
  assumes "decode_params_body kind c cs off data = Inr (ps, n)"
  shows "length ps \<le> c \<and> c \<le> MAX_PARAM_COUNT"
proof -
  obtain ts k where c: "c \<le> MAX_PARAM_COUNT" "k \<le> length data"
    and ts: "decode_param_types (take c (drop cs data)) = Inr ts"
    and d: "decode_each (decode_value kind Strict) ts data k = Inr (ps, n)"
    using assms by (auto simp: decode_params_body_def Let_def bindE_eq_Inr not_less split: if_splits)
  show ?thesis
    using value_reader.decode_each_consumed [OF d c(2)] decode_param_types_length [OF ts] c(1) by simp
qed

lemma decode_params_tuple_counts:
  assumes "decode_params_tuple kind None sc off data = Inr (ps, n)"
  shows "(sc = 0 \<or> sc = 1) \<and> length ps \<le> MAX_PARAM_COUNT \<and> (sc = 0 \<longrightarrow> length ps \<le> 255)"
proof (cases "ps = []")
  case True
  then show ?thesis using assms by (auto simp: decode_params_tuple_def split: if_splits)
next
  case False
  then obtain c cs where "decode_params_body kind c cs off data = Inr (ps, n)"
    "sc = 1 \<or> sc = 0 \<and> c = unat (data ! 0)"
    using assms by (auto simp: decode_params_tuple_def Let_def split: if_splits)
  moreover have "unat (data ! 0) \<le> 255" using unat_byte_less [of "data ! 0"] by linarith
  ultimately show ?thesis
    using decode_params_body_bounds [of kind c cs off data ps n] by auto
qed

lemma decode_params_tuple_error:
  assumes "decode_params_tuple kind None sc off data = Inl e" and "\<not> huge_int sc"
  shows "is_DecodeError e"
proof -
  have small: "\<not> huge_int (int (le_nat (take 4 data)))" "\<not> huge_int (int (unat (data ! 0)))"
    using le_nat_less [of "take 4 data"] power_increasing [of "length (take 4 data)" 4 "256 :: nat"]
      uint_lt2p [of "data ! 0"] by (intro not_huge_int; simp)+
  have "is_DecodeError e'" if "decode_params_body kind c cs off data = Inl e'" "\<not> huge_int (int c)" for c cs e'
    using that
    by (auto simp: shown_error_eq decode_params_body_def Let_def bindE_eq_Inl dest: decode_param_types_error
        strict_value.decode_each_error split: if_splits)
  then show ?thesis
    using assms small by (auto simp: shown_error_eq decode_params_tuple_def Let_def split: if_splits option.splits)
qed

lemma decode_uint_error:
  "decode_uint64 data = Inl e \<Longrightarrow> is_DecodeError e" "decode_uint32 data = Inl e \<Longrightarrow> is_DecodeError e"
  by (auto simp: decode_uint64_def decode_uint32_def split: if_splits)

lemma check_decoded [simp]:
  "decode_uint64 data = Inr i \<Longrightarrow> validate_uint64 (PInt i) = Inr i"
  "decode_uint32 data = Inr i \<Longrightarrow> validate_uint32 (PInt i) = Inr i"
  using decode_uint64_range [of data i] decode_uint32_range [of data i] by simp_all

lemma require_error:
  "require_schema sc allowed = Inl e \<Longrightarrow> \<not> huge_int sc \<Longrightarrow> is_DecodeError e" "require_length data n = Inl e \<Longrightarrow> is_DecodeError e"
  "require_consumed data n = Inl e \<Longrightarrow> is_DecodeError e"
  by (auto simp: require_defs raise_if_eq_Inl shown_error_eq)

lemmas decode_errors = require_error decode_uint_error decode_text_strict_error decode_params_tuple_error

lemma ParamsRequest_decode_error:
  assumes "ParamsRequest_decode_body decode_prefix cls data sc = Inl e" and "\<not> huge_int sc"
    and "\<And>data e. decode_prefix data = Inl e \<Longrightarrow> is_DecodeError e"
    and "\<And>data args n ps h. decode_prefix data = Inr (args, n) \<Longrightarrow> sc = 0 \<or> sc = 1 \<Longrightarrow>
      length ps \<le> MAX_PARAM_COUNT \<Longrightarrow> sc = 0 \<longrightarrow> length ps \<le> 255 \<Longrightarrow> ps \<noteq> [] \<longrightarrow> h \<noteq> Some True \<Longrightarrow>
      request_check (cls args ps (Some sc) h) = Inr ()"
  shows "is_DecodeError e"
proof -
  have built: "request_check (cls args ps (Some sc) (Some (ps = [] \<and> 0 < n))) = Inr ()"
    if "decode_prefix data = Inr (args, off)" "decode_params_tuple IsView None sc off (drop off data) = Inr (ps, n)"
    for args off ps n
    using decode_params_tuple_counts [OF that(2)] by (intro assms(4) [OF that(1)]) auto
  show ?thesis
    using assms(1,2)
    by (auto simp: ParamsRequest_decode_body_def request_post_init_def bindE_eq_Inl built
        simp del: require_simps dest: assms(3) decode_errors)
qed

lemma hints_ok:
  "sc = 0 \<or> sc = 1 \<Longrightarrow> length ps \<le> MAX_PARAM_COUNT \<Longrightarrow> sc = 0 \<longrightarrow> length ps \<le> 255 \<Longrightarrow>
   ps \<noteq> [] \<longrightarrow> h \<noteq> Some True \<Longrightarrow> params r = ps \<Longrightarrow> decoded_schema r = Some sc \<Longrightarrow>
   decoded_empty_header r = h \<Longrightarrow> validate_params_hints r = Inr ()"
  by (auto simp: validate_params_hints_def validate_decoded_schema_def validate_decoded_empty_header_def
      raise_if_def)

lemma prepared_decode_error:
  assumes "ParamsRequest_decode_body PreparedStatementRequest_decode_prefix
      (\<lambda>args ps ds deh. cls (prepared_fields args ps ds deh)) data sc = Inl e" and "\<not> huge_int sc"
    and "\<And>r. request_check (cls r) = PreparedStatementRequest_post_init r"
  shows "is_DecodeError e"
  using assms(1,2)
proof (rule ParamsRequest_decode_error)
  fix view e'
  assume "PreparedStatementRequest_decode_prefix view = Inl e'"
  then show "is_DecodeError e'"
    by (auto simp: PreparedStatementRequest_decode_prefix_def bindE_eq_Inl dest: decode_errors)
next
  fix view args n h and ps :: "pyval list"
  assume p: "PreparedStatementRequest_decode_prefix view = Inr (args, n)" "sc = 0 \<or> sc = 1"
    "length ps \<le> MAX_PARAM_COUNT" "sc = 0 \<longrightarrow> length ps \<le> 255" "ps \<noteq> [] \<longrightarrow> h \<noteq> Some True"
  have "validate_params_hints (prepared_fields args ps (Some sc) h) = Inr ()"
    using p(2-) by (rule hints_ok) (simp_all add: prepared_fields_def)
  then show "request_check (cls (prepared_fields args ps (Some sc) h)) = Inr ()"
    using p(1) unfolding assms(3) PreparedStatementRequest_post_init_def
    by (auto simp: PreparedStatementRequest_decode_prefix_def bindE_eq_Inr prepared_fields_def check_uint32_def)
qed

lemma sql_decode_error:
  assumes "ParamsRequest_decode_body SqlTextRequest_decode_prefix
      (\<lambda>args ps ds deh. cls (sql_fields args ps ds deh)) data sc = Inl e" and "\<not> huge_int sc"
    and "\<And>r. request_check (cls r) = SqlTextRequest_post_init r"
  shows "is_DecodeError e"
  using assms(1,2)
proof (rule ParamsRequest_decode_error)
  fix view e'
  assume "SqlTextRequest_decode_prefix view = Inl e'"
  then show "is_DecodeError e'"
    by (auto simp: SqlTextRequest_decode_prefix_def bindE_eq_Inl dest: decode_errors)
next
  fix view args n h and ps :: "pyval list"
  assume p: "SqlTextRequest_decode_prefix view = Inr (args, n)" "sc = 0 \<or> sc = 1"
    "length ps \<le> MAX_PARAM_COUNT" "sc = 0 \<longrightarrow> length ps \<le> 255" "ps \<noteq> [] \<longrightarrow> h \<noteq> Some True"
  have "validate_params_hints (sql_fields args ps (Some sc) h) = Inr ()"
    using p(2-) by (rule hints_ok) (simp_all add: sql_fields_def)
  then show "request_check (cls (sql_fields args ps (Some sc) h)) = Inr ()"
    using p(1) unfolding assms(3) SqlTextRequest_post_init_def
    by (auto simp: SqlTextRequest_decode_prefix_def bindE_eq_Inr sql_fields_def check_uint64_def require_str_def)
qed

lemma request_decode_error:
  assumes "request_decode_body rt data sc = Inl e" and "\<not> huge_int sc"
  shows "is_DecodeError e"
proof (cases rt)
  case RT_EXEC
  then show ?thesis using assms by (simp add: prepared_decode_error)
next
  case RT_QUERY
  then show ?thesis using assms by (simp add: prepared_decode_error)
next
  case RT_EXEC_SQL
  then show ?thesis using assms by (simp add: sql_decode_error)
next
  case RT_QUERY_SQL
  then show ?thesis using assms by (simp add: sql_decode_error)
qed (use assms in \<open>auto simp: LeaderRequest_decode_body_def WordRequest_decode_body_def
      OpenRequest_decode_body_def PrepareRequest_decode_body_def FinalizeRequest_decode_body_def
      NodeAddressRequest_decode_body_def AssignRequest_decode_body_def DumpRequest_decode_body_def
      ClusterRequest_decode_body_def DescribeRequest_decode_body_def request_defs bindE_eq_Inl
      raise_if_eq_Inl dest: decode_errors split: if_splits option.splits\<close>)

lemma request_decode_huge:
  assumes "huge_int sc"
  shows "request_decode_body rt data sc = Inl ValueError"
proof -
  have "require_schema sc [0] = Inl ValueError" "require_schema sc [0, 1] = Inl ValueError"
    using assms huge_int_neq [OF assms] by (simp_all add: require_schema_def shown_error_eq raise_if_def)
  then show ?thesis
    by (cases rt) (simp_all add: ParamsRequest_decode_body_def LeaderRequest_decode_body_def
        WordRequest_decode_body_def OpenRequest_decode_body_def PrepareRequest_decode_body_def
        FinalizeRequest_decode_body_def NodeAddressRequest_decode_body_def AssignRequest_decode_body_def
        DumpRequest_decode_body_def ClusterRequest_decode_body_def DescribeRequest_decode_body_def)
qed

section \<open>Properties\<close>

text \<open>
  C13 (request_roundtrip): every request that can be constructed and encoded (except a
  \<^verbatim>\<open>DescribeRequest\<close> of a format other than 0) is decoded by its class from the body and
  schema byte it was sent with; the decoder returns the request up to its decoding hints and
  the wire images of its parameters, as a valid object.
\<close>

theorem request_roundtrip:
  assumes "request_post_init r = Inr r" and "request_encode iso_ok r = Inr bs" and "strict_request r"
  shows "request_decode_body (request_MSG_TYPE r) (drop HEADER_SIZE bs) (request_get_schema r)
      = Inr (request_image r)
    \<and> request_post_init (request_image r) = Inr (request_image r)"
proof -
  obtain body w where b: "request_encode_body iso_ok r = Inr body"
    "bs = header_bytes w (request_type_code (request_MSG_TYPE r)) (request_get_schema r) @ body"
    using assms(2) by (auto simp: request_encode_def message_encode_eq_Inr)
  have "request_check r = Inr ()" using assms(1) by (auto simp: request_post_init_def bindE_eq_Inr)
  from request_body_roundtrip [OF this b(1) assms(3)] show ?thesis
    by (simp add: b(2) request_post_init_def)
qed

theorem request_roundtrip_witness:
  "request_decode_body RT_EXEC [1, 0, 0, 0, 2, 0, 0, 0, 1, 1, 0, 0, 0, 0, 0, 0, 7, 0, 0, 0, 0, 0, 0, 0] 0
     = Inr (ExecRequest (prepared_fields (PInt 1, PInt 2) [PInt 7] (Some 0) (Some False)))"
proof -
  let ?r = "ExecRequest (prepared_fields (PInt 1, PInt 2) [PInt 7] None None)"
  have c: "request_check ?r = Inr ()" by code_simp
  then have p: "request_post_init ?r = Inr ?r" by (simp add: request_post_init_def)
  have e: "request_encode (\<lambda>_. True) ?r
      = Inr [3, 0, 0, 0, 5, 0, 0, 0, 1, 0, 0, 0, 2, 0, 0, 0, 1, 1, 0, 0, 0, 0, 0, 0, 7, 0, 0, 0, 0, 0, 0, 0]"
    by code_simp
  from request_roundtrip [OF p e] show ?thesis
    by (simp add: params_image_def prepared_fields_def params_get_schema_def param_image_def
        wire_image_def infer_value_type_def)
qed

text \<open>
  The decoding hints do their work.  A request decoded from a frame
  this package wrote encodes to the identical frame again, whichever of the two tuple schemas
  and of the two empty-parameter shapes the frame used.
\<close>

theorem request_reencode:
  assumes "request_post_init r = Inr r" and "request_encode iso_ok r = Inr bs"
    and "request_decode_body (request_MSG_TYPE r) (drop HEADER_SIZE bs) (request_get_schema r) = Inr r'"
    and "strict_request r"
  shows "request_encode iso_ok r' = Inr bs"
proof -
  obtain body where b: "request_encode_body iso_ok r = Inr body" "drop 8 bs = body"
    using assms(2) by (auto simp: request_encode_def message_encode_eq_Inr)
  have "request_check r = Inr ()" using assms(1) by (auto simp: request_post_init_def bindE_eq_Inr)
  then have "r' = request_image r" using request_body_roundtrip [OF _ b(1) assms(4)] assms(3) b(2) by simp
  then show ?thesis
    using assms(2) request_encode_image [OF b(1)] b(1) by (simp add: request_encode_def)
qed

theorem request_reencode_witness:
  "request_encode (\<lambda>_. True) (QueryRequest (prepared_fields (PInt 1, PInt 2) [] (Some 1) (Some True)))
     = Inr [2, 0, 0, 0, 6, 1, 0, 0, 1, 0, 0, 0, 2, 0, 0, 0, 0, 0, 0, 0, 0, 0, 0, 0]"
proof -
  let ?r = "QueryRequest (prepared_fields (PInt 1, PInt 2) [] (Some 1) (Some True))"
  let ?bs = "[2, 0, 0, 0, 6, 1, 0, 0, 1, 0, 0, 0, 2, 0, 0, 0, 0, 0, 0, 0, 0, 0, 0, 0]"
  have "request_check ?r = Inr ()" by code_simp
  then have p: "request_post_init ?r = Inr ?r" by (simp add: request_post_init_def)
  have e: "request_encode (\<lambda>_. True) ?r = Inr ?bs" by code_simp
  have d: "request_decode_body (request_MSG_TYPE ?r) (drop HEADER_SIZE ?bs) (request_get_schema ?r) = Inr ?r"
    by code_simp
  show ?thesis using request_reencode [OF p e d] by simp
qed

text \<open>
  C31 (request_decode_safe): decoding a request body of any type from any bytes with any
  schema raises nothing but \<^verbatim>\<open>DecodeError\<close>; in particular the constructor a decoder calls
  last never refuses what was decoded.  The exception is a schema argument of more than 4300
  digits, which no header can carry: the error message cannot be built.
\<close>

theorem request_decode_safe:
  "case request_decode_body rt data sc of
     Inl e \<Rightarrow> if huge_int sc then e = ValueError else is_DecodeError e
   | Inr r \<Rightarrow> \<not> huge_int sc"
  using request_decode_error [of rt data sc] request_decode_huge [of sc rt data]
  by (auto split: sum.splits)

end
