(* ===== verification/Rows_Response.thy ===== *)
theory Rows_Response
  imports Requests
begin

text \<open>
  \<^verbatim>\<open>RowsResponse\<close> of \<^verbatim>\<open>src/dqlitewire/messages/responses.py\<close>: the column names, then one
  type header and one value tuple per row, then the DONE or PART marker.  Lists are values
  here, so the copies \<^verbatim>\<open>__post_init__\<close> makes and the alias \<^verbatim>\<open>decode_body\<close> breaks leave no
  trace.  \<open>rows_image\<close> is the response a reader reconstructs.
\<close>

section \<open>Definitions\<close>

record rows_response =
  column_names :: "pystr list"
  column_types :: "value_type list"
  row_types :: "value_type list list"
  rows :: "pyval list list"
  has_more :: bool

subsection \<open>Encoding\<close>

fun infer_types :: "pyval list \<Rightarrow> value_type list result" where
  "infer_types [] = Inr []"
| "infer_types (v # vs) =
     bindE (infer_value_type v) (\<lambda>t. bindE (infer_types vs) (\<lambda>ts. Inr (t # ts)))"

text \<open>The loop that overrides the type of a \<^verbatim>\<open>None\<close> cell to NULL, in place.\<close>

fun null_override :: "pyval list \<Rightarrow> value_type list \<Rightarrow> value_type list" where
  "null_override (v # vs) (t # ts) = (if v = PNone then NULL else t) # null_override vs ts"
| "null_override vs ts = ts"

definition get_row_types :: "rows_response \<Rightarrow> nat \<Rightarrow> pyval list \<Rightarrow> value_type list result" where
  "get_row_types r row_idx row =
     bindE (if row_types r \<noteq> [] \<and> row_idx < length (row_types r) then Inr (row_types r ! row_idx)
            else if column_types r \<noteq> [] then Inr (column_types r)
            else infer_types row) (\<lambda>types.
     Inr (null_override row types))"

text \<open>The loop that checks the shape of every row before anything is encoded.\<close>

fun check_rows :: "nat \<Rightarrow> value_type list list \<Rightarrow> nat \<Rightarrow> pyval list list \<Rightarrow> unit result" where
  "check_rows col_count rts i [] = Inr ()"
| "check_rows col_count rts i (row # rws) =
     (if length row \<noteq> col_count then Inl (EncodeError Mismatch)
      else if rts \<noteq> [] \<and> i < length rts \<and> length (rts ! i) \<noteq> col_count then Inl (EncodeError Mismatch)
      else check_rows col_count rts (Suc i) rws)"

definition encode_names :: "pystr list \<Rightarrow> bytes result" where
  "encode_names names =
     encode_each (text_field MAX_COLUMN_NAME_SIZE) (replicate (length names) ()) names"

fun encode_rows :: "(pystr \<Rightarrow> bool) \<Rightarrow> rows_response \<Rightarrow> nat \<Rightarrow> pyval list list \<Rightarrow> bytes result" where
  "encode_rows iso_ok r i [] = Inr []"
| "encode_rows iso_ok r i (row # rws) =
     bindE (get_row_types r i row) (\<lambda>types.
     bindE (encode_row_header (map value_type_code types)) (\<lambda>hdr.
     bindE (encode_row_values iso_ok row types) (\<lambda>cells.
     bindE (encode_rows iso_ok r (Suc i) rws) (\<lambda>rest. Inr (hdr @ cells @ rest)))))"

definition RowsResponse_encode_body :: "(pystr \<Rightarrow> bool) \<Rightarrow> rows_response \<Rightarrow> bytes result" where
  "RowsResponse_encode_body iso_ok r =
     (let col_count = length (column_names r) in
      if MAX_COLUMN_COUNT < col_count then Inl (EncodeError TooMany)
      else if column_types r \<noteq> [] \<and> length (column_types r) \<noteq> col_count then Inl (EncodeError Mismatch)
      else if row_types r \<noteq> [] \<and> length (row_types r) \<noteq> length (rows r) then Inl (EncodeError Mismatch)
      else if col_count = 0 \<and> rows r \<noteq> [] then Inl (EncodeError Malformed)
      else
        bindE (check_rows col_count (row_types r) 0 (rows r)) (\<lambda>_.
        bindE (encode_uint64 (PInt (int col_count))) (\<lambda>count.
        bindE (encode_names (column_names r)) (\<lambda>names.
        bindE (encode_rows iso_ok r 0 (rows r)) (\<lambda>body.
        bindE (encode_uint64 (PInt (if has_more r then ROW_PART_MARKER else ROW_DONE_MARKER))) (\<lambda>marker.
        Inr (count @ names @ body @ marker)))))))"

subsection \<open>Decoding\<close>

text \<open>The row loop; the accumulators are the three lists of the source.\<close>

function decode_rows ::
  "text_errors \<Rightarrow> int \<Rightarrow> nat \<Rightarrow> bytes \<Rightarrow> nat \<Rightarrow> pyval list list \<Rightarrow> value_type list list
    \<Rightarrow> value_type list \<Rightarrow> (value_type list \<times> value_type list list \<times> pyval list list \<times> bool) result"
where
  "decode_rows errors max_rows column_count view offset rws all_row_types col_types =
     (if offset < length view then
        bindE (decode_row_header (drop offset view) column_count) (\<lambda>(result, consumed).
        case result of
          Marker m \<Rightarrow>
            if offset + consumed \<noteq> length view then Inl (DecodeError Trailing)
            else Inr (col_types, all_row_types, rws, m = PART)
        | Types types \<Rightarrow>
            bindE (decode_row_values IsView errors (drop (offset + consumed) view) types) (\<lambda>(vals, n).
            if max_rows \<le> int (length (rws @ [vals])) then Inl (DecodeError TooMany)
            else
              decode_rows errors max_rows column_count view (offset + consumed + n)
                (rws @ [vals]) (all_row_types @ [types])
                (if col_types = [] then types else col_types)))
      else Inl (DecodeError NoMarker))"
  by pat_completeness auto
termination
  by (relation "measure (\<lambda>(errors, max_rows, column_count, view, offset, rws, _). nat (max_rows - int (length rws)))")
    auto

definition decode_zero_columns :: "bytes \<Rightarrow> nat \<Rightarrow> bool result" where
  "decode_zero_columns view offset =
     (if length view < offset + WORD_SIZE then Inl (DecodeError NoMarker)
      else
        (let marker = take WORD_SIZE (drop offset view) in
         bindE (if marker = ROW_DONE_BYTES then Inr False
                else if marker = ROW_PART_BYTES then Inr True
                else Inl (DecodeError NoMarker)) (\<lambda>more.
         if offset + WORD_SIZE \<noteq> length view then Inl (DecodeError Trailing) else Inr more)))"

definition decode_names :: "nat \<Rightarrow> bytes \<Rightarrow> nat \<Rightarrow> (pystr list \<times> nat) result" where
  "decode_names column_count view offset =
     decode_each (\<lambda>_. decode_text IsView Strict MAX_COLUMN_NAME_SIZE) (replicate column_count ()) view offset"

definition RowsResponse_decode_body ::
  "text_errors \<Rightarrow> int \<Rightarrow> bytes \<Rightarrow> int \<Rightarrow> rows_response result"
where
  "RowsResponse_decode_body errors max_rows data sc =
     (if sc \<noteq> 0 then Inl (shown_error sc (DecodeError BadSchema))
      else
        bindE (decode_uint64 data) (\<lambda>column_count.
        if int MAX_COLUMN_COUNT < column_count then Inl (DecodeError TooMany)
        else
          (let remaining = int (length data) - 8;
               max_columns = max 0 (remaining - int WORD_SIZE) div 8
           in if max_columns < column_count then Inl (DecodeError TooMany)
              else
                bindE (decode_names (nat column_count) data 8) (\<lambda>(names, offset).
                if column_count = 0 then
                  bindE (decode_zero_columns data offset) (\<lambda>more.
                  Inr \<lparr>column_names = names, column_types = [], row_types = [], rows = [], has_more = more\<rparr>)
                else
                  bindE (decode_rows errors max_rows (nat column_count) data offset [] [] [])
                    (\<lambda>(col_types, all_row_types, rws, more).
                  Inr \<lparr>column_names = names, column_types = col_types, row_types = all_row_types,
                        rows = rws, has_more = more\<rparr>)))))"

subsection \<open>What a reader sees of a result set\<close>

text \<open>The types the encoder settles on, row by row, and the response they lead to.\<close>

fun resolved_types :: "rows_response \<Rightarrow> nat \<Rightarrow> pyval list list \<Rightarrow> value_type list list" where
  "resolved_types r i [] = []"
| "resolved_types r i (row # rws) =
     (case get_row_types r i row of Inr ts \<Rightarrow> ts | Inl _ \<Rightarrow> []) # resolved_types r (Suc i) rws"

definition first_or_empty :: "'a list list \<Rightarrow> 'a list" where
  "first_or_empty xss = (case xss of [] \<Rightarrow> [] | xs # _ \<Rightarrow> xs)"

definition rows_image :: "rows_response \<Rightarrow> rows_response" where
  "rows_image r = (let ts = resolved_types r 0 (rows r) in
     \<lparr>column_names = column_names r, column_types = first_or_empty ts, row_types = ts,
      rows = map2 (map2 wire_image) ts (rows r), has_more = has_more r\<rparr>)"

section \<open>Lemmas\<close>

declare decode_rows.simps [simp del]

lemma length_null_override [simp]: "length (null_override vs ts) = length ts"
  by (induction vs ts rule: null_override.induct) simp_all

lemma length_infer_types: "infer_types vs = Inr ts \<Longrightarrow> length ts = length vs"
  by (induction vs arbitrary: ts) (auto simp: bindE_eq_Inr)

lemma length_resolved_types [simp]: "length (resolved_types r i rws) = length rws"
  by (induction rws arbitrary: i) simp_all

lemma check_rows_eq_Inr:
  "check_rows n rts i rws = Inr () \<longleftrightarrow>
     (\<forall>j < length rws. length (rws ! j) = n \<and> (i + j < length rts \<longrightarrow> length (rts ! (i + j)) = n))"
proof (induction rws arbitrary: i)
  case (Cons row rws)
  show ?case by (auto simp: Cons.IH All_less_Suc2)
qed simp

lemma encode_names_length: "encode_names names = Inr bs \<Longrightarrow> 8 * length names \<le> length bs \<and> length bs mod 8 = 0"
proof (induction names arbitrary: bs)
  case (Cons n ns)
  then obtain b bs' where b: "encode_text (PStr n) (Some MAX_COLUMN_NAME_SIZE) = Inr b"
    and r: "encode_names ns = Inr bs'" and bs: "bs = b @ bs'"
    by (auto simp: encode_names_def text_field_def bindE_eq_Inr)
  show ?case
    using encode_text_length [OF b] Cons.IH [OF r]
    by (simp add: bs mod_add_eq [of "length b" 8 _, symmetric])
qed (simp add: encode_names_def)

lemma decode_encode_names:
  assumes "encode_names names = Inr bs"
  shows "decode_names (length names) (pre @ bs @ rest) (length pre) = Inr (names, length pre + length bs)"
proof -
  have "map2 (\<lambda>_ s. s) (replicate (length names) ()) names = names"
    by (induction names) simp_all
  then show ?thesis
    using text_field.decode_each_encode_each [OF assms [unfolded encode_names_def], of "pre @ bs @ rest" pre rest IsView Strict]
    by (simp add: decode_names_def)
qed

lemma marker_bytes:
  "encode_uint64 (PInt (if part then ROW_PART_MARKER else ROW_DONE_MARKER))
     = Inr (if part then ROW_PART_BYTES else ROW_DONE_BYTES)"
proof -
  have m: "le_bytes 8 ROW_PART_MARKER = ROW_PART_BYTES" "le_bytes 8 ROW_DONE_MARKER = ROW_DONE_BYTES"
    using le_bytes_le_nat [of ROW_PART_BYTES] le_bytes_le_nat [of ROW_DONE_BYTES]
    by (simp_all add: ROW_PART_MARKER_def ROW_DONE_MARKER_def ROW_PART_BYTES_def ROW_DONE_BYTES_def)
  have r: "0 \<le> ROW_PART_MARKER \<and> ROW_PART_MARKER < 2 ^ 64" "0 \<le> ROW_DONE_MARKER \<and> ROW_DONE_MARKER < 2 ^ 64"
    by (simp_all add: row_markers)
  show ?thesis
    using m r by (simp add: encode_uint64_def validate_uint64_def)
qed

lemma decode_marker:
  "decode_row_header (if part then ROW_PART_BYTES else ROW_DONE_BYTES) n
     = Inr (Marker (if part then PART else DONE), 8)"
  by (auto simp: decode_row_header_def ROW_PART_BYTES_def ROW_DONE_BYTES_def ROW_DONE_BYTE_def
      ROW_PART_BYTE_def)

lemma length_markers [simp]: "length ROW_PART_BYTES = 8" "length ROW_DONE_BYTES = 8"
  by (simp_all add: ROW_PART_BYTES_def ROW_DONE_BYTES_def)

lemma markers_not_Nil [simp]: "ROW_PART_BYTES \<noteq> []" "ROW_DONE_BYTES \<noteq> []"
  by (simp_all add: ROW_PART_BYTES_def ROW_DONE_BYTES_def)

lemma encode_rows_Cons:
  assumes "encode_rows iso_ok r i (row # rws) = Inr bs"
  obtains types hdr cells rest where "get_row_types r i row = Inr types"
    "encode_row_header (map value_type_code types) = Inr hdr" "encode_row_values iso_ok row types = Inr cells"
    "encode_rows iso_ok r (Suc i) rws = Inr rest" "bs = hdr @ cells @ rest"
  using assms by (auto simp: bindE_eq_Inr)

lemma decode_encode_rows:
  assumes "encode_rows iso_ok r i rws = Inr bs" and "\<forall>row \<in> set rws. length row = n" and "0 < n"
    and "int (length acc + length rws) < max_rows"
    and "data = pre @ bs @ (if part then ROW_PART_BYTES else ROW_DONE_BYTES)"
  shows "decode_rows errors max_rows n data (length pre) acc ts ct =
    Inr (if ct = [] then first_or_empty (resolved_types r i rws) else ct,
         ts @ resolved_types r i rws, acc @ map2 (map2 wire_image) (resolved_types r i rws) rws, part)"
  using assms
proof (induction rws arbitrary: i bs acc ts ct pre)
  case Nil
  then show ?case
    by (subst decode_rows.simps) (simp add: decode_marker first_or_empty_def)
next
  case (Cons row rws)
  from Cons.prems(1) obtain types hdr cells rest where
    g: "get_row_types r i row = Inr types" and h: "encode_row_header (map value_type_code types) = Inr hdr"
    and c: "encode_row_values iso_ok row types = Inr cells"
    and e: "encode_rows iso_ok r (Suc i) rws = Inr rest" and bs: "bs = hdr @ cells @ rest"
    by (rule encode_rows_Cons)
  let ?mark = "if part then ROW_PART_BYTES else ROW_DONE_BYTES"
  have data: "data = pre @ hdr @ cells @ rest @ ?mark" using Cons.prems(5) bs by simp
  have len: "length types = n" using c Cons.prems(2) by (simp add: encode_row_values_def split: if_splits)
  then have ne: "types \<noteq> []" using Cons.prems(3) by auto
  have hd: "decode_row_header (drop (length pre) data) n = Inr (Types types, length hdr)"
    using decode_encode_row_header [OF h ne, of "cells @ rest @ ?mark"] by (simp add: data len)
  have vals: "decode_row_values IsView errors (drop (length pre + length hdr) data) types
      = Inr (map2 wire_image types row, length cells)"
    using decode_encode_row_values [OF c] by (simp add: data)
  have before_end: "length pre < length data" by (simp add: data)
  have "decode_rows errors max_rows n data (length (pre @ hdr @ cells)) (acc @ [map2 wire_image types row])
      (ts @ [types]) (if ct = [] then types else ct)
    = Inr (if (if ct = [] then types else ct) = [] then first_or_empty (resolved_types r (Suc i) rws)
           else (if ct = [] then types else ct),
         (ts @ [types]) @ resolved_types r (Suc i) rws,
         (acc @ [map2 wire_image types row]) @ map2 (map2 wire_image) (resolved_types r (Suc i) rws) rws, part)"
    using Cons.prems(2-4) by (intro Cons.IH [OF e]) (simp_all add: data)
  moreover have "\<not> max_rows \<le> int (length acc + 1)" using Cons.prems(4) by simp
  ultimately show ?case
    using before_end ne by (subst decode_rows.simps)
      (simp add: hd vals g first_or_empty_def add.assoc)
qed

lemma encode_rows_body:
  assumes "RowsResponse_encode_body iso_ok r = Inr bs"
  obtains names body where "length (column_names r) \<le> MAX_COLUMN_COUNT"
    "column_types r = [] \<or> length (column_types r) = length (column_names r)"
    "row_types r = [] \<or> length (row_types r) = length (rows r)"
    "column_names r = [] \<longrightarrow> rows r = []"
    "check_rows (length (column_names r)) (row_types r) 0 (rows r) = Inr ()"
    "encode_names (column_names r) = Inr names" "encode_rows iso_ok r 0 (rows r) = Inr body"
    "bs = le_bytes 8 (int (length (column_names r))) @ names @ body
      @ (if has_more r then ROW_PART_BYTES else ROW_DONE_BYTES)"
  using assms
  by (auto simp: RowsResponse_encode_body_def marker_bytes bindE_eq_Inr encode_uint64_eq_Inr Let_def not_less
      split: if_splits)

lemma decode_encode_rows_response:
  assumes "RowsResponse_encode_body iso_ok r = Inr bs" and "int (length (rows r)) < max_rows"
  shows "RowsResponse_decode_body errors max_rows bs 0 = Inr (rows_image r)"
  using assms(1)
proof (rule encode_rows_body)
  let ?n = "length (column_names r)" and ?mark = "if has_more r then ROW_PART_BYTES else ROW_DONE_BYTES"
  fix names body
  assume max: "?n \<le> MAX_COLUMN_COUNT" and zero: "column_names r = [] \<longrightarrow> rows r = []"
    and chk: "check_rows ?n (row_types r) 0 (rows r) = Inr ()"
    and names: "encode_names (column_names r) = Inr names"
    and body: "encode_rows iso_ok r 0 (rows r) = Inr body"
    and bs: "bs = le_bytes 8 (int ?n) @ names @ body @ ?mark"
  have small: "int ?n < 2 ^ 64" using max by (simp add: MAX_COLUMN_COUNT_def)
  have count: "decode_uint64 bs = Inr (int ?n)" using small by (simp add: bs)
  have cap: "\<not> max 0 (int (length bs) - 8 - 8) div 8 < int ?n"
    using encode_names_length [OF names] by (simp add: bs) presburger
  have dn: "decode_names ?n bs 8 = Inr (column_names r, 8 + length names)"
    using decode_encode_names [OF names, of "le_bytes 8 (int ?n)" "body @ ?mark"] by (simp add: bs)
  show ?thesis
  proof (cases "?n = 0")
    case True
    then have "names = []" "body = []" "rows r = []"
      using names body zero by (auto simp: encode_names_def)
    then have "decode_zero_columns bs 8 = Inr (has_more r)"
      by (auto simp: bs decode_zero_columns_def ROW_PART_BYTES_def ROW_DONE_BYTES_def ROW_DONE_BYTE_def
          ROW_PART_BYTE_def)
    then show ?thesis
      using count cap dn True \<open>rows r = []\<close> \<open>names = []\<close>
      by (simp add: RowsResponse_decode_body_def Let_def rows_image_def first_or_empty_def)
  next
    case False
    have "decode_rows errors max_rows ?n bs (length (le_bytes 8 (int ?n) @ names)) [] [] []
        = Inr (first_or_empty (resolved_types r 0 (rows r)), resolved_types r 0 (rows r),
               map2 (map2 wire_image) (resolved_types r 0 (rows r)) (rows r), has_more r)"
      using chk False assms(2)
      by (subst decode_encode_rows [OF body, where n = ?n and part = "has_more r"])
        (auto simp: check_rows_eq_Inr in_set_conv_nth bs)
    then show ?thesis
      using count cap dn False max
      by (simp add: RowsResponse_decode_body_def Let_def rows_image_def)
  qed
qed

subsection \<open>Re-encoding what was decoded\<close>

lemma encode_cell_image:
  assumes "encode_cell iso_ok t v = Inr bs"
  shows "encode_cell iso_ok t (wire_image t v) = Inr bs"
  using assms
  by (cases v; cases t) (auto simp: encode_cell_def encode_value_def wire_image_def encode_value_as_def
      encode_value_blob_eq_Inr py_bytes_def is_byteslike_def bind_inv split: if_splits option.splits)

lemma encode_cell_null: "encode_cell iso_ok t v = Inr bs \<Longrightarrow> wire_image t v = PNone \<longleftrightarrow> t = NULL"
  by (cases v; cases t) (auto simp: encode_cell_def encode_value_def wire_image_def encode_value_as_def
      encode_value_blob_eq_Inr py_bytes_def is_byteslike_def bind_inv split: if_splits option.splits)

lemma encode_row_values_image:
  assumes "encode_row_values iso_ok vs ts = Inr bs"
  shows "encode_row_values iso_ok (map2 wire_image ts vs) ts = Inr bs
    \<and> null_override (map2 wire_image ts vs) ts = ts"
proof -
  have "length vs = length ts" and "encode_each (encode_cell iso_ok) ts vs = Inr bs"
    using assms by (auto simp: encode_row_values_def split: if_splits)
  then have "encode_each (encode_cell iso_ok) ts (map2 wire_image ts vs) = Inr bs
    \<and> null_override (map2 wire_image ts vs) ts = ts"
  proof (induction vs ts arbitrary: bs rule: list_induct2)
    case (Cons v vs t ts)
    then obtain b bs' where b: "encode_cell iso_ok t v = Inr b"
      and r: "encode_each (encode_cell iso_ok) ts vs = Inr bs'" and bs: "bs = b @ bs'"
      by (auto simp: bindE_eq_Inr)
    show ?case
      using encode_cell_image [OF b] encode_cell_null [OF b] Cons.IH [OF r]
      by (cases "t = NULL") (simp_all add: bs)
  qed simp
  then show ?thesis using \<open>length vs = length ts\<close> by (simp add: encode_row_values_def)
qed

lemma encode_rows_image:
  assumes "encode_rows iso_ok r i rws = Inr bs"
    and "\<And>j. j < length rws \<Longrightarrow> i + j < length (row_types q) \<and> row_types q ! (i + j) = resolved_types r i rws ! j"
  shows "encode_rows iso_ok q i (map2 (map2 wire_image) (resolved_types r i rws) rws) = Inr bs"
  using assms
proof (induction rws arbitrary: i bs)
  case (Cons row rws)
  from Cons.prems(1) obtain types hdr cells rest where
    g: "get_row_types r i row = Inr types" and h: "encode_row_header (map value_type_code types) = Inr hdr"
    and c: "encode_row_values iso_ok row types = Inr cells"
    and e: "encode_rows iso_ok r (Suc i) rws = Inr rest" and bs: "bs = hdr @ cells @ rest"
    by (rule encode_rows_Cons)
  have "i < length (row_types q) \<and> row_types q ! i = types" using Cons.prems(2) [of 0] by (simp add: g)
  then have "get_row_types q i (map2 wire_image types row) = Inr types"
    using encode_row_values_image [OF c] by (auto simp: get_row_types_def)
  moreover have "encode_rows iso_ok q (Suc i) (map2 (map2 wire_image) (resolved_types r (Suc i) rws) rws) = Inr rest"
    using Cons.prems(2) [of "Suc j" for j] by (intro Cons.IH [OF e]) simp
  ultimately show ?case
    using encode_row_values_image [OF c] by (simp add: g h bs)
qed simp

lemma encode_rows_shape:
  assumes "encode_rows iso_ok r i rws = Inr bs" and "j < length rws"
  shows "length (resolved_types r i rws ! j) = length (rws ! j)"
  using assms
proof (induction rws arbitrary: i bs j)
  case (Cons row rws)
  from Cons.prems(1) obtain types hdr cells rest where
    "get_row_types r i row = Inr types" "encode_row_values iso_ok row types = Inr cells"
    "encode_rows iso_ok r (Suc i) rws = Inr rest"
    by (rule encode_rows_Cons)
  then show ?case
    using Cons by (cases j) (auto simp: encode_row_values_def split: if_splits)
qed simp

lemma rows_reencode_body:
  assumes "RowsResponse_encode_body iso_ok r = Inr bs"
  shows "RowsResponse_encode_body iso_ok (rows_image r) = Inr bs"
  using assms
proof (rule encode_rows_body)
  let ?n = "length (column_names r)" and ?ts = "resolved_types r 0 (rows r)"
  fix names body
  assume max: "?n \<le> MAX_COLUMN_COUNT" and zero: "column_names r = [] \<longrightarrow> rows r = []"
    and chk: "check_rows ?n (row_types r) 0 (rows r) = Inr ()"
    and names: "encode_names (column_names r) = Inr names"
    and body: "encode_rows iso_ok r 0 (rows r) = Inr body"
    and bs: "bs = le_bytes 8 (int ?n) @ names @ body @ (if has_more r then ROW_PART_BYTES else ROW_DONE_BYTES)"
  have lens: "length (?ts ! j) = ?n \<and> length (rows r ! j) = ?n" if "j < length (rows r)" for j
    using encode_rows_shape [OF body that] chk that by (auto simp: check_rows_eq_Inr)
  have "check_rows ?n ?ts 0 (map2 (map2 wire_image) ?ts (rows r)) = Inr ()"
    using lens by (simp add: check_rows_eq_Inr)
  moreover have "encode_rows iso_ok (rows_image r) 0 (map2 (map2 wire_image) ?ts (rows r)) = Inr body"
    using body by (rule encode_rows_image) (simp add: rows_image_def Let_def)
  moreover have "first_or_empty ?ts \<noteq> [] \<longrightarrow> length (first_or_empty ?ts) = ?n"
    using lens [of 0] by (cases ?ts; cases "rows r") (auto simp: first_or_empty_def)
  moreover have "encode_uint64 (PInt (int ?n)) = Inr (le_bytes 8 (int ?n))"
    using max by (simp add: encode_uint64_eq_Inr MAX_COLUMN_COUNT_def)
  ultimately show ?thesis
    using max zero names
    by (auto simp: RowsResponse_encode_body_def Let_def bs marker_bytes not_less rows_image_def)
qed

subsection \<open>What the decoder guarantees of any input\<close>

lemma decode_rows_step:
  assumes "decode_rows errors max_rows n view offset acc ts ct = res"
  obtains
    (out) "\<not> offset < length view" "res = Inl (DecodeError NoMarker)"
  | (header_error) e where "offset < length view" "decode_row_header (drop offset view) n = Inl e" "res = Inl e"
  | (marker) m where "offset < length view" "decode_row_header (drop offset view) n = Inr (Marker m, length view - offset)"
      "res = Inr (ct, ts, acc, m = PART)"
  | (trailing) "res = Inl (DecodeError Trailing)"
  | (value_error) types c e where "decode_row_header (drop offset view) n = Inr (Types types, c)"
      "decode_row_values IsView errors (drop (offset + c) view) types = Inl e" "res = Inl e"
  | (full) "res = Inl (DecodeError TooMany)"
  | (row) types c vals k where "offset < length view"
      "decode_row_header (drop offset view) n = Inr (Types types, c)"
      "decode_row_values IsView errors (drop (offset + c) view) types = Inr (vals, k)"
      "\<not> max_rows \<le> int (length (acc @ [vals]))"
      "res = decode_rows errors max_rows n view (offset + c + k) (acc @ [vals]) (ts @ [types])
         (if ct = [] then types else ct)"
proof (cases "offset < length view")
  case False
  then show ?thesis using assms out by (subst (asm) decode_rows.simps) simp
next
  case True
  show ?thesis
  proof (cases "decode_row_header (drop offset view) n")
    case (Inl e)
    then show ?thesis using assms True header_error by (subst (asm) decode_rows.simps) simp
  next
    case (Inr hc)
    then obtain h c where hc: "decode_row_header (drop offset view) n = Inr (h, c)" by (cases hc) simp
    show ?thesis
    proof (cases h)
      case (Marker m)
      show ?thesis
      proof (cases "offset + c = length view")
        case fits: True
        then have "c = length view - offset" by simp
        then show ?thesis
          using assms True hc Marker marker [of m] fits by (subst (asm) decode_rows.simps) simp
      next
        case False
        then show ?thesis using assms True hc Marker trailing by (subst (asm) decode_rows.simps) simp
      qed
    next
      case (Types types)
      show ?thesis
      proof (cases "decode_row_values IsView errors (drop (offset + c) view) types")
        case (Inl e)
        then show ?thesis
          using assms True hc Types value_error [of types c e] by (subst (asm) decode_rows.simps) simp
      next
        case (Inr vk)
        then obtain vals k where
          "decode_row_values IsView errors (drop (offset + c) view) types = Inr (vals, k)" by (cases vk) simp
        then show ?thesis
          using assms True hc Types full row [of types c vals k]
          by (subst (asm) decode_rows.simps) (auto split: if_splits)
      qed
    qed
  qed
qed

lemma decode_rows_shape:
  assumes "decode_rows errors max_rows n view offset acc ts ct = Inr (ct', ts', rws, m)"
    and "length ts = length acc" and "\<forall>row \<in> set acc. length row = n" and "\<forall>t \<in> set ts. length t = n"
    and "ct = first_or_empty ts" and "0 < n" and "acc \<noteq> [] \<longrightarrow> int (length acc) < max_rows"
  shows "length ts' = length rws \<and> (\<forall>row \<in> set rws. length row = n) \<and> (\<forall>t \<in> set ts'. length t = n)
    \<and> ct' = first_or_empty ts' \<and> (rws \<noteq> [] \<longrightarrow> int (length rws) < max_rows)
    \<and> offset + 8 * (n + 1) * (length rws - length acc) + 8 \<le> length view \<and> length acc \<le> length rws"
  using assms
proof (induction errors max_rows n view offset acc ts ct rule: decode_rows.induct)
  case (1 errors max_rows n view offset acc ts ct)
  from "1.prems"(1) show ?case
  proof (cases rule: decode_rows_step)
    case (marker k)
    then have "8 \<le> length view - offset"
      using decode_row_header_consumed [OF marker(2)] "1.prems"(6) by simp
    then show ?thesis using marker "1.prems" by auto
  next
    case (row types c vals k)
    have h: "8 \<le> c" "c \<le> length view - offset" "length types = n"
      using decode_row_header_consumed [OF row(2)] "1.prems"(6) by auto
    have v: "8 * n \<le> k" "k \<le> length view - (offset + c)" "length vals = n"
      using decode_row_values_consumed [OF row(3)] h(3) by auto
    have next_ct: "(if ct = [] then types else ct) = first_or_empty (ts @ [types])"
      using "1.prems"(4,5,6) h(3) by (cases ts) (auto simp: first_or_empty_def)
    have res: "length ts' = length rws \<and> (\<forall>row \<in> set rws. length row = n) \<and> (\<forall>t \<in> set ts'. length t = n)
      \<and> ct' = first_or_empty ts' \<and> (rws \<noteq> [] \<longrightarrow> int (length rws) < max_rows)
      \<and> offset + c + k + 8 * (n + 1) * (length rws - length (acc @ [vals])) + 8 \<le> length view
      \<and> length (acc @ [vals]) \<le> length rws"
      using "1.IH" [OF row(1,2) refl refl row(3) refl row(4) row(5) [symmetric]] "1.prems" h v row(4) next_ct
      by simp
    moreover have "8 * (n + 1) * (length rws - length acc)
        = 8 * (n + 1) * (length rws - length (acc @ [vals])) + 8 * (n + 1)"
    proof -
      have d: "length rws - length acc = (length rws - length (acc @ [vals])) + 1"
        using conjunct2 [OF conjunct2 [OF conjunct2 [OF conjunct2 [OF conjunct2 [OF conjunct2 [OF res]]]]]] by simp
      show ?thesis unfolding d distrib_left mult_1_right ..
    qed
    ultimately show ?thesis using h(1) v(1) by auto
  qed auto
qed

lemma decode_rows_error:
  assumes "decode_rows Strict max_rows n view offset acc ts ct = Inl e"
  shows "is_DecodeError e"
  using assms
proof (induction "Strict" max_rows n view offset acc ts ct rule: decode_rows.induct)
  case (1 max_rows n view offset acc ts ct)
  from "1.prems" show ?case
  proof (cases rule: decode_rows_step)
    case (header_error e')
    then show ?thesis using decode_row_header_error by auto
  next
    case (value_error types c e')
    then show ?thesis using strict_value.decode_each_error by (auto simp: decode_row_values_def)
  next
    case (row types c vals k)
    then show ?thesis using "1.hyps" [OF row(1,2) refl refl row(3) refl row(4)] by simp
  qed auto
qed

lemma RowsResponse_decode_error:
  assumes "RowsResponse_decode_body Strict max_rows data sc = Inl e" and "\<not> huge_int sc"
  shows "is_DecodeError e"
  using assms
  by (auto simp: shown_error_eq RowsResponse_decode_body_def decode_zero_columns_def decode_names_def Let_def bindE_eq_Inl
      dest: decode_errors decode_rows_error strict_text.decode_each_error split: if_splits)

lemma RowsResponse_decode_cases:
  assumes "RowsResponse_decode_body errors max_rows data sc = Inr r"
  obtains (none) names offset m where "decode_uint64 data = Inr 0" "decode_names 0 data 8 = Inr (names, offset)"
      "decode_zero_columns data offset = Inr m"
      "r = \<lparr>column_names = names, column_types = [], row_types = [], rows = [], has_more = m\<rparr>"
  | (some) c names offset ct ts rws m where "decode_uint64 data = Inr c" "0 < c" "c \<le> int MAX_COLUMN_COUNT"
      "decode_names (nat c) data 8 = Inr (names, offset)"
      "decode_rows errors max_rows (nat c) data offset [] [] [] = Inr (ct, ts, rws, m)"
      "r = \<lparr>column_names = names, column_types = ct, row_types = ts, rows = rws, has_more = m\<rparr>"
proof -
  obtain c where c: "decode_uint64 data = Inr c" using assms by (auto simp: RowsResponse_decode_body_def bindE_eq_Inr split: if_splits)
  have "c = 0 \<or> 0 < c" using decode_uint64_range [OF c] by linarith
  then show ?thesis
    using assms c none some by (auto simp: RowsResponse_decode_body_def Let_def bindE_eq_Inr not_less split: if_splits)
qed

lemma RowsResponse_decode_shape:
  assumes "RowsResponse_decode_body errors max_rows data sc = Inr r"
  shows "length (column_names r) \<le> MAX_COLUMN_COUNT \<and> length (row_types r) = length (rows r)
    \<and> (\<forall>row \<in> set (rows r). length row = length (column_names r))
    \<and> (\<forall>t \<in> set (row_types r). length t = length (column_names r))
    \<and> column_types r = first_or_empty (row_types r)
    \<and> (rows r \<noteq> [] \<longrightarrow> int (length (rows r)) < max_rows)
    \<and> 8 * (length (column_names r) + 1) * (length (rows r) + 1) + 8 \<le> length data"
proof -
  have names: "length names = n \<and> 8 + 8 * n \<le> offset \<and> offset \<le> length data"
    if "decode_uint64 data = Inr c" "decode_names n data 8 = Inr (names, offset)" for c n names offset
    using text_reader.decode_each_consumed [OF that(2) [unfolded decode_names_def]] that(1)
    by (simp add: decode_uint64_eq_Inr)
  from assms show ?thesis
  proof (cases rule: RowsResponse_decode_cases)
    case (none names offset m)
    then show ?thesis
      using names [OF none(1,2)] by (auto simp: bindE_eq_Inr decode_zero_columns_def Let_def first_or_empty_def split: if_splits)
  next
    case (some c names offset ct ts rws m)
    note off = names [OF some(1,4)]
    have "0 < nat c" using some(2) by simp
    note shape = decode_rows_shape [OF some(5) _ _ _ _ this]
    have "8 * (nat c + 1) * (length rws + 1) + 8 = (8 + 8 * nat c) + 8 * (nat c + 1) * length rws + 8"
      by (simp add: algebra_simps)
    then show ?thesis
      using shape off some(3) by (simp add: some(6) first_or_empty_def)
  qed
qed

section \<open>Properties\<close>

text \<open>
  C11 (rows_roundtrip): every result set the encoder accepts, with fewer rows than the
  reader's cap, is decoded, under any text error handler, to the same column names, rows and
  continuation flag, with the types the encoder settled on for each row (declared per row,
  per column, or inferred, and NULL for every missing value).
\<close>

theorem rows_roundtrip:
  assumes "RowsResponse_encode_body iso_ok r = Inr bs" and "int (length (rows r)) < max_rows"
  shows "RowsResponse_decode_body errors max_rows bs 0 = Inr (rows_image r)"
  using assms by (rule decode_encode_rows_response)

theorem rows_roundtrip_witness:
  "RowsResponse_decode_body Strict 10
     [1, 0, 0, 0, 0, 0, 0, 0, 97, 0, 0, 0, 0, 0, 0, 0,
      1, 0, 0, 0, 0, 0, 0, 0, 7, 0, 0, 0, 0, 0, 0, 0, 5, 0, 0, 0, 0, 0, 0, 0, 0, 0, 0, 0, 0, 0, 0, 0,
      0xFF, 0xFF, 0xFF, 0xFF, 0xFF, 0xFF, 0xFF, 0xFF] 0
   = Inr \<lparr>column_names = [[97]], column_types = [INTEGER], row_types = [[INTEGER], [NULL]],
          rows = [[PInt 7], [PNone]], has_more = False\<rparr>"
proof -
  let ?r = "\<lparr>column_names = [[97]], column_types = [INTEGER], row_types = [],
    rows = [[PInt 7], [PNone]], has_more = False\<rparr>"
  have e: "RowsResponse_encode_body (\<lambda>_. True) ?r = Inr
     [1, 0, 0, 0, 0, 0, 0, 0, 97, 0, 0, 0, 0, 0, 0, 0,
      1, 0, 0, 0, 0, 0, 0, 0, 7, 0, 0, 0, 0, 0, 0, 0, 5, 0, 0, 0, 0, 0, 0, 0, 0, 0, 0, 0, 0, 0, 0, 0,
      0xFF, 0xFF, 0xFF, 0xFF, 0xFF, 0xFF, 0xFF, 0xFF]"
    by code_simp
  have i: "rows_image ?r = \<lparr>column_names = [[97]], column_types = [INTEGER], row_types = [[INTEGER], [NULL]],
      rows = [[PInt 7], [PNone]], has_more = False\<rparr>"
    by code_simp
  show ?thesis using rows_roundtrip [OF e, of 10 Strict] unfolding i by simp
qed

text \<open>
  A decoded result set encodes to the identical bytes again, so a
  proxy can replay what it captured.
\<close>

theorem rows_reencode:
  assumes "RowsResponse_encode_body iso_ok r = Inr bs" and "int (length (rows r)) < max_rows"
    and "RowsResponse_decode_body errors max_rows bs 0 = Inr r'"
  shows "RowsResponse_encode_body iso_ok r' = Inr bs"
  using decode_encode_rows_response [OF assms(1,2), of errors] rows_reencode_body [OF assms(1)] assms(3) by simp

theorem rows_reencode_witness:
  "RowsResponse_encode_body (\<lambda>_. True)
     \<lparr>column_names = [], column_types = [], row_types = [], rows = [], has_more = True\<rparr>
   = Inr [0, 0, 0, 0, 0, 0, 0, 0, 0xEE, 0xEE, 0xEE, 0xEE, 0xEE, 0xEE, 0xEE, 0xEE]"
proof -
  let ?r = "\<lparr>column_names = [], column_types = [], row_types = [], rows = [], has_more = True\<rparr>"
  let ?bs = "[0, 0, 0, 0, 0, 0, 0, 0, 0xEE, 0xEE, 0xEE, 0xEE, 0xEE, 0xEE, 0xEE, 0xEE]"
  have e: "RowsResponse_encode_body (\<lambda>_. True) ?r = Inr ?bs" by code_simp
  have d: "RowsResponse_decode_body Strict 1 ?bs 0 = Inr ?r" by code_simp
  show ?thesis using rows_reencode [OF e _ d] by simp
qed

text \<open>
  C34 (rows_decode_bounded): what a hostile peer can make the row decoder build.  Whatever
  the bytes, a decoded result set is rectangular, has fewer rows than the cap and at most the
  maximal number of columns, and needed a body of at least one word per cell, per row header,
  per column name and for the count and the marker.
\<close>

theorem rows_decode_bounded:
  assumes "RowsResponse_decode_body errors max_rows data sc = Inr r"
  shows "length (column_names r) \<le> MAX_COLUMN_COUNT \<and> length (row_types r) = length (rows r)
    \<and> (\<forall>row \<in> set (rows r). length row = length (column_names r))
    \<and> column_types r = first_or_empty (row_types r)
    \<and> (rows r \<noteq> [] \<longrightarrow> int (length (rows r)) < max_rows)
    \<and> WORD_SIZE * (length (column_names r) + 1) * (length (rows r) + 1) + WORD_SIZE \<le> length data"
  using RowsResponse_decode_shape [OF assms] by simp

theorem rows_decode_bounded_witness:
  "length [[PInt 7], [PNone]] = 2 \<and> int (length [[PInt 7], [PNone]]) < 10
   \<and> WORD_SIZE * (length [[97 :: nat]] + 1) * (length [[PInt 7], [PNone]] + 1) + WORD_SIZE \<le> 56"
proof -
  have "RowsResponse_decode_body Strict 10
     [1, 0, 0, 0, 0, 0, 0, 0, 97, 0, 0, 0, 0, 0, 0, 0,
      1, 0, 0, 0, 0, 0, 0, 0, 7, 0, 0, 0, 0, 0, 0, 0, 5, 0, 0, 0, 0, 0, 0, 0, 0, 0, 0, 0, 0, 0, 0, 0,
      0xFF, 0xFF, 0xFF, 0xFF, 0xFF, 0xFF, 0xFF, 0xFF] 0
   = Inr \<lparr>column_names = [[97]], column_types = [INTEGER], row_types = [[INTEGER], [NULL]],
          rows = [[PInt 7], [PNone]], has_more = False\<rparr>"
    by code_simp
  from rows_decode_bounded [OF this] show ?thesis by simp
qed

end
