(* ===== verification/Responses.thy ===== *)
theory Responses
  imports Rows_Response Server_Text
begin

text \<open>
  The other classes of \<^verbatim>\<open>src/dqlitewire/messages/responses.py\<close> and the type of all
  responses.  A response holds the integers its constructor has validated; the constructors
  (\<open>X_init\<close>) take Python values, and \<open>response_valid\<close> says that a response is one its
  constructor returns.  Text fields hold \<^verbatim>\<open>str\<close>.  A \<^verbatim>\<open>dict\<close> of files is its list of items in
  insertion order.  What the logging calls write is in \<open>Logging\<close>.
\<close>

section \<open>Definitions\<close>

subsection \<open>Data and construction\<close>

record stmt_response =
  stmt_db :: int
  stmt_statement :: int
  num_params :: int
  tail_offset :: "int option"
  stmt_schema :: "int option"

record node_info =
  node_id :: int
  address :: pystr
  role :: node_role

datatype response =
    FailureResponse int pystr
  | LeaderResponse int pystr
  | WelcomeResponse int
  | DbResponse int
  | StmtResponse stmt_response
  | ResultResponse int int
  | RowsResponse rows_response
  | EmptyResponse
  | FilesResponse "(pystr \<times> bytes) list"
  | ServersResponse "node_info list"
  | MetadataResponse int int

definition FailureResponse_init :: "pyval \<Rightarrow> pystr \<Rightarrow> response result" where
  "FailureResponse_init code message = bindE (validate_uint64 code) (\<lambda>c. Inr (FailureResponse c message))"

definition LeaderResponse_init :: "pyval \<Rightarrow> pystr \<Rightarrow> response result" where
  "LeaderResponse_init n a = bindE (validate_uint64 n) (\<lambda>i. Inr (LeaderResponse i a))"

definition WelcomeResponse_init :: "pyval \<Rightarrow> response result" where
  "WelcomeResponse_init t = bindE (validate_uint64 t) (\<lambda>i. Inr (WelcomeResponse i))"

definition DbResponse_init :: "pyval \<Rightarrow> response result" where
  "DbResponse_init db = bindE (validate_uint32 db) (\<lambda>i. Inr (DbResponse i))"

definition StmtResponse_init ::
  "pyval \<Rightarrow> pyval \<Rightarrow> pyval \<Rightarrow> pyval option \<Rightarrow> int option \<Rightarrow> stmt_response result"
where
  "StmtResponse_init db stmt n tail sc =
     bindE (validate_uint32 db) (\<lambda>db'.
     bindE (validate_uint32 stmt) (\<lambda>stmt'.
     bindE (validate_uint64 n) (\<lambda>n'.
     if int MAX_PARAM_COUNT < n' then Inl (EncodeError TooMany)
     else
       bindE (case tail of
                None \<Rightarrow> Inr None
              | Some v \<Rightarrow> bindE (validate_uint64 v) (\<lambda>t.
                  if int MAX_TAIL_OFFSET < t then Inl (EncodeError OutOfRange) else Inr (Some t))) (\<lambda>tail'.
       if sc \<noteq> None \<and> sc \<noteq> Some 0 \<and> sc \<noteq> Some 1 then Inl (shown_error (the sc) (EncodeError BadSchema))
       else if sc = Some 0 \<and> tail' \<noteq> None then Inl (EncodeError Malformed)
       else
         Inr \<lparr>stmt_db = db', stmt_statement = stmt', num_params = n',
              tail_offset = (if sc = Some 1 \<and> tail' = None then Some 0 else tail'),
              stmt_schema = sc\<rparr>))))"

definition ResultResponse_init :: "pyval \<Rightarrow> pyval \<Rightarrow> response result" where
  "ResultResponse_init last_insert_id rows_affected =
     bindE (validate_uint64 last_insert_id) (\<lambda>l.
     bindE (validate_uint64 rows_affected) (\<lambda>r.
     if MAX_ROWS_AFFECTED < r then Inl (EncodeError OutOfRange) else Inr (ResultResponse l r)))"

definition MetadataResponse_init :: "pyval \<Rightarrow> pyval \<Rightarrow> response result" where
  "MetadataResponse_init failure_domain weight =
     bindE (validate_uint64 failure_domain) (\<lambda>f.
     bindE (validate_uint64 weight) (\<lambda>w. Inr (MetadataResponse f w)))"

definition NodeInfo_init :: "pyval \<Rightarrow> pystr \<Rightarrow> role_arg \<Rightarrow> node_info result" where
  "NodeInfo_init n a r =
     bindE (validate_uint64 n) (\<lambda>i.
     if i = 0 then Inl (EncodeError Malformed)
     else if a = [] then Inl (EncodeError Malformed)
     else
       (case r of
          RoleEnum ro \<Rightarrow> Inr \<lparr>node_id = i, address = a, role = ro\<rparr>
        | RoleNone \<Rightarrow> Inl (EncodeError WrongType)
        | RoleRaw v \<Rightarrow>
            bindE (validate_uint64 v) (\<lambda>raw.
            case node_role_of raw of
              None \<Rightarrow> Inl (EncodeError BadRole)
            | Some ro \<Rightarrow> Inr \<lparr>node_id = i, address = a, role = ro\<rparr>)))"

definition node_valid :: "node_info \<Rightarrow> bool" where
  "node_valid n = (NodeInfo_init (PInt (node_id n)) (address n) (RoleEnum (role n)) = Inr n)"

definition stmt_valid :: "stmt_response \<Rightarrow> bool" where
  "stmt_valid s =
     (StmtResponse_init (PInt (stmt_db s)) (PInt (stmt_statement s)) (PInt (num_params s))
        (map_option PInt (tail_offset s)) (stmt_schema s) = Inr s)"

fun response_valid :: "response \<Rightarrow> bool" where
  "response_valid (FailureResponse c m) = (FailureResponse_init (PInt c) m = Inr (FailureResponse c m))"
| "response_valid (LeaderResponse n a) = (LeaderResponse_init (PInt n) a = Inr (LeaderResponse n a))"
| "response_valid (WelcomeResponse t) = (WelcomeResponse_init (PInt t) = Inr (WelcomeResponse t))"
| "response_valid (DbResponse d) = (DbResponse_init (PInt d) = Inr (DbResponse d))"
| "response_valid (StmtResponse s) = stmt_valid s"
| "response_valid (ResultResponse l r) = (ResultResponse_init (PInt l) (PInt r) = Inr (ResultResponse l r))"
| "response_valid (RowsResponse r) = True"
| "response_valid EmptyResponse = True"
| "response_valid (FilesResponse fs) = distinct (map fst fs)"
| "response_valid (ServersResponse ns) = list_all node_valid ns"
| "response_valid (MetadataResponse f w) = (MetadataResponse_init (PInt f) (PInt w) = Inr (MetadataResponse f w))"

subsection \<open>Encoding\<close>

fun response_MSG_TYPE :: "response \<Rightarrow> response_type" where
  "response_MSG_TYPE (FailureResponse c m) = RS_FAILURE"
| "response_MSG_TYPE (LeaderResponse n a) = RS_LEADER"
| "response_MSG_TYPE (WelcomeResponse t) = RS_WELCOME"
| "response_MSG_TYPE (DbResponse d) = RS_DB"
| "response_MSG_TYPE (StmtResponse s) = RS_STMT"
| "response_MSG_TYPE (ResultResponse l r) = RS_RESULT"
| "response_MSG_TYPE (RowsResponse r) = RS_ROWS"
| "response_MSG_TYPE EmptyResponse = RS_EMPTY"
| "response_MSG_TYPE (FilesResponse fs) = RS_FILES"
| "response_MSG_TYPE (ServersResponse ns) = RS_SERVERS"
| "response_MSG_TYPE (MetadataResponse f w) = RS_METADATA"

definition stmt_get_schema :: "stmt_response \<Rightarrow> int" where
  "stmt_get_schema s = (case stmt_schema s of
     Some sc \<Rightarrow> sc
   | None \<Rightarrow> if tail_offset s \<noteq> None then 1 else 0)"

fun response_get_schema :: "response \<Rightarrow> int" where
  "response_get_schema (StmtResponse s) = stmt_get_schema s"
| "response_get_schema _ = 0"

definition word_pair :: "int \<Rightarrow> int \<Rightarrow> bytes result" where
  "word_pair a b = bindE (encode_uint64 (PInt a)) (\<lambda>x. bindE (encode_uint64 (PInt b)) (\<lambda>y. Inr (x @ y)))"

definition FailureResponse_encode_body :: "int \<Rightarrow> pystr \<Rightarrow> bytes result" where
  "FailureResponse_encode_body code message =
     bindE (encode_uint64 (PInt code)) (\<lambda>x.
     bindE (encode_text (PStr message) (Some MAX_FAILURE_MESSAGE_SIZE)) (\<lambda>y. Inr (x @ y)))"

definition LeaderResponse_encode_body :: "int \<Rightarrow> pystr \<Rightarrow> bytes result" where
  "LeaderResponse_encode_body n a =
     (if n = 0 \<and> a \<noteq> [] then Inl (EncodeError Malformed)
      else
        bindE (encode_uint64 (PInt n)) (\<lambda>x.
        bindE (encode_text (PStr a) (Some MAX_ADDRESS_SIZE)) (\<lambda>y. Inr (x @ y))))"

definition LeaderResponse_encode_body_legacy :: "int \<Rightarrow> pystr \<Rightarrow> bytes result" where
  "LeaderResponse_encode_body_legacy n a =
     (if n \<noteq> 0 then Inl (EncodeError Malformed) else encode_text (PStr a) (Some MAX_ADDRESS_SIZE))"

definition DbResponse_encode_body :: "int \<Rightarrow> bytes result" where
  "DbResponse_encode_body db = id_pair (PInt db) (PInt 0)"

definition StmtResponse_encode_body :: "stmt_response \<Rightarrow> bytes result" where
  "StmtResponse_encode_body s =
     (if int MAX_PARAM_COUNT < num_params s then Inl (shown_error (num_params s) (EncodeError TooMany))
      else
        bindE (id_pair (PInt (stmt_db s)) (PInt (stmt_statement s))) (\<lambda>ids.
        bindE (encode_uint64 (PInt (num_params s))) (\<lambda>n.
        if stmt_get_schema s = 1 then
          (let tail = (case tail_offset s of None \<Rightarrow> 0 | Some t \<Rightarrow> t) in
           if int MAX_TAIL_OFFSET < tail then Inl (shown_error tail (EncodeError OutOfRange))
           else bindE (encode_uint64 (PInt tail)) (\<lambda>t. Inr (ids @ n @ t)))
        else Inr (ids @ n))))"

fun encode_files :: "(pystr \<times> bytes) list \<Rightarrow> bytes result" where
  "encode_files [] = Inr []"
| "encode_files ((name, content) # fs) =
     (if length content mod 8 \<noteq> 0 then Inl (EncodeError Misaligned)
      else if MAX_FILE_CONTENT_SIZE < length content then Inl (EncodeError TooLong)
      else
        bindE (encode_text (PStr name) (Some MAX_FILENAME_SIZE)) (\<lambda>n.
        bindE (encode_uint64 (PInt (int (length content)))) (\<lambda>len.
        bindE (encode_files fs) (\<lambda>rest. Inr (n @ len @ content @ rest)))))"

definition FilesResponse_encode_body :: "(pystr \<times> bytes) list \<Rightarrow> bytes result" where
  "FilesResponse_encode_body fs =
     (if MAX_FILE_COUNT < length fs then Inl (EncodeError TooMany)
      else
        bindE (encode_uint64 (PInt (int (length fs)))) (\<lambda>count.
        bindE (encode_files fs) (\<lambda>body. Inr (count @ body))))"

fun encode_nodes :: "node_info list \<Rightarrow> bytes result" where
  "encode_nodes [] = Inr []"
| "encode_nodes (n # ns) =
     bindE (encode_uint64 (PInt (node_id n))) (\<lambda>i.
     bindE (encode_text (PStr (address n)) (Some MAX_ADDRESS_SIZE)) (\<lambda>a.
     bindE (encode_uint64 (PInt (node_role_code (role n)))) (\<lambda>r.
     bindE (encode_nodes ns) (\<lambda>rest. Inr (i @ a @ r @ rest)))))"

definition ServersResponse_encode_body :: "node_info list \<Rightarrow> bytes result" where
  "ServersResponse_encode_body ns =
     (if MAX_NODE_COUNT < length ns then Inl (EncodeError TooMany)
      else
        bindE (encode_uint64 (PInt (int (length ns)))) (\<lambda>count.
        bindE (encode_nodes ns) (\<lambda>body. Inr (count @ body))))"

fun response_encode_body :: "(pystr \<Rightarrow> bool) \<Rightarrow> response \<Rightarrow> bytes result" where
  "response_encode_body iso_ok (FailureResponse c m) = FailureResponse_encode_body c m"
| "response_encode_body iso_ok (LeaderResponse n a) = LeaderResponse_encode_body n a"
| "response_encode_body iso_ok (WelcomeResponse t) = encode_uint64 (PInt t)"
| "response_encode_body iso_ok (DbResponse d) = DbResponse_encode_body d"
| "response_encode_body iso_ok (StmtResponse s) = StmtResponse_encode_body s"
| "response_encode_body iso_ok (ResultResponse l r) = word_pair l r"
| "response_encode_body iso_ok (RowsResponse r) = RowsResponse_encode_body iso_ok r"
| "response_encode_body iso_ok EmptyResponse = encode_uint64 (PInt 0)"
| "response_encode_body iso_ok (FilesResponse fs) = FilesResponse_encode_body fs"
| "response_encode_body iso_ok (ServersResponse ns) = ServersResponse_encode_body ns"
| "response_encode_body iso_ok (MetadataResponse f w) = word_pair f w"

definition response_encode :: "(pystr \<Rightarrow> bool) \<Rightarrow> response \<Rightarrow> bytes result" where
  "response_encode iso_ok r =
     message_encode (response_encode_body iso_ok r) (response_type_code (response_MSG_TYPE r))
       (response_get_schema r)"

text \<open>\<^verbatim>\<open>struct.unpack("<q", struct.pack("<Q", last_insert_id))\<close>.\<close>

definition last_insert_id_signed :: "int \<Rightarrow> int" where
  "last_insert_id_signed last_insert_id = signed64 (le_nat (le_bytes 8 last_insert_id))"

subsection \<open>Decoding\<close>

text \<open>
  \<^verbatim>\<open>_recover_trailing_failure_record\<close>: the body of its \<^verbatim>\<open>try\<close>, then the \<^verbatim>\<open>except\<close> clause.
\<close>

definition trailing_record :: "bytes \<Rightarrow> nat \<Rightarrow> (int \<times> pystr) option result" where
  "trailing_record data column_count =
     bindE (decode_each (\<lambda>_. decode_text IsBytes Strict MAX_COLUMN_NAME_SIZE)
              (replicate column_count ()) data 8) (\<lambda>(names, offset).
     if length data - offset < 9 then Inr None
     else
       bindE (decode_uint64 (take 8 (drop offset data))) (\<lambda>code.
       bindE (decode_text IsBytes Strict MAX_FAILURE_MESSAGE_SIZE (drop (offset + 8) data)) (\<lambda>(message, consumed).
       if offset + (8 + consumed) \<noteq> length data then Inr None else Inr (Some (code, message)))))"

definition recover_trailing_failure_record :: "bytes \<Rightarrow> int \<Rightarrow> (int \<times> pystr) option result" where
  "recover_trailing_failure_record data column_count =
     (if column_count < 0 \<or> int MAX_COLUMN_COUNT < column_count then Inr None
      else
        (case trailing_record data (nat column_count) of
           Inl e \<Rightarrow> if is_DecodeError e then Inr None else Inl e
         | Inr r \<Rightarrow> Inr r))"

definition FailureResponse_decode_body :: "bytes \<Rightarrow> int \<Rightarrow> response result" where
  "FailureResponse_decode_body data sc =
     (if sc \<noteq> 0 then Inl (shown_error sc (DecodeError BadSchema))
      else if length data < 9 then Inl (DecodeError TooShort)
      else
        bindE (decode_uint64 (take 8 data)) (\<lambda>code.
        bindE (decode_text IsBytes Strict MAX_FAILURE_MESSAGE_SIZE (drop 8 data)) (\<lambda>(message, consumed).
        bindE (if 8 + consumed \<noteq> length data then
                 bindE (recover_trailing_failure_record data code) (\<lambda>recovered.
                 Inr (case recovered of None \<Rightarrow> (code, message) | Some record \<Rightarrow> record))
               else Inr (code, message)) (\<lambda>(code', message').
        FailureResponse_init (PInt code') (sanitize_server_text message')))))"

definition LeaderResponse_decode_body :: "bytes \<Rightarrow> int \<Rightarrow> response result" where
  "LeaderResponse_decode_body data sc =
     (if sc \<noteq> 0 then Inl (shown_error sc (DecodeError BadSchema))
      else if length data < 8 then Inl (DecodeError TooShort)
      else
        bindE (decode_uint64 data) (\<lambda>n.
        bindE (decode_text IsBytes Strict MAX_ADDRESS_SIZE (drop 8 data)) (\<lambda>(a, consumed).
        if 8 + consumed \<noteq> length data then Inl (DecodeError Trailing)
        else if n = 0 \<and> a \<noteq> [] then Inl (DecodeError Malformed)
        else LeaderResponse_init (PInt n) a)))"

definition LeaderResponse_decode_body_legacy :: "bytes \<Rightarrow> response result" where
  "LeaderResponse_decode_body_legacy data =
     (if length data < 8 then Inl (DecodeError TooShort)
      else
        bindE (decode_text IsBytes Strict MAX_ADDRESS_SIZE data) (\<lambda>(a, consumed).
        if consumed \<noteq> length data then Inl (DecodeError Trailing)
        else LeaderResponse_init (PInt 0) a))"

definition WelcomeResponse_decode_body :: "bytes \<Rightarrow> int \<Rightarrow> response result" where
  "WelcomeResponse_decode_body data sc =
     (if sc \<noteq> 0 then Inl (shown_error sc (DecodeError BadSchema))
      else if length data \<noteq> 8 then Inl (DecodeError BadLength)
      else bindE (decode_uint64 data) (\<lambda>t. WelcomeResponse_init (PInt t)))"

definition DbResponse_decode_body :: "bytes \<Rightarrow> int \<Rightarrow> response result" where
  "DbResponse_decode_body data sc =
     (if sc \<noteq> 0 then Inl (shown_error sc (DecodeError BadSchema))
      else if length data \<noteq> 8 then Inl (DecodeError BadLength)
      else bindE (decode_uint32 data) (\<lambda>db. DbResponse_init (PInt db)))"

definition StmtResponse_decode_body :: "bytes \<Rightarrow> int \<Rightarrow> response result" where
  "StmtResponse_decode_body data sc =
     (if sc \<noteq> 0 \<and> sc \<noteq> 1 then Inl (shown_error sc (DecodeError BadSchema))
      else if length data \<noteq> (if sc = 1 then 24 else 16) then Inl (DecodeError BadLength)
      else
        bindE (decode_uint32 data) (\<lambda>db.
        bindE (decode_uint32 (drop 4 data)) (\<lambda>stmt.
        bindE (decode_uint64 (drop 8 data)) (\<lambda>n.
        if int MAX_PARAM_COUNT < n then Inl (DecodeError TooMany)
        else
          bindE (if sc = 1 then bindE (decode_uint64 (drop 16 data)) (\<lambda>t. Inr (Some t)) else Inr None) (\<lambda>tail.
          if (case tail of None \<Rightarrow> False | Some t \<Rightarrow> int MAX_TAIL_OFFSET < t) then Inl (DecodeError OutOfRange)
          else
            bindE (StmtResponse_init (PInt db) (PInt stmt) (PInt n) (map_option PInt tail) (Some sc)) (\<lambda>s.
            Inr (StmtResponse s)))))))"

definition ResultResponse_decode_body :: "bytes \<Rightarrow> int \<Rightarrow> response result" where
  "ResultResponse_decode_body data sc =
     (if sc \<noteq> 0 then Inl (shown_error sc (DecodeError BadSchema))
      else if length data \<noteq> 16 then Inl (DecodeError BadLength)
      else
        bindE (decode_uint64 data) (\<lambda>l.
        bindE (decode_uint64 (drop 8 data)) (\<lambda>r.
        if MAX_ROWS_AFFECTED < r then Inl (DecodeError OutOfRange)
        else ResultResponse_init (PInt l) (PInt r))))"

definition EmptyResponse_decode_body :: "bytes \<Rightarrow> int \<Rightarrow> response result" where
  "EmptyResponse_decode_body data sc =
     (if sc \<noteq> 0 then Inl (shown_error sc (DecodeError BadSchema))
      else if length data \<noteq> 8 then Inl (DecodeError BadLength)
      else bindE (decode_uint64 data) (\<lambda>_. Inr EmptyResponse))"

text \<open>The per-file loop; \<open>files\<close> is the dict built so far, in insertion order.\<close>

fun decode_files :: "bytes \<Rightarrow> nat \<Rightarrow> nat \<Rightarrow> (pystr \<times> bytes) list \<Rightarrow> ((pystr \<times> bytes) list \<times> nat) result" where
  "decode_files view 0 offset files = Inr (files, offset)"
| "decode_files view (Suc n) offset files =
     bindE (decode_text IsView Strict MAX_FILENAME_SIZE (drop offset view)) (\<lambda>(name, consumed).
     bindE (decode_uint64 (drop (offset + consumed) view)) (\<lambda>len.
     if len mod 8 \<noteq> 0 then Inl (DecodeError Misaligned)
     else if int MAX_FILE_CONTENT_SIZE < len then Inl (DecodeError TooLong)
     else if int (length view) < int (offset + consumed + 8) + len then Inl (DecodeError TooShort)
     else
       (let start = offset + consumed + 8;
            content = take (nat len) (drop start view)
        in if name \<in> fst ` set files then Inl (DecodeError Duplicate)
           else decode_files view n (start + nat len) (files @ [(name, content)]))))"

definition FilesResponse_decode_body :: "bytes \<Rightarrow> int \<Rightarrow> response result" where
  "FilesResponse_decode_body data sc =
     (if sc \<noteq> 0 then Inl (shown_error sc (DecodeError BadSchema))
      else
        bindE (decode_uint64 data) (\<lambda>count.
        if int MAX_FILE_COUNT < count then Inl (DecodeError TooMany)
        else if int ((length data - 8) div 16) < count then Inl (DecodeError TooMany)
        else
          bindE (decode_files data (nat count) 8 []) (\<lambda>(files, offset).
          if offset \<noteq> length data then Inl (DecodeError Trailing)
          else Inr (FilesResponse files))))"

text \<open>The per-node loop; \<open>seen\<close> holds the node ids read so far.\<close>

fun decode_nodes ::
  "string \<Rightarrow> bytes \<Rightarrow> nat \<Rightarrow> nat \<Rightarrow> int list \<Rightarrow> node_info list \<Rightarrow> (node_info list \<times> nat) result"
where
  "decode_nodes policy view 0 offset seen nodes = Inr (nodes, offset)"
| "decode_nodes policy view (Suc n) offset seen nodes =
     bindE (decode_uint64 (drop offset view)) (\<lambda>i.
     bindE (decode_text IsView Strict MAX_ADDRESS_SIZE (drop (offset + 8) view)) (\<lambda>(a, consumed).
     if i = 0 \<or> a = [] then Inl (DecodeError Malformed)
     else if i \<in> set seen then Inl (DecodeError Duplicate)
     else
       bindE (decode_uint64 (drop (offset + 8 + consumed) view)) (\<lambda>raw_role.
       bindE (case node_role_of raw_role of
                Some r \<Rightarrow> Inr r
              | None \<Rightarrow> if policy = ''reject'' then Inl (DecodeError BadRole) else Inr SPARE) (\<lambda>r.
       bindE (NodeInfo_init (PInt i) a (RoleEnum r)) (\<lambda>info.
       decode_nodes policy view n (offset + 8 + consumed + 8) (i # seen) (nodes @ [info]))))))"

definition ServersResponse_decode_body :: "string \<Rightarrow> bytes \<Rightarrow> int \<Rightarrow> response result" where
  "ServersResponse_decode_body policy data sc =
     (if sc \<noteq> 0 then Inl (shown_error sc (DecodeError BadSchema))
      else if policy \<notin> {''reject'', ''warn'', ''accept''} then Inl (DecodeError BadPolicy)
      else
        bindE (decode_uint64 data) (\<lambda>count.
        if int MAX_NODE_COUNT < count then Inl (DecodeError TooMany)
        else if int ((length data - 8) div 24) < count then Inl (DecodeError TooMany)
        else
          bindE (decode_nodes policy data (nat count) 8 [] []) (\<lambda>(nodes, offset).
          if offset \<noteq> length data then Inl (DecodeError Trailing)
          else Inr (ServersResponse nodes))))"

definition MetadataResponse_decode_body :: "bytes \<Rightarrow> int \<Rightarrow> response result" where
  "MetadataResponse_decode_body data sc =
     (if sc \<noteq> 0 then Inl (shown_error sc (DecodeError BadSchema))
      else if length data \<noteq> 16 then Inl (DecodeError BadLength)
      else
        bindE (decode_uint64 data) (\<lambda>f.
        bindE (decode_uint64 (drop 8 data)) (\<lambda>w. MetadataResponse_init (PInt f) (PInt w))))"

text \<open>
  The class of each response type with its \<^verbatim>\<open>decode_body\<close>, given the row cap, the text
  error handler and the role policy of the decoder that calls it.
\<close>

fun response_decode_body ::
  "text_errors \<Rightarrow> int \<Rightarrow> string \<Rightarrow> response_type \<Rightarrow> bytes \<Rightarrow> int \<Rightarrow> response result"
where
  "response_decode_body errors max_rows policy RS_FAILURE data sc = FailureResponse_decode_body data sc"
| "response_decode_body errors max_rows policy RS_LEADER data sc = LeaderResponse_decode_body data sc"
| "response_decode_body errors max_rows policy RS_WELCOME data sc = WelcomeResponse_decode_body data sc"
| "response_decode_body errors max_rows policy RS_SERVERS data sc = ServersResponse_decode_body policy data sc"
| "response_decode_body errors max_rows policy RS_DB data sc = DbResponse_decode_body data sc"
| "response_decode_body errors max_rows policy RS_STMT data sc = StmtResponse_decode_body data sc"
| "response_decode_body errors max_rows policy RS_RESULT data sc = ResultResponse_decode_body data sc"
| "response_decode_body errors max_rows policy RS_ROWS data sc =
     bindE (RowsResponse_decode_body errors max_rows data sc) (\<lambda>r. Inr (RowsResponse r))"
| "response_decode_body errors max_rows policy RS_EMPTY data sc = EmptyResponse_decode_body data sc"
| "response_decode_body errors max_rows policy RS_FILES data sc = FilesResponse_decode_body data sc"
| "response_decode_body errors max_rows policy RS_METADATA data sc = MetadataResponse_decode_body data sc"

subsection \<open>What a reader sees of a response\<close>

fun response_image :: "response \<Rightarrow> response" where
  "response_image (FailureResponse c m) = FailureResponse c (sanitize_server_text m)"
| "response_image (StmtResponse s) = StmtResponse (s\<lparr>stmt_schema := Some (stmt_get_schema s)\<rparr>)"
| "response_image (RowsResponse r) = RowsResponse (rows_image r)"
| "response_image r = r"

text \<open>
  What the decoder asks beyond the encoder's own checks: fewer rows than its cap, and no two
  nodes with one id.
\<close>

fun response_acceptable :: "int \<Rightarrow> response \<Rightarrow> bool" where
  "response_acceptable max_rows (RowsResponse r) = (int (length (rows r)) < max_rows)"
| "response_acceptable max_rows (ServersResponse ns) = distinct (map node_id ns)"
| "response_acceptable max_rows r = True"

section \<open>Lemmas\<close>

lemmas response_inits = FailureResponse_init_def LeaderResponse_init_def WelcomeResponse_init_def
  DbResponse_init_def StmtResponse_init_def ResultResponse_init_def MetadataResponse_init_def
  NodeInfo_init_def

lemma PInt_valid [simp]:
  "validate_uint64 (PInt i) = Inr j \<longleftrightarrow> 0 \<le> i \<and> i < 2 ^ 64 \<and> j = i"
  "validate_uint32 (PInt i) = Inr j \<longleftrightarrow> 0 \<le> i \<and> i < 2 ^ 32 \<and> j = i"
  by (auto simp: validate_uint64_def validate_uint32_def)

lemma decode_uint64_zero [simp]:
  "decode_uint64 (replicate 8 0 @ rest) = Inr 0" "decode_uint64 (replicate 8 0) = Inr 0"
  using decode_uint64_le_bytes [of 0 rest] decode_uint64_le_bytes [of 0 "[]"] by simp_all

lemma word_pair_eq_Inr:
  "word_pair a b = Inr bs \<longleftrightarrow>
     0 \<le> a \<and> a < 2 ^ 64 \<and> 0 \<le> b \<and> b < 2 ^ 64 \<and> bs = le_bytes 8 a @ le_bytes 8 b"
  by (auto simp: word_pair_def bindE_eq_Inr encode_uint64_eq_Inr)

lemma FailureResponse_encode_eq_Inr:
  assumes "FailureResponse_encode_body c m = Inr bs"
  obtains u where "0 \<le> c" "c < 2 ^ 64" "encode_text (PStr m) (Some MAX_FAILURE_MESSAGE_SIZE) = Inr u"
    "bs = le_bytes 8 c @ u"
  using assms by (auto simp: FailureResponse_encode_body_def bindE_eq_Inr encode_uint64_eq_Inr)

lemma FailureResponse_decode_encode:
  assumes "FailureResponse_encode_body c m = Inr bs"
  shows "FailureResponse_decode_body bs 0 = Inr (FailureResponse c (sanitize_server_text m))"
  using assms
proof (rule FailureResponse_encode_eq_Inr)
  fix u
  assume u: "0 \<le> c" "c < 2 ^ 64" "encode_text (PStr m) (Some MAX_FAILURE_MESSAGE_SIZE) = Inr u"
    "bs = le_bytes 8 c @ u"
  then show ?thesis
    using decode_text_field [OF u(3), of IsBytes Strict "[]"] encode_text_length [OF u(3)]
    by (auto simp: FailureResponse_decode_body_def FailureResponse_init_def)
qed

lemma LeaderResponse_decode_encode:
  assumes "LeaderResponse_encode_body n a = Inr bs"
  shows "LeaderResponse_decode_body bs 0 = Inr (LeaderResponse n a)"
proof -
  obtain u where u: "0 \<le> n" "n < 2 ^ 64" "encode_text (PStr a) (Some MAX_ADDRESS_SIZE) = Inr u"
    "bs = le_bytes 8 n @ u" "\<not> (n = 0 \<and> a \<noteq> [])"
    using assms by (auto simp: LeaderResponse_encode_body_def bindE_eq_Inr encode_uint64_eq_Inr split: if_splits)
  then show ?thesis
    using decode_text_field [OF u(3), of IsBytes Strict "[]"]
    by (auto simp: LeaderResponse_decode_body_def LeaderResponse_init_def)
qed

lemma stmt_decode_encode:
  assumes "StmtResponse_encode_body s = Inr bs" and "stmt_valid s"
  shows "StmtResponse_decode_body bs (stmt_get_schema s)
      = Inr (StmtResponse (s\<lparr>stmt_schema := Some (stmt_get_schema s)\<rparr>))
    \<and> stmt_valid (s\<lparr>stmt_schema := Some (stmt_get_schema s)\<rparr>)"
proof (cases s)
  case (fields db stmt n tail sc)
  have v: "0 \<le> db" "db < 2 ^ 32" "0 \<le> stmt" "stmt < 2 ^ 32" "0 \<le> n" "n < 2 ^ 64" "n \<le> int MAX_PARAM_COUNT"
    "\<And>t. tail = Some t \<Longrightarrow> 0 \<le> t \<and> t < 2 ^ 64 \<and> t \<le> int MAX_TAIL_OFFSET"
    "sc = None \<or> sc = Some 0 \<and> tail = None \<or> sc = Some 1 \<and> tail \<noteq> None"
    using assms(2) by (auto simp: stmt_valid_def StmtResponse_init_def fields bindE_eq_Inr not_less
        split: option.splits if_splits)
  have bs: "bs = le_bytes 4 db @ le_bytes 4 stmt @ le_bytes 8 n @ (case tail of None \<Rightarrow> [] | Some t \<Rightarrow> le_bytes 8 t)"
    using assms(1) v by (auto simp: StmtResponse_encode_body_def fields stmt_get_schema_def bindE_eq_Inr
        id_pair_eq_Inr encode_uint64_eq_Inr Let_def split: option.splits if_splits)
  show ?thesis
  proof (cases tail)
    case None
    then have "stmt_get_schema s = 0" using v(9) by (auto simp: stmt_get_schema_def fields)
    then show ?thesis
      using v None by (auto simp: StmtResponse_decode_body_def StmtResponse_init_def stmt_valid_def fields bs)
  next
    case (Some t)
    then have "stmt_get_schema s = 1" using v(9) by (auto simp: stmt_get_schema_def fields)
    then show ?thesis
      using v(1-7) v(8) [OF Some] Some
      by (auto simp: StmtResponse_decode_body_def StmtResponse_init_def stmt_valid_def fields bs)
  qed
qed

subsection \<open>Files\<close>

lemma decode_encode_files:
  assumes "encode_files fs = Inr bs" and "distinct (map fst (acc @ fs))"
    and "view = pre @ bs @ rest"
  shows "decode_files view (length fs) (length pre) acc = Inr (acc @ fs, length pre + length bs)"
  using assms
proof (induction fs arbitrary: bs pre acc)
  case (Cons f fs)
  obtain name content where f: "f = (name, content)" by (cases f)
  from Cons.prems(1) obtain u r where u: "encode_text (PStr name) (Some MAX_FILENAME_SIZE) = Inr u"
    and c: "length content mod 8 = 0" "length content \<le> MAX_FILE_CONTENT_SIZE" "int (length content) < 2 ^ 64"
    and r: "encode_files fs = Inr r"
    and bs: "bs = u @ le_bytes 8 (int (length content)) @ content @ r"
    by (auto simp: f bindE_eq_Inr encode_uint64_eq_Inr not_less split: if_splits)
  let ?pre = "pre @ u @ le_bytes 8 (int (length content)) @ content"
  have "decode_files view (length fs) (length ?pre) (acc @ [(name, content)])
      = Inr ((acc @ [(name, content)]) @ fs, length ?pre + length r)"
    using Cons.prems(2,3) by (intro Cons.IH [OF r]) (simp_all add: f bs)
  moreover have "name \<notin> fst ` set acc" using Cons.prems(2) by (auto simp: f)
  moreover have "int (length content) mod 8 = 0" using c(1) by presburger
  ultimately show ?case
    using c decode_text_field [OF u, of IsView Strict] Cons.prems(3)
    by (simp add: f bs add.assoc)
qed simp

lemma encode_files_length: "encode_files fs = Inr bs \<Longrightarrow> 16 * length fs \<le> length bs"
proof (induction fs arbitrary: bs)
  case (Cons f fs)
  then show ?case
    by (cases f) (fastforce simp: bindE_eq_Inr encode_uint64_eq_Inr dest: encode_text_length split: if_splits)
qed simp

lemma FilesResponse_decode_encode:
  assumes "FilesResponse_encode_body fs = Inr bs" and "distinct (map fst fs)"
  shows "FilesResponse_decode_body bs 0 = Inr (FilesResponse fs)"
proof -
  obtain body where b: "length fs \<le> MAX_FILE_COUNT" "encode_files fs = Inr body"
    "bs = le_bytes 8 (int (length fs)) @ body"
    using assms(1) by (auto simp: FilesResponse_encode_body_def bindE_eq_Inr encode_uint64_eq_Inr split: if_splits)
  have small: "int (length fs) < 2 ^ 64" using b(1) by (simp add: MAX_FILE_COUNT_def)
  have "decode_files bs (length fs) (length (le_bytes 8 (int (length fs)))) [] = Inr ([] @ fs, 8 + length body)"
    using decode_encode_files [OF b(2), of "[]" bs "le_bytes 8 (int (length fs))" "[]"] assms(2) b(3) by simp
  moreover have "length fs \<le> length body div 16" using encode_files_length [OF b(2)] by linarith
  ultimately show ?thesis
    using b small by (simp add: FilesResponse_decode_body_def zdiv_int)
qed

subsection \<open>Nodes\<close>

lemma node_validD:
  assumes "node_valid n"
  shows "0 < node_id n \<and> node_id n < 2 ^ 64 \<and> address n \<noteq> []"
    and "NodeInfo_init (PInt (node_id n)) (address n) (RoleEnum (role n)) = Inr n"
  using assms by (auto simp: node_valid_def NodeInfo_init_def bindE_eq_Inr split: if_splits)

lemma decode_role_word:
  "decode_uint64 (le_bytes 8 (node_role_code r) @ rest) = Inr (node_role_code r)"
  by (cases r) (simp_all del: le_bytes.simps)

lemma decode_encode_nodes:
  assumes "encode_nodes ns = Inr bs" and "list_all node_valid ns" and "distinct (map node_id ns)"
    and "set seen \<inter> set (map node_id ns) = {}" and "view = pre @ bs @ rest"
  shows "decode_nodes policy view (length ns) (length pre) seen acc = Inr (acc @ ns, length pre + length bs)"
  using assms
proof (induction ns arbitrary: bs pre seen acc)
  case (Cons n ns)
  from Cons.prems(1) obtain u r where u: "encode_text (PStr (address n)) (Some MAX_ADDRESS_SIZE) = Inr u"
    and r: "encode_nodes ns = Inr r"
    and bs: "bs = le_bytes 8 (node_id n) @ u @ le_bytes 8 (node_role_code (role n)) @ r"
    by (auto simp: bindE_eq_Inr encode_uint64_eq_Inr)
  note v = node_validD [of n]
  let ?pre = "pre @ le_bytes 8 (node_id n) @ u @ le_bytes 8 (node_role_code (role n))"
  have "decode_nodes policy view (length ns) (length ?pre) (node_id n # seen) (acc @ [n])
      = Inr ((acc @ [n]) @ ns, length ?pre + length r)"
    using Cons.prems(2-5) by (intro Cons.IH [OF r]) (auto simp: bs)
  moreover have "node_id n \<notin> set seen" using Cons.prems(4) by auto
  ultimately show ?case
    using v Cons.prems(2,5) decode_text_field [OF u, of IsView Strict]
    by (auto simp: bs add.assoc decode_role_word)
qed simp

lemma encode_nodes_length: "encode_nodes ns = Inr bs \<Longrightarrow> 24 * length ns \<le> length bs"
proof (induction ns arbitrary: bs)
  case (Cons n ns)
  then show ?case
    by (fastforce simp: bindE_eq_Inr encode_uint64_eq_Inr dest: encode_text_length)
qed simp

lemma ServersResponse_decode_encode:
  assumes "ServersResponse_encode_body ns = Inr bs" and "list_all node_valid ns"
    and "distinct (map node_id ns)" and "policy \<in> {''reject'', ''warn'', ''accept''}"
  shows "ServersResponse_decode_body policy bs 0 = Inr (ServersResponse ns)"
proof -
  obtain body where b: "length ns \<le> MAX_NODE_COUNT" "encode_nodes ns = Inr body"
    "bs = le_bytes 8 (int (length ns)) @ body"
    using assms(1) by (auto simp: ServersResponse_encode_body_def bindE_eq_Inr encode_uint64_eq_Inr split: if_splits)
  have small: "int (length ns) < 2 ^ 64" using b(1) by (simp add: MAX_NODE_COUNT_def)
  have "decode_nodes policy bs (length ns) (length (le_bytes 8 (int (length ns)))) [] [] = Inr ([] @ ns, 8 + length body)"
    using decode_encode_nodes [OF b(2) assms(2,3), of "[]" bs "le_bytes 8 (int (length ns))" "[]" policy "[]"] b(3)
    by simp
  moreover have "length ns \<le> length body div 24" using encode_nodes_length [OF b(2)] by linarith
  ultimately show ?thesis
    using b small assms(4) by (simp add: ServersResponse_decode_body_def zdiv_int)
qed

subsection \<open>All responses\<close>

lemma response_body_roundtrip:
  assumes "response_valid r" and "response_encode_body iso_ok r = Inr body"
    and "response_acceptable max_rows r" and "policy \<in> {''reject'', ''warn'', ''accept''}"
  shows "response_decode_body errors max_rows policy (response_MSG_TYPE r) body (response_get_schema r)
      = Inr (response_image r)
    \<and> response_valid (response_image r)"
proof (cases r)
  case (FailureResponse c m)
  then show ?thesis using assms by (auto simp: FailureResponse_decode_encode FailureResponse_init_def bindE_eq_Inr)
next
  case (LeaderResponse n a)
  then show ?thesis using assms by (simp add: LeaderResponse_decode_encode)
next
  case (StmtResponse s)
  then show ?thesis using assms stmt_decode_encode [of s body] by simp
next
  case (RowsResponse q)
  then show ?thesis using assms decode_encode_rows_response [of iso_ok q body max_rows errors] by simp
next
  case (FilesResponse fs)
  then show ?thesis using assms by (simp add: FilesResponse_decode_encode)
next
  case (ServersResponse ns)
  then show ?thesis using assms by (simp add: ServersResponse_decode_encode)
next
  case (DbResponse d)
  then show ?thesis
    using assms by (auto simp: DbResponse_encode_body_def DbResponse_decode_body_def id_pair_eq_Inr response_inits)
next
  case (ResultResponse a b)
  then show ?thesis
    using assms by (auto simp: ResultResponse_decode_body_def word_pair_eq_Inr response_inits split: if_splits)
next
  case (MetadataResponse a b)
  then show ?thesis using assms by (auto simp: MetadataResponse_decode_body_def word_pair_eq_Inr response_inits)
next
  case (WelcomeResponse t)
  then show ?thesis
    using assms by (auto simp: WelcomeResponse_decode_body_def encode_uint64_eq_Inr response_inits)
next
  case EmptyResponse
  then show ?thesis
    using assms by (auto simp: EmptyResponse_decode_body_def encode_uint64_eq_Inr)
qed

lemma stmt_get_schema_image [simp]:
  "stmt_get_schema (s\<lparr>stmt_schema := Some (stmt_get_schema s)\<rparr>) = stmt_get_schema s"
  by (simp add: stmt_get_schema_def)

lemma stmt_encode_image:
  "StmtResponse_encode_body (s\<lparr>stmt_schema := Some (stmt_get_schema s)\<rparr>) = StmtResponse_encode_body s"
  by (simp add: StmtResponse_encode_body_def cong: if_cong)

lemma response_image_frame [simp]:
  "response_get_schema (response_image r) = response_get_schema r"
  "response_MSG_TYPE (response_image r) = response_MSG_TYPE r"
  by (cases r; simp)+

lemma response_encode_image:
  assumes "response_encode_body iso_ok r = Inr body"
    and "\<forall>c m. r = FailureResponse c m \<longrightarrow> sanitize_server_text m = m"
  shows "response_encode_body iso_ok (response_image r) = Inr body"
  using assms by (cases r) (simp_all add: rows_reencode_body stmt_encode_image)

subsection \<open>Decoding errors\<close>

lemma init_decoded [simp]:
  "decode_uint64 data = Inr i \<Longrightarrow> LeaderResponse_init (PInt i) a = Inr (LeaderResponse i a)"
  "decode_uint64 data = Inr i \<Longrightarrow> FailureResponse_init (PInt i) a = Inr (FailureResponse i a)"
  "decode_uint64 data = Inr i \<Longrightarrow> WelcomeResponse_init (PInt i) = Inr (WelcomeResponse i)"
  "decode_uint32 data = Inr i \<Longrightarrow> DbResponse_init (PInt i) = Inr (DbResponse i)"
  "decode_uint64 data = Inr i \<Longrightarrow> i \<noteq> 0 \<Longrightarrow> a \<noteq> [] \<Longrightarrow>
     NodeInfo_init (PInt i) a (RoleEnum ro) = Inr \<lparr>node_id = i, address = a, role = ro\<rparr>"
  by (simp_all add: response_inits)

lemma LeaderResponse_init_zero [simp]: "LeaderResponse_init (PInt 0) a = Inr (LeaderResponse 0 a)"
  by (simp add: LeaderResponse_init_def)

lemma trailing_record_range:
  assumes "trailing_record data n = Inr (Some (c, m))"
  shows "0 \<le> c \<and> c < 2 ^ 64"
proof -
  obtain d where "decode_uint64 d = Inr c"
    using assms by (auto simp: trailing_record_def bindE_eq_Inr split: if_splits)
  then show ?thesis by (rule decode_uint64_range)
qed

lemma trailing_record_error: "trailing_record data n = Inl e \<Longrightarrow> is_DecodeError e"
  by (auto simp: trailing_record_def bindE_eq_Inl dest: decode_errors strict_text.decode_each_error split: if_splits)

lemma recover_never_raises [simp]: "recover_trailing_failure_record data n \<noteq> Inl e"
  by (auto simp: recover_trailing_failure_record_def dest: trailing_record_error split: sum.splits)

lemma recover_range:
  "recover_trailing_failure_record data n = Inr (Some (c, m)) \<Longrightarrow> 0 \<le> c \<and> c < 2 ^ 64"
  by (auto simp: recover_trailing_failure_record_def dest: trailing_record_range split: if_splits sum.splits)

lemma FailureResponse_init_range:
  "0 \<le> c \<and> c < 2 ^ 64 \<Longrightarrow> FailureResponse_init (PInt c) m = Inr (FailureResponse c m)"
  by (simp add: FailureResponse_init_def)

lemma FailureResponse_decode_error:
  assumes "FailureResponse_decode_body data sc = Inl e" and "\<not> huge_int sc"
  shows "is_DecodeError e"
proof (cases "sc = 0 \<and> 9 \<le> length data")
  case False
  then show ?thesis using assms by (auto simp: shown_error_eq FailureResponse_decode_body_def split: if_splits)
next
  case True
  then obtain code where code: "decode_uint64 (take 8 data) = Inr code" by (simp add: decode_uint64_def)
  note init = FailureResponse_init_range [OF decode_uint64_range [OF code]]
  show ?thesis
  proof (cases "decode_text IsBytes Strict MAX_FAILURE_MESSAGE_SIZE (drop 8 data)")
    case (Inl e')
    then show ?thesis using assms True code decode_text_strict_error
      by (simp add: FailureResponse_decode_body_def)
  next
    case (Inr mc)
    then obtain message consumed where
      m: "decode_text IsBytes Strict MAX_FAILURE_MESSAGE_SIZE (drop 8 data) = Inr (message, consumed)"
      by (cases mc) simp
    obtain recovered where rec: "recover_trailing_failure_record data code = Inr recovered"
      by (cases "recover_trailing_failure_record data code") simp_all
    show ?thesis
    proof (cases recovered)
      case None
      then show ?thesis using assms True code m rec init
        by (cases "8 + consumed = length data") (simp_all add: FailureResponse_decode_body_def)
    next
      case (Some cm)
      then show ?thesis
        using assms True code m rec init FailureResponse_init_range [OF recover_range [of data code "fst cm" "snd cm"]]
        by (cases "8 + consumed = length data") (simp_all add: FailureResponse_decode_body_def case_prod_beta)
    qed
  qed
qed

lemma decode_files_error: "decode_files view n offset files = Inl e \<Longrightarrow> is_DecodeError e"
  by (induction view n offset files rule: decode_files.induct)
    (auto simp: bindE_eq_Inl Let_def dest: decode_errors split: if_splits)

lemma decode_nodes_error: "decode_nodes policy view n offset seen nodes = Inl e \<Longrightarrow> is_DecodeError e"
proof (induction n arbitrary: offset seen nodes)
  case (Suc n)
  then show ?case
    by (auto simp: bindE_eq_Inl dest: decode_errors split: if_splits option.splits)
qed simp

lemma StmtResponse_decode_error:
  "StmtResponse_decode_body data sc = Inl e \<Longrightarrow> \<not> huge_int sc \<Longrightarrow> is_DecodeError e"
  by (auto simp: shown_error_eq StmtResponse_decode_body_def StmtResponse_init_def bindE_eq_Inl bindE_eq_Inr
      dest: decode_errors split: if_splits option.splits)

lemma ResultResponse_decode_error:
  "ResultResponse_decode_body data sc = Inl e \<Longrightarrow> \<not> huge_int sc \<Longrightarrow> is_DecodeError e"
  by (auto simp: shown_error_eq ResultResponse_decode_body_def ResultResponse_init_def bindE_eq_Inl
      dest: decode_errors split: if_splits)

lemma response_decode_error:
  assumes "response_decode_body Strict max_rows policy rt data sc = Inl e" and "\<not> huge_int sc"
  shows "is_DecodeError e"
  using assms
  by (cases rt) (auto simp: shown_error_eq LeaderResponse_decode_body_def WelcomeResponse_decode_body_def
      DbResponse_decode_body_def EmptyResponse_decode_body_def FilesResponse_decode_body_def
      ServersResponse_decode_body_def MetadataResponse_decode_body_def MetadataResponse_init_def bindE_eq_Inl
      dest: decode_errors FailureResponse_decode_error StmtResponse_decode_error ResultResponse_decode_error
        RowsResponse_decode_error decode_files_error decode_nodes_error split: if_splits)

lemma response_decode_huge:
  assumes "huge_int sc"
  shows "response_decode_body errors max_rows policy rt data sc = Inl ValueError"
  using assms huge_int_neq [OF assms]
  by (cases rt) (simp_all add: shown_error_eq FailureResponse_decode_body_def LeaderResponse_decode_body_def
      WelcomeResponse_decode_body_def StmtResponse_decode_body_def ResultResponse_decode_body_def
      DbResponse_decode_body_def EmptyResponse_decode_body_def FilesResponse_decode_body_def
      ServersResponse_decode_body_def MetadataResponse_decode_body_def RowsResponse_decode_body_def)

subsection \<open>The failure record behind a rows header\<close>

lemma decode_text_names:
  assumes "encode_names names = Inr ns"
  shows "decode_each (\<lambda>_. decode_text IsBytes Strict MAX_COLUMN_NAME_SIZE) (replicate (length names) ())
      (pre @ ns @ rest) (length pre) = Inr (names, length pre + length ns)"
proof -
  have "map2 (\<lambda>_ s. s) (replicate (length names) ()) names = names"
    by (induction names) simp_all
  then show ?thesis
    using text_field.decode_each_encode_each [OF assms [unfolded encode_names_def], of "pre @ ns @ rest" pre rest IsBytes Strict]
    by simp
qed

lemma encode_text_cap_mono:
  "encode_text v (Some a) = Inr bs \<Longrightarrow> a \<le> b \<Longrightarrow> encode_text v (Some b) = Inr bs"
  by (auto simp: encode_text_eq_Inr)

lemma recover_encoded:
  assumes "encode_names names = Inr ns" and "length names \<le> MAX_COLUMN_COUNT"
    and "FailureResponse_encode_body c m = Inr fb"
  shows "recover_trailing_failure_record (le_bytes 8 (int (length names)) @ ns @ fb) (int (length names))
    = Inr (Some (c, m))"
  using assms(3)
proof (rule FailureResponse_encode_eq_Inr)
  fix u
  assume u: "0 \<le> c" "c < 2 ^ 64" "encode_text (PStr m) (Some MAX_FAILURE_MESSAGE_SIZE) = Inr u"
    "fb = le_bytes 8 c @ u"
  have "8 \<le> length u" using encode_text_length [OF u(3)] by simp
  moreover have "u \<noteq> []" using calculation by auto
  ultimately show ?thesis
    using u assms(2) decode_text_names [OF assms(1), of "le_bytes 8 (int (length names))" fb]
      decode_text_field [OF u(3), of IsBytes Strict "[]"]
    by (simp add: recover_trailing_failure_record_def trailing_record_def)
qed

lemma FailureResponse_decode_recovers:
  assumes "encode_names names = Inr ns" and "names \<noteq> []" and "length names \<le> MAX_COLUMN_COUNT"
    and "FailureResponse_encode_body c m = Inr fb"
  shows "FailureResponse_decode_body (le_bytes 8 (int (length names)) @ ns @ fb) 0
    = Inr (FailureResponse c (sanitize_server_text m))"
proof -
  let ?n = "int (length names)"
  obtain n1 names' where names: "names = n1 # names'" using assms(2) by (cases names) auto
  then obtain u ns' where u: "encode_text (PStr n1) (Some MAX_COLUMN_NAME_SIZE) = Inr u" and ns: "ns = u @ ns'"
    using assms(1) by (auto simp: encode_names_def text_field_def bindE_eq_Inr)
  have "encode_text (PStr n1) (Some MAX_FAILURE_MESSAGE_SIZE) = Inr u"
    using u by (rule encode_text_cap_mono) (simp add: MAX_COLUMN_NAME_SIZE_def MAX_FAILURE_MESSAGE_SIZE_def)
  from decode_text_field [OF this, of IsBytes Strict "ns' @ fb"]
  have first: "decode_text IsBytes Strict MAX_FAILURE_MESSAGE_SIZE (ns @ fb) = Inr (n1, length u)"
    by (simp add: ns)
  have count: "decode_uint64 (le_bytes 8 ?n) = Inr ?n"
    using assms(3) decode_uint64_le_bytes [of ?n "[]"] by (simp add: MAX_COLUMN_COUNT_def)
  have fb: "9 \<le> length fb" "0 \<le> c \<and> c < 2 ^ 64"
    using assms(4) by (auto elim!: FailureResponse_encode_eq_Inr dest: encode_text_length)
  have "fb \<noteq> []" using fb(1) by auto
  then show ?thesis
    using first count fb recover_encoded [OF assms(1,3,4)] FailureResponse_init_range [OF fb(2)]
    by (simp add: FailureResponse_decode_body_def) (simp add: ns)
qed

section \<open>Properties\<close>

text \<open>
  C14 (response_roundtrip): every constructible response the encoder accepts is decoded by its
  class from the body and schema byte it was sent with, to the response up to its wire image:
  a failure message sanitised, a statement reply with its schema recorded, a result set with
  its types.  The decoder asks two things more than the encoder: fewer rows than its cap, and
  distinct node ids.
\<close>

theorem response_roundtrip:
  assumes "response_valid r" and "response_encode iso_ok r = Inr bs"
    and "response_acceptable max_rows r" and "policy \<in> {''reject'', ''warn'', ''accept''}"
  shows "response_decode_body errors max_rows policy (response_MSG_TYPE r) (drop HEADER_SIZE bs)
      (response_get_schema r) = Inr (response_image r)
    \<and> response_valid (response_image r)"
proof -
  obtain body w where b: "response_encode_body iso_ok r = Inr body"
    "bs = header_bytes w (response_type_code (response_MSG_TYPE r)) (response_get_schema r) @ body"
    using assms(2) by (auto simp: response_encode_def message_encode_eq_Inr)
  show ?thesis
    using response_body_roundtrip [OF assms(1) b(1) assms(3,4)] by (simp add: b(2))
qed

theorem response_roundtrip_witness:
  "response_decode_body Strict 10 ''reject'' RS_SERVERS
     [1, 0, 0, 0, 0, 0, 0, 0, 3, 0, 0, 0, 0, 0, 0, 0, 97, 58, 49, 0, 0, 0, 0, 0, 2, 0, 0, 0, 0, 0, 0, 0] 0
   = Inr (ServersResponse [\<lparr>node_id = 3, address = [97, 58, 49], role = SPARE\<rparr>])"
proof -
  let ?r = "ServersResponse [\<lparr>node_id = 3, address = [97, 58, 49], role = SPARE\<rparr>]"
  have v: "response_valid ?r" by code_simp
  have e: "response_encode (\<lambda>_. True) ?r = Inr
     [4, 0, 0, 0, 3, 0, 0, 0,
      1, 0, 0, 0, 0, 0, 0, 0, 3, 0, 0, 0, 0, 0, 0, 0, 97, 58, 49, 0, 0, 0, 0, 0, 2, 0, 0, 0, 0, 0, 0, 0]"
    by code_simp
  from response_roundtrip [OF v e, of 10 "''reject''" Strict] show ?thesis by simp
qed

text \<open>
  A response decoded from a frame this package wrote encodes to the
  identical frame again; for a failure this needs a message that sanitising leaves alone.
\<close>

theorem response_reencode:
  assumes "response_encode iso_ok r = Inr bs"
    and "\<forall>c m. r = FailureResponse c m \<longrightarrow> sanitize_server_text m = m"
  shows "response_encode iso_ok (response_image r) = Inr bs"
  using assms response_encode_image [OF _ assms(2)]
  by (auto simp: response_encode_def message_encode_eq_Inr)

theorem response_reencode_witness:
  "response_encode (\<lambda>_. True)
     (StmtResponse \<lparr>stmt_db = 1, stmt_statement = 2, num_params = 3, tail_offset = None, stmt_schema = Some 0\<rparr>)
   = Inr [2, 0, 0, 0, 5, 0, 0, 0, 1, 0, 0, 0, 2, 0, 0, 0, 3, 0, 0, 0, 0, 0, 0, 0]"
proof -
  let ?r = "StmtResponse \<lparr>stmt_db = 1, stmt_statement = 2, num_params = 3, tail_offset = None, stmt_schema = None\<rparr>"
  have "response_encode (\<lambda>_. True) ?r = Inr [2, 0, 0, 0, 5, 0, 0, 0, 1, 0, 0, 0, 2, 0, 0, 0, 3, 0, 0, 0, 0, 0, 0, 0]"
    by code_simp
  from response_reencode [OF this] show ?thesis by (simp add: stmt_get_schema_def)
qed

text \<open>
  C32 (response_decode_safe): decoding a response body of any type from any bytes under the
  strict text handler raises nothing but \<^verbatim>\<open>DecodeError\<close>, except for a schema argument of more
  than 4300 digits, which no header can carry.
\<close>

theorem response_decode_safe:
  "case response_decode_body Strict max_rows policy rt data sc of
     Inl e \<Rightarrow> if huge_int sc then e = ValueError else is_DecodeError e
   | Inr r \<Rightarrow> \<not> huge_int sc"
  using response_decode_error [of max_rows policy rt data sc] response_decode_huge [of sc Strict max_rows policy rt data]
  by (auto split: sum.splits)

text \<open>
  C33 (failure_recovered): when a server fails while stepping rows it frames the header of the
  rows it had begun (column count and names) and the failure record behind it as one failure
  body.  The decoder reports the code and message of the real record, not the column count
  and the first name.
\<close>

theorem failure_recovered:
  assumes "encode_names names = Inr ns" and "names \<noteq> []" and "length names \<le> MAX_COLUMN_COUNT"
    and "FailureResponse_encode_body c m = Inr fb"
  shows "FailureResponse_decode_body (le_bytes 8 (int (length names)) @ ns @ fb) 0
    = Inr (FailureResponse c (sanitize_server_text m))"
  using assms by (rule FailureResponse_decode_recovers)

theorem failure_recovered_witness:
  "FailureResponse_decode_body
     ([1, 0, 0, 0, 0, 0, 0, 0] @ [120, 0, 0, 0, 0, 0, 0, 0] @ [19, 0, 0, 0, 0, 0, 0, 0, 98, 97, 100, 0, 0, 0, 0, 0]) 0
   = Inr (FailureResponse 19 [98, 97, 100])"
proof -
  have n: "encode_names [[120]] = Inr [120, 0, 0, 0, 0, 0, 0, 0]" by code_simp
  have f: "FailureResponse_encode_body 19 [98, 97, 100] = Inr [19, 0, 0, 0, 0, 0, 0, 0, 98, 97, 100, 0, 0, 0, 0, 0]"
    by code_simp
  have c: "le_bytes 8 (int (length [[120 :: nat]])) = [1, 0, 0, 0, 0, 0, 0, 0]" by code_simp
  have s: "sanitize_server_text [98, 97, 100] = [98, 97, 100]" by code_simp
  from failure_recovered [OF n _ _ f] show ?thesis unfolding c s by (simp add: MAX_COLUMN_COUNT_def)
qed

text \<open>
  The legacy leader body carries an address only; what is encoded for it
  is decoded with node id 0, and the modern encoder refuses exactly the pair (id 0, an
  address) which the modern decoder would refuse.
\<close>

theorem leader_legacy:
  "(\<forall>bs. LeaderResponse_encode_body_legacy n a = Inr bs \<longrightarrow>
       LeaderResponse_decode_body_legacy bs = Inr (LeaderResponse 0 a))
   \<and> (n = 0 \<and> a \<noteq> [] \<longrightarrow> \<not> returns (LeaderResponse_encode_body n a))"
proof -
  have "LeaderResponse_decode_body_legacy bs = Inr (LeaderResponse 0 a)"
    if "LeaderResponse_encode_body_legacy n a = Inr bs" for bs
  proof -
    have e: "encode_text (PStr a) (Some MAX_ADDRESS_SIZE) = Inr bs"
      using that by (auto simp: LeaderResponse_encode_body_legacy_def split: if_splits)
    show ?thesis
      using decode_text_field [OF e, of IsBytes Strict "[]"] encode_text_length [OF e]
      by (auto simp: LeaderResponse_decode_body_legacy_def)
  qed
  then show ?thesis by (simp add: LeaderResponse_encode_body_def)
qed

theorem leader_legacy_witness:
  "LeaderResponse_decode_body_legacy [97, 58, 49, 0, 0, 0, 0, 0] = Inr (LeaderResponse 0 [97, 58, 49])
   \<and> \<not> returns (LeaderResponse_encode_body 0 [97, 58, 49])"
proof -
  have "LeaderResponse_encode_body_legacy 0 [97, 58, 49] = Inr [97, 58, 49, 0, 0, 0, 0, 0]" by code_simp
  then show ?thesis using leader_legacy [of 0 "[97, 58, 49]"] by simp
qed

end
