(* ===== verification/Buffer.thy ===== *)
theory Buffer
  imports Message_Base
begin

text \<open>
  \<^verbatim>\<open>src/dqlitewire/buffer.py\<close>: \<^verbatim>\<open>ReadBuffer\<close>, which cuts a byte stream into frames.  Every
  method is a function of the buffer that returns its result (or exception) and the buffer
  after the call.  The \<^verbatim>\<open>except BaseException\<close> clauses guard against asynchronous
  interruption inside a method and have no counterpart here: an operation is atomic.

  The specification is the interface \<open>byte_stream\<close>: bytes fed are appended, frames read are
  cut off the front.  Inside it every interleaving of feeds and reads is shown to neither
  lose, repeat nor reorder a byte; \<open>ReadBuffer\<close> is an instance by the abstraction function
  \<open>pending\<close>, whatever it does with positions and compaction.
\<close>

section \<open>Definitions\<close>

subsection \<open>State\<close>

record read_buffer =
  buf_data :: bytes
  buf_pos :: nat
  max_message_size :: nat
  skip_remaining :: nat
  poisoned :: "exc option"
  poison_after_skip :: "exc option"

type_synonym 'a buffer_op = "read_buffer \<Rightarrow> 'a result \<times> read_buffer"

definition COMPACT_THRESHOLD :: nat where
  "COMPACT_THRESHOLD = 4096"

definition DEFAULT_MAX_MESSAGE_SIZE :: int where
  "DEFAULT_MAX_MESSAGE_SIZE = 64 * 1024 * 1024"

definition MAX_MESSAGE_SIZE_CEILING :: int where
  "MAX_MESSAGE_SIZE_CEILING = 0xFFFFFFFF"

definition buffer_init :: "int \<Rightarrow> read_buffer result" where
  "buffer_init size_cap =
     (if size_cap < 1 then Inl ValueError
      else if MAX_MESSAGE_SIZE_CEILING < size_cap then Inl ValueError
      else
        Inr \<lparr>buf_data = [], buf_pos = 0, max_message_size = nat size_cap, skip_remaining = 0,
             poisoned = None, poison_after_skip = None\<rparr>)"

definition is_poisoned :: "read_buffer \<Rightarrow> bool" where
  "is_poisoned b = (poisoned b \<noteq> None)"

definition buffer_poison :: "exc \<Rightarrow> read_buffer \<Rightarrow> read_buffer" where
  "buffer_poison err b = (if poisoned b = None then b\<lparr>poisoned := Some err\<rparr> else b)"

definition buffer_reset :: "read_buffer \<Rightarrow> read_buffer" where
  "buffer_reset b =
     b\<lparr>buf_data := [], buf_pos := 0, skip_remaining := 0, poisoned := None, poison_after_skip := None\<rparr>"

definition buffer_clear :: "read_buffer \<Rightarrow> read_buffer" where
  "buffer_clear b = buffer_reset b"

definition check_poisoned :: "read_buffer \<Rightarrow> unit result" where
  "check_poisoned b = (case poisoned b of None \<Rightarrow> Inr () | Some e \<Rightarrow> Inl (PoisonedError e))"

definition available :: "read_buffer \<Rightarrow> nat" where
  "available b = length (buf_data b) - buf_pos b"

definition is_skipping :: "read_buffer \<Rightarrow> bool" where
  "is_skipping b = (0 < skip_remaining b)"

text \<open>The bytes not yet consumed: the abstract state of the buffer.\<close>

definition pending :: "read_buffer \<Rightarrow> bytes" where
  "pending b = drop (buf_pos b) (buf_data b)"

definition maybe_compact :: "read_buffer \<Rightarrow> read_buffer" where
  "maybe_compact b =
     (if buf_pos b \<le> COMPACT_THRESHOLD then b
      else if buf_pos b < length (buf_data b) div 2 then b
      else b\<lparr>buf_data := drop (buf_pos b) (buf_data b), buf_pos := 0\<rparr>)"

subsection \<open>Feeding\<close>

text \<open>Both size checks of \<^verbatim>\<open>feed\<close> reject in the same way.\<close>

definition reject_feed :: "exc \<Rightarrow> unit buffer_op" where
  "reject_feed err b =
     (Inl err,
      if 0 < skip_remaining b \<or> 0 < available b then
        buffer_poison err
          (if 0 < skip_remaining b then b\<lparr>skip_remaining := 0, poison_after_skip := None\<rparr> else b)
      else b)"

definition extend :: "bytes \<Rightarrow> read_buffer \<Rightarrow> read_buffer" where
  "extend data b = (let c = maybe_compact b in c\<lparr>buf_data := buf_data c @ data\<rparr>)"

definition feed :: "bytes \<Rightarrow> unit buffer_op" where
  "feed data b = (case check_poisoned b of
     Inl e \<Rightarrow> (Inl e, b)
   | Inr _ \<Rightarrow>
       if 2 * max_message_size b < length data then reject_feed (DecodeError Oversized) b
       else
         (let effective_len = (if 0 < skip_remaining b then length data - skip_remaining b else length data);
              projected = available b + effective_len
          in if max_message_size b < projected then reject_feed (DecodeError Oversized) b
             else if 0 < skip_remaining b then
               (let discard = min (length data) (skip_remaining b);
                    data' = drop discard data;
                    b1 = b\<lparr>skip_remaining := skip_remaining b - discard\<rparr>;
                    b2 = (if skip_remaining b1 = 0 \<and> poison_after_skip b1 \<noteq> None
                          then b1\<lparr>poisoned := poison_after_skip b1, poison_after_skip := None\<rparr>
                          else b1)
                in (Inr (), if data' = [] then b2 else extend data' b2))
             else (Inr (), extend data b)))"

subsection \<open>Reading\<close>

definition header_words :: "read_buffer \<Rightarrow> nat" where
  "header_words b = le_nat (take 4 (drop (buf_pos b) (buf_data b)))"

definition check_torn_size :: "nat \<Rightarrow> unit buffer_op" where
  "check_torn_size words b =
     (if 0xFFFFFFFF < words then (Inl (DecodeError Torn), buffer_poison (DecodeError Torn) b)
      else (Inr (), b))"

definition has_message :: "read_buffer \<Rightarrow> bool" where
  "has_message b =
     (if available b < HEADER_SIZE then False
      else
        (let words = header_words b in
         if 0xFFFFFFFF < words then True
         else
           (let total_size = HEADER_SIZE + words * WORD_SIZE in
            if max_message_size b < total_size then True else total_size \<le> available b)))"

definition peek_header :: "(nat \<times> nat \<times> nat) option buffer_op" where
  "peek_header b = (case check_poisoned b of
     Inl e \<Rightarrow> (Inl e, b)
   | Inr _ \<Rightarrow>
       if available b < HEADER_SIZE then (Inr None, b)
       else
         (let words = header_words b in
          case check_torn_size words b of
            (Inl e, b') \<Rightarrow> (Inl e, b')
          | (Inr _, b') \<Rightarrow>
              if max_message_size b < HEADER_SIZE + words * WORD_SIZE then (Inl (DecodeError Oversized), b')
              else
                (Inr (Some (words, unat (buf_data b ! (buf_pos b + 4)), unat (buf_data b ! (buf_pos b + 5)))), b')))"

text \<open>\<^verbatim>\<open>self._pos += n; self._maybe_compact()\<close>.\<close>

definition advance :: "nat \<Rightarrow> read_buffer \<Rightarrow> read_buffer" where
  "advance n b = maybe_compact (b\<lparr>buf_pos := buf_pos b + n\<rparr>)"

definition read_message :: "bytes option buffer_op" where
  "read_message b = (case check_poisoned b of
     Inl e \<Rightarrow> (Inl e, b)
   | Inr _ \<Rightarrow>
       if available b < HEADER_SIZE then (Inr None, b)
       else
         (let words = header_words b in
          case check_torn_size words b of
            (Inl e, b') \<Rightarrow> (Inl e, b')
          | (Inr _, b') \<Rightarrow>
              (let total_size = HEADER_SIZE + words * WORD_SIZE in
               if max_message_size b < total_size then (Inl (DecodeError Oversized), b')
               else if available b < total_size then (Inr None, b')
               else (Inr (Some (take total_size (drop (buf_pos b) (buf_data b)))), advance total_size b'))))"

definition skip_message :: "bool buffer_op" where
  "skip_message b = (case check_poisoned b of
     Inl e \<Rightarrow> (Inl e, b)
   | Inr _ \<Rightarrow>
       if available b < HEADER_SIZE then (Inr False, b)
       else
         (let words = header_words b in
          case check_torn_size words b of
            (Inl e, b') \<Rightarrow> (Inl e, b')
          | (Inr _, b') \<Rightarrow>
              (let total_size = HEADER_SIZE + words * WORD_SIZE in
               if total_size \<le> max_message_size b \<and> available b < total_size then (Inr False, b')
               else if total_size \<le> max_message_size b then
                 (let b2 = advance total_size b' in (Inr (skip_remaining b2 = 0), b2))
               else
                 (let effective_total = min total_size (max_message_size b);
                      skip_now = min effective_total (available b);
                      b1 = b'\<lparr>buf_pos := buf_pos b' + skip_now, skip_remaining := effective_total - skip_now\<rparr>
                  in if effective_total < total_size then
                       (if skip_remaining b1 = 0 then
                          (Inr False, maybe_compact (buffer_poison (DecodeError Desync) b1))
                        else
                          (let b2 = maybe_compact (b1\<lparr>poison_after_skip := Some (DecodeError Desync)\<rparr>)
                           in (Inr (skip_remaining b2 = 0), b2)))
                     else (let b2 = maybe_compact b1 in (Inr (skip_remaining b2 = 0), b2))))))"

definition read_bytes :: "int \<Rightarrow> bytes option buffer_op" where
  "read_bytes n b =
     (if n < 0 then (Inl ValueError, b)
      else (case check_poisoned b of
        Inl e \<Rightarrow> (Inl e, b)
      | Inr _ \<Rightarrow>
          if available b < nat n then (Inr None, b)
          else (Inr (Some (take (nat n) (drop (buf_pos b) (buf_data b)))), advance (nat n) b)))"

definition peek_bytes :: "int \<Rightarrow> read_buffer \<Rightarrow> bytes option result" where
  "peek_bytes n b =
     (if n < 0 then Inl ValueError
      else bindE (check_poisoned b) (\<lambda>_.
        if available b < nat n then Inr None
        else Inr (Some (take (nat n) (drop (buf_pos b) (buf_data b))))))"

subsection \<open>Frames\<close>

definition is_frame :: "bytes \<Rightarrow> bool" where
  "is_frame f = (HEADER_SIZE \<le> length f \<and> length f = HEADER_SIZE + le_nat (take 4 f) * WORD_SIZE)"

text \<open>A caller of the buffer: it feeds what the socket delivers and reads when it likes.\<close>

datatype stream_event = Feed bytes | Read

fun fed :: "stream_event list \<Rightarrow> bytes" where
  "fed [] = []"
| "fed (Feed d # es) = d @ fed es"
| "fed (Read # es) = fed es"

text \<open>What was read (frames, or decoded messages), in order, with the state at the end; or the first exception.\<close>

fun run_stream ::
  "(bytes \<Rightarrow> 's \<Rightarrow> unit result \<times> 's) \<Rightarrow> ('s \<Rightarrow> 'm option result \<times> 's)
    \<Rightarrow> stream_event list \<Rightarrow> 's \<Rightarrow> ('m list \<times> 's) result"
where
  "run_stream fd rd [] s = Inr ([], s)"
| "run_stream fd rd (Feed d # es) s = (case fd d s of
     (Inl e, s') \<Rightarrow> Inl e
   | (Inr _, s') \<Rightarrow> run_stream fd rd es s')"
| "run_stream fd rd (Read # es) s = (case rd s of
     (Inl e, s') \<Rightarrow> Inl e
   | (Inr None, s') \<Rightarrow> run_stream fd rd es s'
   | (Inr (Some f), s') \<Rightarrow> bindE (run_stream fd rd es s') (\<lambda>(fs, s''). Inr (f # fs, s'')))"

subsection \<open>The invariant\<close>

definition buffer_inv :: "read_buffer \<Rightarrow> bool" where
  "buffer_inv b =
     (buf_pos b \<le> length (buf_data b)
      \<and> 1 \<le> max_message_size b
      \<and> available b \<le> max_message_size b
      \<and> (buf_pos b \<le> COMPACT_THRESHOLD \<or> buf_pos b \<le> length (buf_data b) div 2)
      \<and> (0 < skip_remaining b \<longrightarrow> available b = 0 \<and> poison_after_skip b \<noteq> None)
      \<and> (skip_remaining b = 0 \<longrightarrow> poison_after_skip b = None))"

text \<open>The calls an owner can make that change the buffer, and the buffers they lead to.\<close>

datatype buffer_call =
    CallFeed bytes | CallRead | CallSkip | CallReadBytes int | CallPeek | CallPoison exc | CallReset

fun buffer_step :: "buffer_call \<Rightarrow> read_buffer \<Rightarrow> read_buffer" where
  "buffer_step (CallFeed d) b = snd (feed d b)"
| "buffer_step CallRead b = snd (read_message b)"
| "buffer_step CallSkip b = snd (skip_message b)"
| "buffer_step (CallReadBytes n) b = snd (read_bytes n b)"
| "buffer_step CallPeek b = snd (peek_header b)"
| "buffer_step (CallPoison e) b = buffer_poison e b"
| "buffer_step CallReset b = buffer_reset b"

inductive buffer_reachable :: "int \<Rightarrow> read_buffer \<Rightarrow> bool" for size_cap where
  init: "buffer_init size_cap = Inr b \<Longrightarrow> buffer_reachable size_cap b"
| step: "buffer_reachable size_cap b \<Longrightarrow> buffer_reachable size_cap (buffer_step c b)"

text \<open>A buffer outside of errors; a buffer that can no longer deliver a frame without a reset.\<close>

definition buffer_ready :: "read_buffer \<Rightarrow> bool" where
  "buffer_ready b = (buffer_inv b \<and> poisoned b = None \<and> skip_remaining b = 0)"

definition doomed :: "read_buffer \<Rightarrow> bool" where
  "doomed b = (poisoned b \<noteq> None \<or> 0 < skip_remaining b)"

section \<open>Lemmas\<close>

subsection \<open>Compaction\<close>

lemma length_pending: "length (pending b) = available b"
  by (simp add: pending_def available_def)

lemma pending_maybe_compact [simp]: "pending (maybe_compact b) = pending b"
  by (simp add: pending_def maybe_compact_def)

lemma available_maybe_compact [simp]: "available (maybe_compact b) = available b"
  by (metis length_pending pending_maybe_compact)

lemma maybe_compact_fields [simp]:
  "max_message_size (maybe_compact b) = max_message_size b"
  "skip_remaining (maybe_compact b) = skip_remaining b"
  "poisoned (maybe_compact b) = poisoned b"
  "poison_after_skip (maybe_compact b) = poison_after_skip b"
  by (simp_all add: maybe_compact_def)

lemma maybe_compact_pos:
  assumes "buf_pos b \<le> length (buf_data b)"
  shows "buf_pos (maybe_compact b) \<le> length (buf_data (maybe_compact b))"
    and "buf_pos (maybe_compact b) \<le> COMPACT_THRESHOLD
      \<or> buf_pos (maybe_compact b) \<le> length (buf_data (maybe_compact b)) div 2"
  using assms by (auto simp: maybe_compact_def)

lemma extend_fields [simp]:
  "max_message_size (extend d b) = max_message_size b" "skip_remaining (extend d b) = skip_remaining b"
  "poisoned (extend d b) = poisoned b" "poison_after_skip (extend d b) = poison_after_skip b"
  by (simp_all add: extend_def Let_def)

lemma pending_extend:
  assumes "buf_pos b \<le> length (buf_data b)"
  shows "pending (extend d b) = pending b @ d"
proof -
  have "pending (extend d b) = pending (maybe_compact b) @ d"
    using maybe_compact_pos(1) [OF assms] by (simp add: pending_def extend_def Let_def)
  then show ?thesis by simp
qed

lemma extend_pos:
  assumes "buf_pos b \<le> length (buf_data b)"
  shows "buf_pos (extend d b) \<le> length (buf_data (extend d b))"
    and "buf_pos (extend d b) \<le> COMPACT_THRESHOLD \<or> buf_pos (extend d b) \<le> length (buf_data (extend d b)) div 2"
  using maybe_compact_pos [OF assms] by (auto simp: extend_def Let_def)

lemma advance_fields [simp]:
  "max_message_size (advance n b) = max_message_size b" "skip_remaining (advance n b) = skip_remaining b"
  "poisoned (advance n b) = poisoned b" "poison_after_skip (advance n b) = poison_after_skip b"
  by (simp_all add: advance_def)

lemma pending_advance: "pending (advance n b) = drop n (pending b)"
  by (simp add: advance_def) (simp add: pending_def add.commute)

lemma advance_pos:
  assumes "n \<le> available b" and "buf_pos b \<le> length (buf_data b)"
  shows "buf_pos (advance n b) \<le> length (buf_data (advance n b))"
    and "buf_pos (advance n b) \<le> COMPACT_THRESHOLD \<or> buf_pos (advance n b) \<le> length (buf_data (advance n b)) div 2"
  using assms maybe_compact_pos [of "b\<lparr>buf_pos := buf_pos b + n\<rparr>"]
  by (auto simp: advance_def available_def)

lemma header_words_less: "header_words b < 2 ^ 32"
proof -
  have "le_nat (take 4 (drop (buf_pos b) (buf_data b))) < 256 ^ length (take 4 (drop (buf_pos b) (buf_data b)))"
    by (rule le_nat_less)
  also have "\<dots> \<le> 256 ^ 4" by (rule power_increasing) simp_all
  finally show ?thesis by (simp add: header_words_def)
qed

text \<open>The torn-read guard never fires: four bytes cannot hold more than 32 bits.\<close>

lemma check_torn_size_ok [simp]: "check_torn_size (header_words b) c = (Inr (), c)"
  using header_words_less [of b] by (simp add: check_torn_size_def)

lemma check_poisoned_simps [simp]:
  "poisoned b = None \<Longrightarrow> check_poisoned b = Inr ()"
  "poisoned b = Some e \<Longrightarrow> check_poisoned b = Inl (PoisonedError e)"
  by (simp_all add: check_poisoned_def)

lemma buffer_poison_fields [simp]:
  "pending (buffer_poison e b) = pending b" "available (buffer_poison e b) = available b"
  "buf_data (buffer_poison e b) = buf_data b" "buf_pos (buffer_poison e b) = buf_pos b"
  "max_message_size (buffer_poison e b) = max_message_size b"
  "skip_remaining (buffer_poison e b) = skip_remaining b"
  "poison_after_skip (buffer_poison e b) = poison_after_skip b"
  "poisoned (buffer_poison e b) = Some (case poisoned b of None \<Rightarrow> e | Some e' \<Rightarrow> e')"
  by (auto simp: buffer_poison_def pending_def available_def split: option.splits)

lemma pending_simps [simp]:
  "pending (b\<lparr>skip_remaining := k\<rparr>) = pending b" "pending (b\<lparr>poisoned := p\<rparr>) = pending b"
  "pending (b\<lparr>poison_after_skip := p\<rparr>) = pending b"
  by (simp_all add: pending_def)

lemma available_simps [simp]:
  "available (b\<lparr>skip_remaining := k\<rparr>) = available b" "available (b\<lparr>poisoned := p\<rparr>) = available b"
  "available (b\<lparr>poison_after_skip := p\<rparr>) = available b"
  by (simp_all add: available_def)

subsection \<open>The operations on the abstract state\<close>

lemma header_words_pending: "header_words b = le_nat (take 4 (pending b))"
  by (simp add: header_words_def pending_def)

lemma read_message_eq:
  assumes "poisoned b = None"
  shows "read_message b =
    (let total = 8 + le_nat (take 4 (pending b)) * 8 in
     if length (pending b) < 8 then (Inr None, b)
     else if max_message_size b < total then (Inl (DecodeError Oversized), b)
     else if length (pending b) < total then (Inr None, b)
     else (Inr (Some (take total (pending b))), advance total b))"
  using assms
  by (simp add: read_message_def Let_def length_pending flip: header_words_pending) (simp add: pending_def)

lemma feed_accept:
  assumes "poisoned b = None" and "skip_remaining b = 0" and "length (pending b) + length d \<le> max_message_size b"
  shows "feed d b = (Inr (), extend d b)"
  using assms by (simp add: feed_def Let_def length_pending)

lemma feed_reject:
  assumes "poisoned b = None" and "skip_remaining b = 0" and "max_message_size b < length (pending b) + length d"
  shows "feed d b = reject_feed (DecodeError Oversized) b"
  using assms by (simp add: feed_def Let_def length_pending)

subsection \<open>The invariant\<close>

lemma buffer_init_inv: "buffer_init n = Inr b \<Longrightarrow> buffer_inv b"
  by (auto simp: buffer_init_def buffer_inv_def available_def split: if_splits)

lemma buffer_reset_inv: "buffer_inv b \<Longrightarrow> buffer_inv (buffer_reset b)"
  by (simp add: buffer_reset_def buffer_inv_def available_def)

lemma buffer_poison_inv: "buffer_inv b \<Longrightarrow> buffer_inv (buffer_poison e b)"
  by (simp add: buffer_inv_def)

lemma advance_inv:
  assumes "buffer_inv b" and "n \<le> available b"
  shows "buffer_inv (advance n b)"
  using assms advance_pos [of n b] length_pending [of "advance n b"]
  by (auto simp: buffer_inv_def pending_advance length_pending)

lemma extend_inv:
  assumes "buffer_inv b" and "skip_remaining b = 0" and "available b + length d \<le> max_message_size b"
  shows "buffer_inv (extend d b)"
  using assms extend_pos [of b d] length_pending [of "extend d b"]
  by (auto simp: buffer_inv_def pending_extend length_pending)

lemma reject_feed_inv: "buffer_inv b \<Longrightarrow> buffer_inv (snd (reject_feed e b))"
  by (auto simp: reject_feed_def buffer_inv_def)

lemma feed_inv:
  assumes "buffer_inv b"
  shows "buffer_inv (snd (feed d b))"
proof (cases "poisoned b")
  case None
  show ?thesis
  proof (cases "skip_remaining b = 0")
    case True
    then show ?thesis
      using assms None feed_accept [OF None True, of d] feed_reject [OF None True, of d]
        extend_inv [OF assms True, of d] reject_feed_inv [OF assms]
      by (cases "length (pending b) + length d \<le> max_message_size b") (simp_all add: length_pending)
  next
    case False
    then have a: "available b = 0" "poison_after_skip b \<noteq> None" using assms by (auto simp: buffer_inv_def)
    show ?thesis
    proof (cases "2 * max_message_size b < length d \<or> max_message_size b < length d - skip_remaining b")
      case True
      then show ?thesis using False None a reject_feed_inv [OF assms] by (auto simp: feed_def Let_def)
    next
      case fits: False
      define b2 where "b2 = b\<lparr>skip_remaining := 0, poisoned := poison_after_skip b, poison_after_skip := None\<rparr>"
      have inv2: "buffer_inv b2" using assms a by (simp add: buffer_inv_def b2_def)
      show ?thesis
      proof (cases "length d < skip_remaining b")
        case True
        then show ?thesis
          using False fits None a assms by (auto simp: feed_def Let_def buffer_inv_def)
      next
        case drained: False
        then have "snd (feed d b) = (if drop (skip_remaining b) d = [] then b2 else extend (drop (skip_remaining b) d) b2)"
          using False fits None a by (auto simp: feed_def Let_def b2_def min_def)
        moreover have "buffer_inv (extend (drop (skip_remaining b) d) b2)"
          using inv2 fits a by (intro extend_inv) (simp_all add: b2_def)
        ultimately show ?thesis using inv2 by simp
      qed
    qed
  qed
next
  case (Some e)
  then show ?thesis using assms by (simp add: feed_def)
qed

lemma read_message_inv:
  assumes "buffer_inv b"
  shows "buffer_inv (snd (read_message b))"
proof (cases "poisoned b")
  case None
  then show ?thesis
    using assms by (auto simp: read_message_eq Let_def length_pending not_less intro: advance_inv)
qed (use assms in \<open>simp add: read_message_def\<close>)

lemma read_bytes_inv: "buffer_inv b \<Longrightarrow> buffer_inv (snd (read_bytes n b))"
  by (cases "poisoned b") (auto simp: read_bytes_def not_less intro: advance_inv)

lemma peek_header_state [simp]: "snd (peek_header b) = b"
  by (cases "poisoned b") (simp_all add: peek_header_def Let_def)

lemma skip_message_cases:
  assumes "poisoned b = None"
  defines "tot \<equiv> 8 + header_words b * 8"
  obtains (short) "available b < 8 \<or> tot \<le> max_message_size b \<and> available b < tot" "skip_message b = (Inr False, b)"
  | (whole) "8 \<le> available b" "tot \<le> max_message_size b" "tot \<le> available b"
      "skip_message b = (Inr (skip_remaining b = 0), advance tot b)"
  | (capped) "8 \<le> available b" "max_message_size b < tot" "max_message_size b \<le> available b"
      "skip_message b = (Inr False, buffer_poison (DecodeError Desync)
         (advance (max_message_size b) (b\<lparr>skip_remaining := 0\<rparr>)))"
  | (deferred) "8 \<le> available b" "max_message_size b < tot" "available b < max_message_size b"
      "skip_message b = (Inr False, advance (available b)
         (b\<lparr>skip_remaining := max_message_size b - available b, poison_after_skip := Some (DecodeError Desync)\<rparr>))"
proof -
  consider "available b < 8" | "8 \<le> available b" "tot \<le> max_message_size b" "available b < tot"
    | "8 \<le> available b" "tot \<le> max_message_size b" "tot \<le> available b"
    | "8 \<le> available b" "max_message_size b < tot" "max_message_size b \<le> available b"
    | "8 \<le> available b" "max_message_size b < tot" "available b < max_message_size b"
    by linarith
  then show ?thesis
  proof cases
    case 1
    then show ?thesis using assms short by (simp add: skip_message_def)
  next
    case 2
    then show ?thesis using assms short by (simp add: skip_message_def Let_def)
  next
    case 3
    then show ?thesis using assms whole by (simp add: skip_message_def Let_def)
  next
    case 4
    have "skip_message b = (Inr False, buffer_poison (DecodeError Desync)
         (advance (max_message_size b) (b\<lparr>skip_remaining := 0\<rparr>)))"
      using 4 assms by (cases b) (simp add: skip_message_def Let_def advance_def maybe_compact_def buffer_poison_def)
    then show ?thesis using 4 capped by simp
  next
    case 5
    have "skip_message b = (Inr False, advance (available b)
         (b\<lparr>skip_remaining := max_message_size b - available b, poison_after_skip := Some (DecodeError Desync)\<rparr>))"
      using 5 assms by (cases b) (simp add: skip_message_def Let_def advance_def maybe_compact_def)
    then show ?thesis using 5 deferred by simp
  qed
qed

lemma skip_message_inv:
  assumes "buffer_inv b"
  shows "buffer_inv (snd (skip_message b))"
proof (cases "poisoned b")
  case (Some e)
  then show ?thesis using assms by (simp add: skip_message_def)
next
  case None
  then show ?thesis
  proof (cases rule: skip_message_cases)
    case short
    then show ?thesis using assms by simp
  next
    case whole
    then show ?thesis using assms by (simp add: advance_inv)
  next
    case capped
    have skip: "skip_remaining b = 0" using capped(1) assms by (auto simp: buffer_inv_def)
    then have "buffer_inv (b\<lparr>skip_remaining := 0\<rparr>)" using assms by (simp add: buffer_inv_def)
    then show ?thesis using capped by (simp add: advance_inv buffer_poison_inv)
  next
    case deferred
    let ?c = "b\<lparr>skip_remaining := max_message_size b - available b, poison_after_skip := Some (DecodeError Desync)\<rparr>"
    have "buf_pos ?c \<le> length (buf_data ?c)" "1 \<le> max_message_size b" using assms by (simp_all add: buffer_inv_def)
    moreover have "available (advance (available b) ?c) = 0"
      using length_pending [of "advance (available b) ?c"] by (simp add: pending_advance length_pending)
    ultimately show ?thesis
      using deferred advance_pos [of "available b" ?c] by (simp add: buffer_inv_def)
  qed
qed

lemma buffer_step_inv: "buffer_inv b \<Longrightarrow> buffer_inv (buffer_step c b)"
  by (cases c) (simp_all add: feed_inv read_message_inv skip_message_inv read_bytes_inv buffer_poison_inv buffer_reset_inv)

lemma max_message_size_step [simp]: "max_message_size (buffer_step c b) = max_message_size b"
proof (cases "poisoned b")
  case None
  have "max_message_size (snd (feed d b)) = max_message_size b" for d
    using None by (auto simp: feed_def reject_feed_def Let_def)
  moreover have "max_message_size (snd (skip_message b)) = max_message_size b"
    using None by (cases rule: skip_message_cases) simp_all
  ultimately show ?thesis
    using None by (cases c) (auto simp: read_message_eq Let_def read_bytes_def buffer_reset_def)
next
  case (Some e)
  then show ?thesis
    by (cases c) (simp_all add: feed_def read_message_def skip_message_def read_bytes_def buffer_reset_def)
qed

lemma reachable_inv:
  assumes "buffer_reachable n b"
  shows "buffer_inv b \<and> int (max_message_size b) = n"
  using assms
proof induction
  case (init b)
  then show ?case using buffer_init_inv [OF init] by (auto simp: buffer_init_def split: if_splits)
next
  case (step b c)
  then show ?case by (simp add: buffer_step_inv)
qed

lemma buffer_memory:
  assumes "buffer_inv b"
  shows "length (buf_data b) \<le> 2 * max_message_size b + COMPACT_THRESHOLD"
  using assms by (auto simp: buffer_inv_def available_def)

subsection \<open>Poison and oversized messages\<close>

lemma poisoned_ops:
  assumes "poisoned b = Some e"
  shows "feed d b = (Inl (PoisonedError e), b)" "read_message b = (Inl (PoisonedError e), b)"
    "skip_message b = (Inl (PoisonedError e), b)" "peek_header b = (Inl (PoisonedError e), b)"
    "0 \<le> n \<Longrightarrow> read_bytes n b = (Inl (PoisonedError e), b)" "0 \<le> n \<Longrightarrow> peek_bytes n b = Inl (PoisonedError e)"
    "buffer_poison e' b = b"
  using assms
  by (simp_all add: feed_def read_message_def skip_message_def peek_header_def read_bytes_def peek_bytes_def
      buffer_poison_def)

lemma doomed_feed:
  assumes "buffer_inv b" and "doomed b"
  shows "doomed (snd (feed d b))"
proof (cases "poisoned b")
  case None
  then have "0 < skip_remaining b" "poison_after_skip b \<noteq> None" using assms by (auto simp: doomed_def buffer_inv_def)
  then show ?thesis using None by (auto simp: feed_def reject_feed_def Let_def doomed_def min_def)
next
  case (Some e)
  then show ?thesis using assms poisoned_ops [OF Some] by simp
qed

lemma doomed_read:
  assumes "buffer_inv b" and "doomed b"
  shows "snd (read_message b) = b" and "fst (read_message b) \<noteq> Inr (Some f)"
proof -
  have "snd (read_message b) = b \<and> fst (read_message b) \<noteq> Inr (Some f)"
  proof (cases "poisoned b")
    case None
    then have "available b = 0" using assms by (auto simp: doomed_def buffer_inv_def)
    then show ?thesis using None by (simp add: read_message_def)
  next
    case (Some e)
    then show ?thesis using poisoned_ops [OF Some] by simp
  qed
  then show "snd (read_message b) = b" and "fst (read_message b) \<noteq> Inr (Some f)" by simp_all
qed

lemma doomed_run:
  assumes "buffer_inv b" and "doomed b" and "run_stream feed read_message es b = Inr (fs, b')"
  shows "fs = [] \<and> doomed b'"
  using assms
proof (induction es arbitrary: b fs)
  case (Cons ev es)
  show ?case
  proof (cases ev)
    case (Feed d)
    then show ?thesis
      using Cons.prems Cons.IH [OF feed_inv [OF Cons.prems(1), of d] doomed_feed [OF Cons.prems(1,2), of d]]
      by (auto split: prod.splits sum.splits)
  next
    case Read
    then show ?thesis
      using Cons.prems Cons.IH [OF Cons.prems(1,2)] doomed_read [OF Cons.prems(1,2)]
      by (auto split: prod.splits sum.splits option.splits simp: bindE_eq_Inr)
  qed
qed simp

subsection \<open>Sequences of frames\<close>

lemma frames_cancel:
  assumes "is_frame f" and "is_frame g" and "f @ xs = g @ ys"
  shows "f = g \<and> xs = ys"
proof -
  have lf: "length f = 8 + le_nat (take 4 f) * 8" and lg: "length g = 8 + le_nat (take 4 g) * 8"
    using assms(1,2) unfolding is_frame_def by blast+
  have l: "4 \<le> length f" "4 \<le> length g" unfolding lf lg by simp_all
  have "take 4 (f @ xs) = take 4 (g @ ys)" using assms(3) by simp
  then have "take 4 f = take 4 g" using l by simp
  then have "length f = length g" unfolding lf lg by simp
  then show ?thesis using assms(3) by simp
qed

lemma frames_prefix:
  assumes "list_all is_frame fs" and "list_all is_frame gs" and "concat fs @ xs = concat gs @ ys"
    and "length fs \<le> length gs"
  shows "fs = take (length fs) gs"
  using assms
proof (induction fs arbitrary: gs)
  case (Cons f fs)
  then obtain g hs where gs: "gs = g # hs" by (cases gs) auto
  have "f @ (concat fs @ xs) = g @ (concat hs @ ys)" using Cons.prems(3) gs by simp
  then have "f = g" "concat fs @ xs = concat hs @ ys"
    using frames_cancel [of f g] Cons.prems(1,2) gs by auto
  then show ?case using Cons.IH [of hs] Cons.prems gs by simp
qed simp

lemma frames_too_many:
  assumes "list_all is_frame fs" and "list_all is_frame gs" and "concat fs @ xs = concat gs"
  shows "length fs \<le> length gs"
  using assms
proof (induction gs arbitrary: fs)
  case Nil
  then show ?case by (cases fs) (auto simp: is_frame_def)
next
  case (Cons g gs)
  show ?case
  proof (cases fs)
    case fs: (Cons f fs')
    have "f @ (concat fs' @ xs) = g @ concat gs" using Cons.prems fs by simp
    moreover have "is_frame f" "is_frame g" "list_all is_frame fs'" "list_all is_frame gs"
      using Cons.prems(1,2) fs by simp_all
    ultimately have "concat fs' @ xs = concat gs" using frames_cancel [of f g] by blast
    then show ?thesis
      using Cons.IH [of fs'] \<open>list_all is_frame fs'\<close> \<open>list_all is_frame gs\<close> fs by simp
  qed simp
qed

lemma run_stream_append:
  "run_stream fd rd (es @ es') s =
     bindE (run_stream fd rd es s) (\<lambda>(fs, t). bindE (run_stream fd rd es' t) (\<lambda>(gs, t'). Inr (fs @ gs, t')))"
proof (induction es arbitrary: s)
  case Nil
  show ?case by (cases "run_stream fd rd es' s") auto
next
  case (Cons ev es)
  show ?case
  proof (cases ev)
    case (Feed d)
    then show ?thesis using Cons.IH by (auto split: prod.splits sum.splits)
  next
    case Read
    then show ?thesis using Cons.IH
      by (auto simp: bindE_assoc case_prod_beta split: prod.splits sum.splits option.splits)
  qed
qed

subsection \<open>The stream interface\<close>

text \<open>
  \<open>pending\<close> is the abstract state of a source of frames, \<open>ready\<close> its invariant outside of
  errors, \<open>limit\<close> the largest number of bytes it holds.
\<close>

locale byte_stream =
  fixes fd :: "bytes \<Rightarrow> 's \<Rightarrow> unit result \<times> 's"
    and rd :: "'s \<Rightarrow> bytes option result \<times> 's"
    and content :: "'s \<Rightarrow> bytes"
    and ready :: "'s \<Rightarrow> bool"
    and limit :: "'s \<Rightarrow> nat"
  assumes feed_law: "ready s \<Longrightarrow> fd d s = (Inr u, s') \<Longrightarrow>
      ready s' \<and> content s' = content s @ d \<and> limit s' = limit s"
    and feed_live: "ready s \<Longrightarrow> length (content s) + length d \<le> limit s \<Longrightarrow> \<exists>s'. fd d s = (Inr (), s')"
    and read_some: "ready s \<Longrightarrow> rd s = (Inr (Some f), s') \<Longrightarrow>
      ready s' \<and> content s = f @ content s' \<and> is_frame f \<and> limit s' = limit s"
    and read_none: "ready s \<Longrightarrow> rd s = (Inr None, s') \<Longrightarrow> s' = s"
    and read_live: "ready s \<Longrightarrow> content s = f @ rest \<Longrightarrow> is_frame f \<Longrightarrow> length f \<le> limit s \<Longrightarrow>
      \<exists>s'. rd s = (Inr (Some f), s')"
begin

lemma run_conserves:
  assumes "ready s" and "run_stream fd rd es s = Inr (fs, s')"
  shows "ready s' \<and> concat fs @ content s' = content s @ fed es \<and> list_all is_frame fs \<and> limit s' = limit s"
  using assms
proof (induction es arbitrary: s fs)
  case (Cons ev es)
  show ?case
  proof (cases ev)
    case (Feed d)
    then obtain u t where f: "fd d s = (Inr u, t)" and r: "run_stream fd rd es t = Inr (fs, s')"
      using Cons.prems(2) by (auto split: prod.splits sum.splits)
    show ?thesis using feed_law [OF Cons.prems(1) f] Cons.IH [OF _ r] Feed by simp
  next
    case Read
    then obtain o' t where o': "rd s = (Inr o', t)" using Cons.prems(2) by (auto split: prod.splits sum.splits)
    show ?thesis
    proof (cases o')
      case None
      then show ?thesis
        using read_none [OF Cons.prems(1)] o' Cons.prems Cons.IH Read by auto
    next
      case (Some f)
      then obtain gs where r: "run_stream fd rd es t = Inr (gs, s')" and fs: "fs = f # gs"
        using o' Cons.prems(2) Read by (auto simp: bindE_eq_Inr)
      have f: "ready t" "content s = f @ content t" "is_frame f" "limit t = limit s"
        using read_some [OF Cons.prems(1)] o' Some by auto
      show ?thesis using Cons.IH [OF f(1) r] f(2-4) fs Read by simp
    qed
  qed
qed simp

lemma run_delivers_prefix:
  assumes "ready s" and "content s = []" and "run_stream fd rd es s = Inr (fs, s')"
    and "fed es = concat gs" and "list_all is_frame gs"
  shows "fs = take (length fs) gs"
proof -
  have r: "concat fs @ content s' = concat gs" "list_all is_frame fs"
    using run_conserves [OF assms(1,3)] assms(2,4) by simp_all
  have "length fs \<le> length gs" using frames_too_many [OF r(2) assms(5) r(1)] .
  then show ?thesis using frames_prefix [OF r(2) assms(5), of "content s'" "[]"] r(1) by simp
qed

lemma drain_all:
  assumes "ready s" and "content s = concat gs" and "list_all is_frame gs" and "list_all (\<lambda>g. length g \<le> limit s) gs"
  shows "\<exists>s'. run_stream fd rd (replicate (length gs) Read) s = Inr (gs, s') \<and> content s' = []"
  using assms
proof (induction gs arbitrary: s)
  case (Cons g gs)
  then obtain t where t: "rd s = (Inr (Some g), t)" using read_live [of s g "concat gs"] by auto
  have "ready t" "content s = g @ content t" "limit t = limit s" using read_some [OF Cons.prems(1) t] by simp_all
  then show ?case using Cons.IH [of t] Cons.prems t by auto
qed simp

end

subsection \<open>ReadBuffer implements the interface\<close>

lemma read_message_frame:
  assumes "poisoned b = None" and "read_message b = (Inr (Some f), b')"
  shows "b' = advance (length f) b \<and> f = take (length f) (pending b) \<and> is_frame f
    \<and> length f \<le> length (pending b) \<and> length f \<le> max_message_size b"
proof -
  let ?t = "8 + le_nat (take 4 (pending b)) * 8"
  have r: "8 \<le> length (pending b)" "?t \<le> max_message_size b" "?t \<le> length (pending b)"
    "f = take ?t (pending b)" "b' = advance ?t b"
    using assms(2) unfolding read_message_eq [OF assms(1)] by (auto simp: Let_def not_less split: if_splits)
  have len: "length f = ?t" using r(3,4) by simp
  have "take 4 f = take 4 (pending b)" using r(4) by (simp add: min_def)
  then have "is_frame f" using len by (simp add: is_frame_def)
  then show ?thesis using r len by simp
qed

lemma feed_ready:
  assumes "buffer_ready b" and "feed d b = (Inr u, b')"
  shows "length (pending b) + length d \<le> max_message_size b \<and> b' = extend d b"
proof -
  have r: "poisoned b = None" "skip_remaining b = 0" using assms(1) by (simp_all add: buffer_ready_def)
  show ?thesis
  proof (cases "length (pending b) + length d \<le> max_message_size b")
    case True
    then show ?thesis using feed_accept [OF r] assms(2) by simp
  next
    case False
    then show ?thesis using feed_reject [OF r, of d] assms(2) by (simp add: reject_feed_def)
  qed
qed

lemma init_ready: "buffer_init n = Inr b \<Longrightarrow> buffer_ready b \<and> pending b = [] \<and> int (max_message_size b) = n"
  using buffer_init_inv [of n b] by (auto simp: buffer_ready_def buffer_init_def pending_def split: if_splits)

interpretation buf: byte_stream feed read_message pending buffer_ready max_message_size
proof unfold_locales
  fix s d u s'
  assume r: "buffer_ready s" and f: "feed d s = (Inr u, s')"
  have e: "s' = extend d s" "available s + length d \<le> max_message_size s"
    using feed_ready [OF r f] by (simp_all add: length_pending)
  have i: "buffer_inv s" "poisoned s = None" "skip_remaining s = 0" "buf_pos s \<le> length (buf_data s)"
    using r by (simp_all add: buffer_ready_def buffer_inv_def)
  show "buffer_ready s' \<and> pending s' = pending s @ d \<and> max_message_size s' = max_message_size s"
    using extend_inv [OF i(1,3) e(2)] pending_extend [OF i(4)] i by (simp add: e(1) buffer_ready_def)
next
  fix s and d :: bytes
  assume "buffer_ready s" "length (pending s) + length d \<le> max_message_size s"
  then show "\<exists>s'. feed d s = (Inr (), s')" by (simp add: feed_accept buffer_ready_def)
next
  fix s f s'
  assume r: "buffer_ready s" and f: "read_message s = (Inr (Some f), s')"
  have n: "poisoned s = None" "buffer_inv s" "skip_remaining s = 0" using r by (simp_all add: buffer_ready_def)
  have s': "s' = advance (length f) s" and tf: "take (length f) (pending s) = f" and fr: "is_frame f"
    and l: "length f \<le> length (pending s)"
    using read_message_frame [OF n(1) f] by metis+
  have "buffer_inv s'" using l advance_inv [OF n(2)] by (simp add: s' length_pending)
  moreover have "pending s = f @ pending s'"
  proof -
    have "pending s = take (length f) (pending s) @ drop (length f) (pending s)" by simp
    then show ?thesis unfolding tf s' pending_advance .
  qed
  ultimately show "buffer_ready s' \<and> pending s = f @ pending s' \<and> is_frame f \<and> max_message_size s' = max_message_size s"
    using fr n by (simp add: buffer_ready_def s')
next
  fix s s'
  assume "buffer_ready s" "read_message s = (Inr None, s')"
  then show "s' = s" by (auto simp: buffer_ready_def read_message_eq Let_def split: if_splits)
next
  fix s f rest
  assume r: "buffer_ready s" and p: "pending s = f @ rest" and f: "is_frame f" "length f \<le> max_message_size s"
  have l: "length f = 8 + le_nat (take 4 f) * 8" using f(1) unfolding is_frame_def by blast
  then have f8: "8 \<le> length f" by linarith
  then have "take 4 (pending s) = take 4 f" unfolding p by simp
  then have t: "8 + le_nat (take 4 (pending s)) * 8 = length f" using l by (simp only:)
  have "poisoned s = None" using r by (simp add: buffer_ready_def)
  from read_message_eq [OF this] show "\<exists>s'. read_message s = (Inr (Some f), s')"
    unfolding t using f(2) f8 by (simp add: Let_def p)
qed

lemma drained:
  assumes "buffer_init n = Inr b" and "run_stream feed read_message es b = Inr (fs, b')"
    and "fed es = concat gs" and "list_all is_frame gs" and "list_all (\<lambda>g. length g \<le> max_message_size b) gs"
  shows "\<exists>b''. run_stream feed read_message (es @ replicate (length gs - length fs) Read) b = Inr (gs, b'')
    \<and> pending b'' = []"
proof -
  note i = init_ready [OF assms(1)]
  note c = buf.run_conserves [OF conjunct1 [OF i] assms(2)]
  have pre: "fs = take (length fs) gs"
    using buf.run_delivers_prefix [OF _ _ assms(2-4)] i by simp
  define rest where "rest = drop (length fs) gs"
  have gs: "gs = fs @ rest" using pre append_take_drop_id [of "length fs" gs] by (simp add: rest_def)
  have "concat fs @ pending b' = concat fs @ concat rest"
    using c i assms(3) gs by (metis concat_append append_Nil)
  then have "pending b' = concat rest" by simp
  moreover have "list_all is_frame rest" "list_all (\<lambda>g. length g \<le> max_message_size b') rest"
    using assms(4,5) gs c by simp_all
  ultimately obtain b'' where "run_stream feed read_message (replicate (length rest) Read) b' = Inr (rest, b'')"
    "pending b'' = []"
    using buf.drain_all [of b' rest] c by auto
  moreover have "length gs - length fs = length rest" by (simp add: gs)
  ultimately show ?thesis using assms(2) gs by (simp add: run_stream_append)
qed

lemma has_message_read: "poisoned b = None \<Longrightarrow> has_message b \<longleftrightarrow> fst (read_message b) \<noteq> Inr None"
  using header_words_less [of b] by (auto simp: has_message_def read_message_def Let_def)

section \<open>Properties\<close>

text \<open>
  C5 (stream_conserved): however the bytes of a stream are cut into chunks and however feeds
  and reads interleave, as long as no call raises, the frames handed out followed by the bytes
  still buffered are exactly the bytes fed, and every frame handed out is well formed: nothing
  is lost, repeated, reordered or cut in the middle, across any compaction.
\<close>

theorem stream_conserved:
  assumes "buffer_init n = Inr b" and "run_stream feed read_message es b = Inr (fs, b')"
  shows "concat fs @ pending b' = fed es \<and> list_all is_frame fs"
  using buf.run_conserves [OF _ assms(2)] init_ready [OF assms(1)] by simp

theorem stream_conserved_witness:
  "concat [[0, 0, 0, 0, 2, 0, 0, 0]] @ [9 :: byte] = fed [Feed [0, 0, 0], Read, Feed [0, 2, 0, 0, 0, 9], Read]"
proof -
  let ?b = "\<lparr>buf_data = [], buf_pos = 0, max_message_size = 64, skip_remaining = 0, poisoned = None, poison_after_skip = None\<rparr>"
  let ?c = "\<lparr>buf_data = [0, 0, 0, 0, 2, 0, 0, 0, 9], buf_pos = 8, max_message_size = 64, skip_remaining = 0, poisoned = None, poison_after_skip = None\<rparr>"
  have i: "buffer_init 64 = Inr ?b" by code_simp
  have r: "run_stream feed read_message [Feed [0, 0, 0], Read, Feed [0, 2, 0, 0, 0, 9], Read] ?b
      = Inr ([[0, 0, 0, 0, 2, 0, 0, 0]], ?c)" by code_simp
  from stream_conserved [OF i r] show ?thesis by (simp add: pending_def)
qed

text \<open>
  C15 (stream_delivers): framing is exact.  When the bytes fed are a sequence of frames, the
  frames read so far are the first ones of the sequence, in order, and reading on delivers all
  the others and leaves the buffer empty.
\<close>

theorem stream_delivers:
  assumes "buffer_init n = Inr b" and "run_stream feed read_message es b = Inr (fs, b')"
    and "fed es = concat gs" and "list_all is_frame gs" and "list_all (\<lambda>g. length g \<le> max_message_size b) gs"
  shows "fs = take (length fs) gs
    \<and> (\<exists>b''. run_stream feed read_message (es @ replicate (length gs - length fs) Read) b = Inr (gs, b'')
         \<and> pending b'' = [])"
  using drained [OF assms] buf.run_delivers_prefix [OF _ _ assms(2-4)] init_ready [OF assms(1)] by simp

theorem stream_delivers_witness:
  "\<exists>b''. run_stream feed read_message ([Feed [0, 0, 0, 0, 2, 0, 0, 0, 0, 0, 0, 0], Feed [8, 0, 0, 0]] @ replicate 2 Read)
      \<lparr>buf_data = [], buf_pos = 0, max_message_size = 64, skip_remaining = 0, poisoned = None, poison_after_skip = None\<rparr>
    = Inr ([[0, 0, 0, 0, 2, 0, 0, 0], [0, 0, 0, 0, 8, 0, 0, 0]], b'') \<and> pending b'' = []"
proof -
  let ?b = "\<lparr>buf_data = [], buf_pos = 0, max_message_size = 64, skip_remaining = 0, poisoned = None, poison_after_skip = None\<rparr>"
  let ?c = "\<lparr>buf_data = [0, 0, 0, 0, 2, 0, 0, 0, 0, 0, 0, 0, 8, 0, 0, 0], buf_pos = 0, max_message_size = 64, skip_remaining = 0, poisoned = None, poison_after_skip = None\<rparr>"
  let ?es = "[Feed [0, 0, 0, 0, 2, 0, 0, 0, 0, 0, 0, 0], Feed [8, 0, 0, 0]]"
  have i: "buffer_init 64 = Inr ?b" by code_simp
  have r: "run_stream feed read_message ?es ?b = Inr ([], ?c)" by code_simp
  have f: "list_all is_frame [[0, 0, 0, 0, 2, 0, 0, 0], [0, 0, 0, 0, 8, 0, 0, 0]]" by code_simp
  from stream_delivers [OF i r _ f] show ?thesis by simp
qed

text \<open>
  C28 (buffer_invariant): in every buffer reachable from construction by any sequence of calls,
  the unread bytes fit the message cap, a skip in progress has an empty buffer and a pending
  poison, and the memory held, consumed prefix included, is below twice the cap plus the
  compaction threshold.
\<close>

theorem buffer_invariant:
  assumes "buffer_reachable n b"
  shows "buffer_inv b \<and> int (length (pending b)) \<le> n
    \<and> int (length (buf_data b)) \<le> 2 * n + int COMPACT_THRESHOLD"
proof -
  have i: "buffer_inv b" "int (max_message_size b) = n" using reachable_inv [OF assms] by simp_all
  have "length (pending b) \<le> max_message_size b" using i(1) by (simp add: buffer_inv_def length_pending)
  then show ?thesis using i buffer_memory [OF i(1)] by simp
qed

theorem buffer_invariant_witness:
  "int (length (pending (buffer_step (CallFeed [1, 2, 3])
     \<lparr>buf_data = [], buf_pos = 0, max_message_size = 64, skip_remaining = 0, poisoned = None, poison_after_skip = None\<rparr>))) \<le> 64"
proof -
  have "buffer_init 64 = Inr \<lparr>buf_data = [], buf_pos = 0, max_message_size = 64, skip_remaining = 0,
      poisoned = None, poison_after_skip = None\<rparr>" by code_simp
  from buffer_invariant [OF buffer_reachable.step [OF buffer_reachable.init [OF this]]] show ?thesis by blast
qed

text \<open>
  On a buffer that is not poisoned, \<^verbatim>\<open>has_message()\<close> is true exactly
  when \<^verbatim>\<open>read_message()\<close> will not return \<^verbatim>\<open>None\<close>: it returns a frame, or raises for an
  oversized header.  A \<^verbatim>\<open>while has_message()\<close> loop therefore always makes progress.
\<close>

theorem has_message_honest:
  assumes "poisoned b = None"
  shows "has_message b \<longleftrightarrow> fst (read_message b) \<noteq> Inr None"
  using assms by (rule has_message_read)

theorem has_message_honest_witness:
  "has_message \<lparr>buf_data = [0, 0, 0, 0, 2, 0, 0, 0], buf_pos = 0, max_message_size = 64, skip_remaining = 0,
     poisoned = None, poison_after_skip = None\<rparr>"
  by (subst has_message_honest, simp) code_simp

text \<open>
  A poisoned buffer refuses every consuming and feeding call with a
  \<^verbatim>\<open>PoisonedError\<close> that carries the first cause, and stays exactly as it was, until
  \<^verbatim>\<open>reset()\<close>, which empties it and makes it usable again.
\<close>

theorem poison_sticky:
  assumes "poisoned b = Some e" and "0 \<le> n"
  shows "feed d b = (Inl (PoisonedError e), b) \<and> read_message b = (Inl (PoisonedError e), b)
    \<and> skip_message b = (Inl (PoisonedError e), b) \<and> peek_header b = (Inl (PoisonedError e), b)
    \<and> read_bytes n b = (Inl (PoisonedError e), b) \<and> peek_bytes n b = Inl (PoisonedError e)
    \<and> buffer_poison e' b = b \<and> poisoned (buffer_reset b) = None \<and> pending (buffer_reset b) = []"
  using poisoned_ops [OF assms(1)] assms(2) by (simp add: buffer_reset_def pending_def)

theorem poison_sticky_witness:
  "fst (feed [1] \<lparr>buf_data = [], buf_pos = 0, max_message_size = 64, skip_remaining = 0,
     poisoned = Some (DecodeError Torn), poison_after_skip = None\<rparr>) = Inl (PoisonedError (DecodeError Torn))"
  using poison_sticky [of "\<lparr>buf_data = [], buf_pos = 0, max_message_size = 64, skip_remaining = 0,
     poisoned = Some (DecodeError Torn), poison_after_skip = None\<rparr>" "DecodeError Torn" 0 "[1]"]
  by simp

text \<open>
  C29 (oversized_unrecoverable): skipping a message above the cap never recovers the stream.
  \<^verbatim>\<open>skip_message()\<close> returns \<^verbatim>\<open>False\<close>, at once or after the capped number of bytes has
  been fed the buffer is poisoned, and without a reset no sequence of feeds and reads delivers
  another frame.
\<close>

theorem oversized_unrecoverable:
  assumes "buffer_inv b" and "poisoned b = None" and "HEADER_SIZE \<le> length (pending b)"
    and "max_message_size b < HEADER_SIZE + header_words b * WORD_SIZE"
  shows "fst (skip_message b) = Inr False
    \<and> (\<forall>es fs b'. run_stream feed read_message es (snd (skip_message b)) = Inr (fs, b') \<longrightarrow> fs = [])"
proof -
  have "fst (skip_message b) = Inr False \<and> doomed (snd (skip_message b))"
    using assms(2)
  proof (cases rule: skip_message_cases)
    case deferred
    then show ?thesis by (simp add: doomed_def)
  qed (use assms(3,4) in \<open>simp_all add: length_pending doomed_def\<close>)
  then show ?thesis using doomed_run [OF skip_message_inv [OF assms(1)]] by blast
qed

theorem oversized_unrecoverable_witness:
  "fst (skip_message \<lparr>buf_data = [255, 0, 0, 0, 2, 0, 0, 0], buf_pos = 0, max_message_size = 64,
     skip_remaining = 0, poisoned = None, poison_after_skip = None\<rparr>) = Inr False"
proof -
  let ?b = "\<lparr>buf_data = [255, 0, 0, 0, 2, 0, 0, 0], buf_pos = 0, max_message_size = 64,
     skip_remaining = 0, poisoned = None, poison_after_skip = None\<rparr> :: read_buffer"
  have "buffer_inv ?b" "poisoned ?b = None" "HEADER_SIZE \<le> length (pending ?b)"
    "max_message_size ?b < HEADER_SIZE + header_words ?b * WORD_SIZE"
    by code_simp+
  from oversized_unrecoverable [OF this] show ?thesis by simp
qed

text \<open>
  C30 (feed_reject_safe): a chunk that would overflow the cap is never appended.  If the buffer
  was empty and not skipping it is left unchanged, so the caller may retry; if it held bytes
  of an unfinished frame it is poisoned, so that a reset cannot be mistaken for recovery.
\<close>

theorem feed_reject_safe:
  assumes "buffer_inv b" and "poisoned b = None" and "skip_remaining b = 0"
    and "max_message_size b < length (pending b) + length d"
  shows "fst (feed d b) = Inl (DecodeError Oversized) \<and> pending (snd (feed d b)) = pending b
    \<and> (if pending b = [] then snd (feed d b) = b else poisoned (snd (feed d b)) = Some (DecodeError Oversized))"
  using feed_reject [OF assms(2-4)] assms(2,3) length_pending [of b] by (auto simp: reject_feed_def)

theorem feed_reject_safe_witness:
  "fst (feed [1, 2, 3] \<lparr>buf_data = [], buf_pos = 0, max_message_size = 2, skip_remaining = 0,
     poisoned = None, poison_after_skip = None\<rparr>) = Inl (DecodeError Oversized)"
proof -
  let ?b = "\<lparr>buf_data = [], buf_pos = 0, max_message_size = 2, skip_remaining = 0,
     poisoned = None, poison_after_skip = None\<rparr> :: read_buffer"
  have "buffer_inv ?b" "poisoned ?b = None" "skip_remaining ?b = 0"
    "max_message_size ?b < length (pending ?b) + length [1 :: byte, 2, 3]"
    by code_simp+
  from feed_reject_safe [OF this] show ?thesis by simp
qed

end
