(* ===== verification/Scripted_Reader.thy ===== *)
theory Scripted_Reader
  imports Buffer
begin

text \<open>
  The interface of an operation that consumes frames.  \<open>op\<close> takes a frame from a byte stream and
  makes something of it: a message, an outcome of a call.  \<open>plays s fs ns\<close> says that from state
  \<open>s\<close> the frames \<open>fs\<close> are taken in, one result of \<open>ns\<close> each.  The provider promises this for one
  frame at a time; what follows for a stream that is cut into chunks and read in any interleaving
  is proved here once.
\<close>

locale scripted_reader = byte_stream fd rd content ready limit
  for fd :: "bytes \<Rightarrow> 's \<Rightarrow> unit result \<times> 's"
    and rd :: "'s \<Rightarrow> bytes option result \<times> 's"
    and content :: "'s \<Rightarrow> bytes"
    and ready :: "'s \<Rightarrow> bool"
    and limit :: "'s \<Rightarrow> nat" +
  fixes op :: "'s \<Rightarrow> 'm option result \<times> 's"
    and plays :: "'s \<Rightarrow> bytes list \<Rightarrow> 'm list \<Rightarrow> bool"
  assumes plays_ready: "plays s fs ns \<Longrightarrow> ready s"
    and plays_frames: "plays s fs ns \<Longrightarrow> list_all2 (\<lambda>f n. is_frame f \<and> length f \<le> limit s) fs ns"
    and plays_feed: "plays s fs ns \<Longrightarrow> fd c s = (Inr u, s') \<Longrightarrow> plays s' fs ns"
    and plays_wait: "plays s fs ns \<Longrightarrow> rd s = (Inr None, s) \<Longrightarrow> op s = (Inr None, s)"
    and plays_fail: "plays s fs ns \<Longrightarrow> rd s = (Inl e, s') \<Longrightarrow> fst (op s) = Inl e"
    and plays_next: "plays s (f # fs) (n # ns) \<Longrightarrow> rd s = (Inr (Some f), s') \<Longrightarrow>
      \<exists>t. op s = (Inr (Some n), t) \<and> plays t fs ns \<and> content t = content s'"
begin

lemma play_one:
  assumes "plays s (f # fs) (n # ns)" and "content s = f @ rest"
  obtains t where "op s = (Inr (Some n), t)" "plays t fs ns" "content t = rest"
proof -
  note r = plays_ready [OF assms(1)]
  obtain s' where s': "rd s = (Inr (Some f), s')"
    using read_live [OF r assms(2)] plays_frames [OF assms(1)] by auto
  then have "content s' = rest" using read_some [OF r s'] assms(2) by simp
  then show thesis using plays_next [OF assms(1) s'] that by blast
qed

lemma play_all:
  assumes "plays s fs ns" and "content s = concat fs"
  shows "\<exists>t. run_stream fd op (replicate (length fs) Read) s = Inr (ns, t) \<and> plays t [] [] \<and> content t = []"
  using assms
proof (induction fs arbitrary: s ns)
  case Nil
  then show ?case using plays_frames [OF Nil.prems(1)] by simp
next
  case (Cons f fs)
  then obtain n ns' where ns: "ns = n # ns'" using plays_frames [OF Cons.prems(1)] by (auto simp: list_all2_Cons1)
  have "content s = f @ concat fs" using Cons.prems(2) by simp
  from play_one [OF Cons.prems(1) [unfolded ns] this] obtain t where
    t: "op s = (Inr (Some n), t)" "plays t fs ns'" "content t = concat fs" .
  show ?case using Cons.IH [OF t(2,3)] t(1) ns by auto
qed

text \<open>However the stream is chunked and read, what has come out is a first part of the script.\<close>

lemma play_prefix:
  assumes "plays s fs ns" and "content s @ fed es = concat fs" and "run_stream fd op es s = Inr (got, t)"
  shows "length got \<le> length ns \<and> take (length got) ns = got
    \<and> plays t (drop (length got) fs) (drop (length got) ns) \<and> content t = concat (drop (length got) fs)"
  using assms
proof (induction es arbitrary: s fs ns got)
  case (Cons ev es)
  note r = plays_ready [OF Cons.prems(1)]
  show ?case
  proof (cases ev)
    case (Feed c)
    then obtain u s' where f: "fd c s = (Inr u, s')" and run: "run_stream fd op es s' = Inr (got, t)"
      using Cons.prems(3) by (auto split: prod.splits sum.splits)
    have "content s' @ fed es = concat fs" using feed_law [OF r f] Cons.prems(2) Feed by simp
    from Cons.IH [OF plays_feed [OF Cons.prems(1) f] this run] show ?thesis .
  next
    case Read
    obtain res s' where rd: "rd s = (res, s')" by (cases "rd s")
    consider (fail) e where "res = Inl e" | (wait) "res = Inr None" | (frame) f where "res = Inr (Some f)"
      by (metis not_None_eq sum.exhaust)
    then show ?thesis
    proof cases
      case fail
      then show ?thesis using plays_fail [OF Cons.prems(1)] rd Cons.prems(3) Read by (auto split: prod.splits)
    next
      case wait
      then have "rd s = (Inr None, s)" using read_none [OF r] rd by simp
      then have "op s = (Inr None, s)" by (rule plays_wait [OF Cons.prems(1)])
      then show ?thesis using Cons.IH [OF Cons.prems(1)] Cons.prems(2,3) Read by simp
    next
      case (frame f)
      then have rd: "rd s = (Inr (Some f), s')" using rd by simp
      have f: "content s = f @ content s'" "is_frame f" using read_some [OF r rd] by simp_all
      have "length f \<noteq> 0" using f(2) unfolding is_frame_def by linarith
      then have "fs \<noteq> []" using Cons.prems(2) f(1) by auto
      then obtain g fs' n ns' where fs: "fs = g # fs'" "ns = n # ns'"
        using plays_frames [OF Cons.prems(1)] by (cases fs; cases ns) simp_all
      have "is_frame g" using plays_frames [OF Cons.prems(1)] fs by simp
      moreover have "f @ (content s' @ fed es) = g @ concat fs'" using Cons.prems(2) f(1) fs(1) Read by simp
      ultimately have g: "g = f" "content s' @ fed es = concat fs'" using frames_cancel [OF f(2), of g] by blast+
      obtain s'' where o: "op s = (Inr (Some n), s'')" "plays s'' fs' ns'" "content s'' = content s'"
        using plays_next [of s f fs' n ns' s'] Cons.prems(1) fs g(1) rd by blast
      then obtain got' where "run_stream fd op es s'' = Inr (got', t)" "got = n # got'"
        using Cons.prems(3) Read by (auto simp: bindE_eq_Inr)
      then show ?thesis using Cons.IH [OF o(2)] o(3) g(2) fs by simp
    qed
  qed
qed simp

lemma play_stream:
  assumes "plays s fs ns" and "content s @ fed es = concat fs" and "run_stream fd op es s = Inr (got, t)"
  shows "got = take (length got) ns
    \<and> (\<exists>t'. run_stream fd op (es @ replicate (length ns - length got) Read) s = Inr (ns, t')
         \<and> plays t' [] [] \<and> content t' = [])"
proof -
  note p = play_prefix [OF assms]
  have "length fs = length ns" using plays_frames [OF assms(1)] list_all2_lengthD by blast
  then obtain t' where "run_stream fd op (replicate (length ns - length got) Read) t = Inr (drop (length got) ns, t')"
    "plays t' [] []" "content t' = []"
    using play_all [of t "drop (length got) fs" "drop (length got) ns"] p by auto
  moreover have "got @ drop (length got) ns = ns" using append_take_drop_id [of "length got" ns] p by simp
  ultimately show ?thesis using assms(3) p by (auto simp: run_stream_append)
qed

end

end
