(* ===== verification/Codec.thy ===== *)
theory Codec
  imports Requests Responses Scripted_Reader
begin

text \<open>
  \<^verbatim>\<open>src/dqlitewire/codec.py\<close>: the dispatch tables, \<^verbatim>\<open>MessageEncoder\<close>, \<^verbatim>\<open>MessageDecoder\<close>
  and the stateless helpers \<^verbatim>\<open>encode_message\<close> and \<^verbatim>\<open>decode_message\<close>.  A method of the decoder
  is a function of the decoder that returns its result (or exception) and the decoder after
  the call; the ones that change nothing return the result only.  As for the buffer, a method
  is atomic: the clauses that repair the state after an asynchronous interruption have no
  counterpart, the \<^verbatim>\<open>except\<close> clauses for exceptions the code itself raises are all here.
\<close>

section \<open>Definitions\<close>

subsection \<open>Dispatch tables\<close>

datatype message = Request request | Response response

text \<open>The tables are dictionaries from the type byte; HEARTBEAT and CONNECT are not in the first.\<close>

definition REQUEST_TYPES :: "int \<rightharpoonup> request_type" where
  "REQUEST_TYPES = map_of (map (\<lambda>t. (request_type_code t, t))
     [RT_LEADER, RT_CLIENT, RT_OPEN, RT_PREPARE, RT_EXEC, RT_QUERY, RT_FINALIZE, RT_EXEC_SQL,
      RT_QUERY_SQL, RT_INTERRUPT, RT_ADD, RT_ASSIGN, RT_REMOVE, RT_DUMP, RT_CLUSTER, RT_TRANSFER,
      RT_DESCRIBE, RT_WEIGHT])"

definition RESPONSE_TYPES :: "int \<rightharpoonup> response_type" where
  "RESPONSE_TYPES = map_of (map (\<lambda>t. (response_type_code t, t))
     [RS_FAILURE, RS_LEADER, RS_WELCOME, RS_SERVERS, RS_DB, RS_STMT, RS_RESULT, RS_ROWS, RS_EMPTY,
      RS_FILES, RS_METADATA])"

definition REQUEST_MAX_SCHEMA :: "int \<rightharpoonup> int" where
  "REQUEST_MAX_SCHEMA = map_of (map (\<lambda>t. (request_type_code t, 1))
     [RT_PREPARE, RT_EXEC, RT_QUERY, RT_EXEC_SQL, RT_QUERY_SQL])"

definition RESPONSE_MAX_SCHEMA :: "int \<rightharpoonup> int" where
  "RESPONSE_MAX_SCHEMA = map_of [(response_type_code RS_STMT, 1)]"

text \<open>\<^verbatim>\<open>self._max_schema.get(msg_type, 0)\<close>.\<close>

definition max_schema :: "bool \<Rightarrow> int \<Rightarrow> int" where
  "max_schema req mt =
     (case (if req then REQUEST_MAX_SCHEMA else RESPONSE_MAX_SCHEMA) mt of Some n \<Rightarrow> n | None \<Rightarrow> 0)"

definition SUPPORTED_VERSIONS :: "int set" where
  "SUPPORTED_VERSIONS = {PROTOCOL_VERSION, PROTOCOL_VERSION_LEGACY}"

subsection \<open>MessageEncoder\<close>

record message_encoder =
  enc_version :: int
  enc_max_message_size :: int

definition encoder_init :: "int \<Rightarrow> int \<Rightarrow> message_encoder result" where
  "encoder_init version size_cap =
     (if version \<notin> SUPPORTED_VERSIONS then Inl (HandshakeError BadVersion)
      else if size_cap < 1 then Inl ValueError
      else if MAX_MESSAGE_SIZE_CEILING < size_cap then Inl ValueError
      else Inr \<lparr>enc_version = version, enc_max_message_size = size_cap\<rparr>)"

text \<open>\<^verbatim>\<open>message.encode()\<close> of either kind of message.\<close>

fun encode_frame :: "(pystr \<Rightarrow> bool) \<Rightarrow> message \<Rightarrow> bytes result" where
  "encode_frame iso_ok (Request r) = request_encode iso_ok r"
| "encode_frame iso_ok (Response r) = response_encode iso_ok r"

definition encoder_encode :: "(pystr \<Rightarrow> bool) \<Rightarrow> message_encoder \<Rightarrow> message \<Rightarrow> bytes result" where
  "encoder_encode iso_ok enc m =
     bindE (encode_frame iso_ok m) (\<lambda>frame.
     if enc_max_message_size enc < int (length frame) then Inl (EncodeError Oversized) else Inr frame)"

definition encode_handshake :: "message_encoder \<Rightarrow> bytes" where
  "encode_handshake enc = le_bytes 8 (enc_version enc)"

definition encode_message :: "(pystr \<Rightarrow> bool) \<Rightarrow> message \<Rightarrow> int option \<Rightarrow> bytes result" where
  "encode_message iso_ok m size_cap =
     bindE (encoder_init PROTOCOL_VERSION
       (case size_cap of None \<Rightarrow> DEFAULT_MAX_MESSAGE_SIZE | Some n \<Rightarrow> n)) (\<lambda>enc.
     encoder_encode iso_ok enc m)"

subsection \<open>MessageDecoder: construction\<close>

record message_decoder =
  unknown_role_policy :: string
  dec_text_errors :: text_errors
  dec_buffer :: read_buffer
  dec_max_message_size :: int
  is_request :: bool
  dec_version :: "int option"
  handshake_done :: bool
  continuation_expected :: bool
  dec_max_rows :: int
  max_continuation_frames :: "int option"
  max_total_rows :: "int option"
  continuation_frame_count :: nat
  continuation_total_rows :: nat
  continuation_column_count :: "nat option"
  continuation_column_names :: "pystr list option"

type_synonym 'a decoder_op = "message_decoder \<Rightarrow> 'a result \<times> message_decoder"

text \<open>The keyword arguments of the constructor and their defaults.\<close>

record decoder_args =
  arg_is_request :: bool
  arg_version :: int
  arg_max_message_size :: int
  arg_max_rows :: int
  arg_max_continuation_frames :: "int option"
  arg_max_total_rows :: "int option"
  arg_unknown_role_policy :: string
  arg_text_errors :: string

definition default_args :: decoder_args where
  "default_args = \<lparr>arg_is_request = False, arg_version = PROTOCOL_VERSION,
     arg_max_message_size = DEFAULT_MAX_MESSAGE_SIZE, arg_max_rows = int DEFAULT_MAX_ROWS,
     arg_max_continuation_frames = Some (int DEFAULT_MAX_CONTINUATION_FRAMES),
     arg_max_total_rows = Some (int DEFAULT_MAX_TOTAL_ROWS),
     arg_unknown_role_policy = ''reject'', arg_text_errors = ''strict''\<rparr>"

text \<open>The error handlers whose names the constructor accepts.\<close>

definition text_errors_named :: "string \<rightharpoonup> text_errors" where
  "text_errors_named = map_of
     [(''strict'', Strict), (''replace'', Replace), (''ignore'', Ignore),
      (''backslashreplace'', Backslashreplace), (''surrogateescape'', Surrogateescape),
      (''surrogatepass'', Surrogatepass), (''xmlcharrefreplace'', Xmlcharrefreplace),
      (''namereplace'', Namereplace)]"

text \<open>\<^verbatim>\<open>cap is not None and cap < n\<close>.\<close>

definition exceeds :: "int option \<Rightarrow> int \<Rightarrow> bool" where
  "exceeds cap n = (case cap of None \<Rightarrow> False | Some c \<Rightarrow> c < n)"

definition below_one :: "int option \<Rightarrow> bool" where
  "below_one cap = (case cap of None \<Rightarrow> False | Some c \<Rightarrow> c < 1)"

definition decoder_init :: "decoder_args \<Rightarrow> message_decoder result" where
  "decoder_init a =
     (if arg_version a \<notin> SUPPORTED_VERSIONS then Inl (HandshakeError BadVersion)
      else if MAX_MESSAGE_SIZE_CEILING < arg_max_message_size a then Inl ValueError
      else if arg_max_rows a < 1 then Inl ValueError
      else if below_one (arg_max_continuation_frames a) then Inl ValueError
      else if below_one (arg_max_total_rows a) then Inl ValueError
      else if arg_unknown_role_policy a \<notin> {''reject'', ''warn'', ''accept''} then Inl (DecodeError BadPolicy)
      else (case text_errors_named (arg_text_errors a) of
        None \<Rightarrow> Inl ValueError
      | Some errors \<Rightarrow>
          bindE (buffer_init (arg_max_message_size a)) (\<lambda>b.
          Inr \<lparr>unknown_role_policy = arg_unknown_role_policy a,
               dec_text_errors = errors,
               dec_buffer = b,
               dec_max_message_size = arg_max_message_size a,
               is_request = arg_is_request a,
               dec_version = (if \<not> arg_is_request a then Some (arg_version a) else None),
               handshake_done = (\<not> arg_is_request a),
               continuation_expected = False,
               dec_max_rows = arg_max_rows a,
               max_continuation_frames = arg_max_continuation_frames a,
               max_total_rows = arg_max_total_rows a,
               continuation_frame_count = 0,
               continuation_total_rows = 0,
               continuation_column_count = None,
               continuation_column_names = None\<rparr>)))"

subsection \<open>MessageDecoder: state\<close>

definition finalize_continuation_state :: "message_decoder \<Rightarrow> message_decoder" where
  "finalize_continuation_state d =
     (let d1 = d\<lparr>continuation_expected := False, continuation_frame_count := 0,
                continuation_total_rows := 0, continuation_column_count := None,
                continuation_column_names := None\<rparr>
      in if is_request d then d1\<lparr>handshake_done := False, dec_version := None\<rparr> else d1)"

definition decoder_reset :: "message_decoder \<Rightarrow> message_decoder" where
  "decoder_reset d = finalize_continuation_state (d\<lparr>dec_buffer := buffer_reset (dec_buffer d)\<rparr>)"

text \<open>A method that only forwards to the buffer.\<close>

definition on_buffer :: "'a buffer_op \<Rightarrow> 'a decoder_op" where
  "on_buffer f d = (case f (dec_buffer d) of (r, b) \<Rightarrow> (r, d\<lparr>dec_buffer := b\<rparr>))"

definition poison_decoder :: "exc \<Rightarrow> message_decoder \<Rightarrow> message_decoder" where
  "poison_decoder e d = d\<lparr>dec_buffer := buffer_poison e (dec_buffer d)\<rparr>"

definition decoder_is_poisoned :: "message_decoder \<Rightarrow> bool" where
  "decoder_is_poisoned d = is_poisoned (dec_buffer d)"

definition decoder_feed :: "bytes \<Rightarrow> unit decoder_op" where
  "decoder_feed data = on_buffer (feed data)"

definition decoder_has_message :: "message_decoder \<Rightarrow> bool" where
  "decoder_has_message d = has_message (dec_buffer d)"

definition pending_frame_size :: "nat decoder_op" where
  "pending_frame_size d = (case on_buffer peek_header d of
     (Inl e, d') \<Rightarrow> (Inl e, d')
   | (Inr None, d') \<Rightarrow> (Inr 0, d')
   | (Inr (Some (words, _, _)), d') \<Rightarrow> (Inr (HEADER_SIZE + words * WORD_SIZE), d'))"

definition take_frame :: "bytes option decoder_op" where
  "take_frame = on_buffer read_message"

definition decoder_skip_message :: "bool decoder_op" where
  "decoder_skip_message d =
     (if continuation_expected d then (Inl ContinuationError, d) else on_buffer skip_message d)"

definition decoder_is_skipping :: "message_decoder \<Rightarrow> bool" where
  "decoder_is_skipping d = is_skipping (dec_buffer d)"

subsection \<open>MessageDecoder: decode\<close>

text \<open>The class of the type byte, the schema cap and the dispatch of \<^verbatim>\<open>decode_bytes\<close>.\<close>

definition decode_frame_body :: "message_decoder \<Rightarrow> header \<Rightarrow> bytes \<Rightarrow> message result" where
  "decode_frame_body d h body =
     (if is_request d then
        (case REQUEST_TYPES (msg_type h) of
           None \<Rightarrow> Inl (DecodeError BadTag)
         | Some rt \<Rightarrow>
             if max_schema True (msg_type h) < schema h then Inl (DecodeError BadSchema)
             else bindE (request_decode_body rt body (schema h)) (\<lambda>r. Inr (Request r)))
      else
        (case RESPONSE_TYPES (msg_type h) of
           None \<Rightarrow> Inl (DecodeError BadTag)
         | Some rt \<Rightarrow>
             if max_schema False (msg_type h) < schema h then Inl (DecodeError BadSchema)
             else if rt = RS_LEADER \<and> dec_version d = Some PROTOCOL_VERSION_LEGACY then
               bindE (LeaderResponse_decode_body_legacy body) (\<lambda>r. Inr (Response r))
             else
               bindE (response_decode_body (dec_text_errors d) (dec_max_rows d) (unknown_role_policy d)
                        rt body (schema h)) (\<lambda>r. Inr (Response r))))"

text \<open>\<^verbatim>\<open>decode_bytes\<close> after its poison and handshake checks: a function of the configuration.\<close>

definition decode_frame :: "message_decoder \<Rightarrow> bytes \<Rightarrow> message result" where
  "decode_frame d data =
     (if length data < HEADER_SIZE then Inl (DecodeError TooShort)
      else
        bindE (header_decode (take HEADER_SIZE data)) (\<lambda>h.
        let total_size = int HEADER_SIZE + body_size h in
        if dec_max_message_size d < total_size then Inl (DecodeError Oversized)
        else if int (length data) < total_size then Inl (DecodeError TooShort)
        else if total_size < int (length data) then Inl (DecodeError Trailing)
        else decode_frame_body d h (take (nat (body_size h)) (drop HEADER_SIZE data))))"

definition decode_bytes :: "message_decoder \<Rightarrow> bytes \<Rightarrow> message result" where
  "decode_bytes d data =
     bindE (check_poisoned (dec_buffer d)) (\<lambda>_.
     if \<not> handshake_done d then Inl (HandshakeError NotReady) else decode_frame d data)"

text \<open>What \<^verbatim>\<open>decode\<close> records when the message is a result set that goes on.\<close>

definition start_continuation :: "message_decoder \<Rightarrow> message \<Rightarrow> message_decoder result" where
  "start_continuation d m = (case m of
     Response (RowsResponse r) \<Rightarrow>
       if has_more r then
         (if exceeds (max_total_rows d) (int (length (rows r))) then Inl (DecodeError TooMany)
          else
            Inr (d\<lparr>continuation_expected := True, continuation_frame_count := 1,
                   continuation_total_rows := length (rows r),
                   continuation_column_count := Some (length (column_names r)),
                   continuation_column_names := Some (column_names r)\<rparr>))
       else Inr d
   | _ \<Rightarrow> Inr d)"

definition decode :: "message option decoder_op" where
  "decode d = (case check_poisoned (dec_buffer d) of
     Inl e \<Rightarrow> (Inl e, d)
   | Inr _ \<Rightarrow>
       if continuation_expected d then (Inl ContinuationError, d)
       else if \<not> handshake_done d then (Inl (HandshakeError NotReady), d)
       else (case on_buffer read_message d of
         (Inl e, d1) \<Rightarrow> (Inl e, d1)
       | (Inr None, d1) \<Rightarrow> (Inr None, d1)
       | (Inr (Some data), d1) \<Rightarrow>
           (case bindE (decode_bytes d1 data) (\<lambda>m.
                 bindE (start_continuation d1 m) (\<lambda>d2. Inr (m, d2))) of
              Inl e \<Rightarrow> (Inl e, poison_decoder e d1)
            | Inr (m, d2) \<Rightarrow> (Inr (Some m), d2))))"

subsection \<open>MessageDecoder: continuation frames\<close>

text \<open>\<^verbatim>\<open>ServerFailure(failure.code, failure.message)\<close>; \<^verbatim>\<open>FailureResponse.decode_body\<close> returns no other class.\<close>

fun as_server_failure :: "response \<Rightarrow> exc" where
  "as_server_failure (FailureResponse c m) = ServerFailure c m"
| "as_server_failure _ = TypeError"

text \<open>The counters, caps and cross-frame checks for a decoded \<^verbatim>\<open>ROWS\<close> frame.\<close>

definition continue_rows :: "rows_response \<Rightarrow> response decoder_op" where
  "continue_rows r d =
     (let d1 = d\<lparr>continuation_frame_count := continuation_frame_count d + 1\<rparr> in
      if exceeds (max_continuation_frames d) (int (continuation_frame_count d1))
      then (Inl (DecodeError TooMany), d1)
      else
        (let d2 = d1\<lparr>continuation_total_rows := continuation_total_rows d1 + length (rows r)\<rparr> in
         if exceeds (max_total_rows d) (int (continuation_total_rows d2))
         then (Inl (DecodeError TooMany), d2)
         else if continuation_column_count d \<noteq> None
             \<and> continuation_column_count d \<noteq> Some (length (column_names r))
         then (Inl (DecodeError Drift), d2)
         else if continuation_column_names d \<noteq> None \<and> continuation_column_names d \<noteq> Some (column_names r)
         then (Inl (DecodeError Drift), d2)
         else (Inr (RowsResponse r), if has_more r then d2 else finalize_continuation_state d2)))"

text \<open>The body of the \<^verbatim>\<open>try\<close>, from the frame's bytes on.\<close>

definition continuation_body :: "bytes \<Rightarrow> response decoder_op" where
  "continuation_body data d = (case header_decode (take HEADER_SIZE data) of
     Inl e \<Rightarrow> (Inl e, d)
   | Inr h \<Rightarrow>
       (let body = take (nat (body_size h)) (drop HEADER_SIZE data) in
        if msg_type h \<notin> {response_type_code RS_FAILURE, response_type_code RS_EMPTY, response_type_code RS_ROWS}
        then (Inl (StreamError (continuation_frame_count d) (continuation_total_rows d)),
              finalize_continuation_state d)
        else if max_schema (is_request d) (msg_type h) < schema h then (Inl (DecodeError BadSchema), d)
        else if msg_type h = response_type_code RS_FAILURE then
          (case FailureResponse_decode_body body (schema h) of
             Inl e \<Rightarrow> (Inl e, d)
           | Inr failure \<Rightarrow> (Inl (as_server_failure failure), finalize_continuation_state d))
        else if msg_type h = response_type_code RS_EMPTY then
          (case EmptyResponse_decode_body body (schema h) of
             Inl e \<Rightarrow> (Inl e, d)
           | Inr r \<Rightarrow> (Inr r, finalize_continuation_state d))
        else
          (case RowsResponse_decode_body (dec_text_errors d) (dec_max_rows d) body (schema h) of
             Inl e \<Rightarrow> (Inl e, d)
           | Inr r \<Rightarrow> continue_rows r d)))"

text \<open>The \<^verbatim>\<open>except\<close> clauses after it.\<close>

definition continuation_except :: "exc \<Rightarrow> message_decoder \<Rightarrow> message_decoder" where
  "continuation_except e d =
     (if is_ServerFailure e then d
      else if is_StreamError e then d
      else if is_DecodeError e then finalize_continuation_state d
      else poison_decoder e (finalize_continuation_state d))"

definition decode_continuation :: "response option decoder_op" where
  "decode_continuation d = (case check_poisoned (dec_buffer d) of
     Inl e \<Rightarrow> (Inl e, d)
   | Inr _ \<Rightarrow>
       if \<not> continuation_expected d then (Inl ContinuationError, d)
       else (case on_buffer read_message d of
         (Inl e, d1) \<Rightarrow>
           (Inl e,
            if is_DecodeError e then poison_decoder (DecodeError Oversized) (finalize_continuation_state d1)
            else d1)
       | (Inr None, d1) \<Rightarrow> (Inr None, d1)
       | (Inr (Some data), d1) \<Rightarrow>
           (case continuation_body data d1 of
              (Inl e, d2) \<Rightarrow> (Inl e, continuation_except e d2)
            | (Inr r, d2) \<Rightarrow> (Inr (Some r), d2))))"

subsection \<open>MessageDecoder: handshake\<close>

definition decode_handshake :: "int option decoder_op" where
  "decode_handshake d =
     (if handshake_done d then (Inl (HandshakeError NotReady), d)
      else (case peek_bytes 8 (dec_buffer d) of
        Inl e \<Rightarrow> (Inl e, d)
      | Inr None \<Rightarrow> (Inr None, d)
      | Inr (Some peek) \<Rightarrow>
          (let version = int (le_nat peek) in
           if version \<notin> SUPPORTED_VERSIONS then (Inl (HandshakeError BadVersion), d)
           else
             (let d1 = d\<lparr>dec_version := Some version, handshake_done := True\<rparr> in
              case on_buffer (read_bytes 8) d1 of
                (Inl e, d2) \<Rightarrow> (Inl e, d2\<lparr>handshake_done := False, dec_version := None\<rparr>)
              | (Inr _, d2) \<Rightarrow> (Inr (Some version), d2)))))"

definition force_handshake_for_stateless :: "int \<Rightarrow> message_decoder \<Rightarrow> message_decoder result" where
  "force_handshake_for_stateless version d =
     (if version \<notin> SUPPORTED_VERSIONS then Inl (HandshakeError BadVersion)
      else Inr (d\<lparr>dec_version := Some version, handshake_done := True\<rparr>))"

subsection \<open>decode\_message\<close>

text \<open>The outer option of the last two is \<^verbatim>\<open>_UNSET\<close>, the inner one Python's \<^verbatim>\<open>None\<close>.\<close>

definition stateless_decoder ::
  "bool \<Rightarrow> int \<Rightarrow> string \<Rightarrow> string \<Rightarrow> int option \<Rightarrow> int option \<Rightarrow> int option option \<Rightarrow> int option option
    \<Rightarrow> message_decoder result"
where
  "stateless_decoder req version policy errors size_cap row_cap frame_cap total_cap =
     bindE (decoder_init
       \<lparr>arg_is_request = req, arg_version = version,
        arg_max_message_size = (case size_cap of None \<Rightarrow> arg_max_message_size default_args | Some n \<Rightarrow> n),
        arg_max_rows = (case row_cap of None \<Rightarrow> arg_max_rows default_args | Some n \<Rightarrow> n),
        arg_max_continuation_frames =
          (case frame_cap of None \<Rightarrow> arg_max_continuation_frames default_args | Some c \<Rightarrow> c),
        arg_max_total_rows = (case total_cap of None \<Rightarrow> arg_max_total_rows default_args | Some c \<Rightarrow> c),
        arg_unknown_role_policy = policy, arg_text_errors = errors\<rparr>) (\<lambda>d.
     if req then force_handshake_for_stateless version d else Inr d)"

definition decode_message ::
  "bytes \<Rightarrow> bool \<Rightarrow> int \<Rightarrow> string \<Rightarrow> string \<Rightarrow> int option \<Rightarrow> int option
    \<Rightarrow> int option option \<Rightarrow> int option option \<Rightarrow> message result"
where
  "decode_message data req version policy errors size_cap row_cap frame_cap total_cap =
     bindE (stateless_decoder req version policy errors size_cap row_cap frame_cap total_cap) (\<lambda>d.
     decode_bytes d data)"

subsection \<open>What a reader sees of a message\<close>

fun message_image :: "message \<Rightarrow> message" where
  "message_image (Request r) = Request (request_image r)"
| "message_image (Response r) = Response (response_image r)"

text \<open>
  The messages a decoder takes in: valid objects of its direction, of a type that is
  dispatched, below its caps, and no leader reply to a reader of the legacy protocol.
\<close>

fun sendable :: "message_decoder \<Rightarrow> message \<Rightarrow> bool" where
  "sendable d (Request r) =
     (is_request d \<and> request_post_init r = Inr r \<and> strict_request r
      \<and> request_MSG_TYPE r \<notin> {RT_HEARTBEAT, RT_CONNECT})"
| "sendable d (Response r) =
     (\<not> is_request d \<and> response_valid r \<and> response_acceptable (dec_max_rows d) r
      \<and> (response_MSG_TYPE r = RS_LEADER \<longrightarrow> dec_version d \<noteq> Some PROTOCOL_VERSION_LEGACY))"

text \<open>A message that does not open a continuation.\<close>

fun complete :: "message \<Rightarrow> bool" where
  "complete (Response (RowsResponse r)) = (\<not> has_more r)"
| "complete _ = True"

subsection \<open>Reachable decoders\<close>

datatype decoder_call =
    DFeed bytes | DDecode | DContinue | DSkip | DTake | DPeek | DHandshake | DReset

fun decoder_step :: "decoder_call \<Rightarrow> message_decoder \<Rightarrow> message_decoder" where
  "decoder_step (DFeed data) d = snd (decoder_feed data d)"
| "decoder_step DDecode d = snd (decode d)"
| "decoder_step DContinue d = snd (decode_continuation d)"
| "decoder_step DSkip d = snd (decoder_skip_message d)"
| "decoder_step DTake d = snd (take_frame d)"
| "decoder_step DPeek d = snd (pending_frame_size d)"
| "decoder_step DHandshake d = snd (decode_handshake d)"
| "decoder_step DReset d = decoder_reset d"

inductive decoder_reachable :: "decoder_args \<Rightarrow> message_decoder \<Rightarrow> bool" for a where
  init: "decoder_init a = Inr d \<Longrightarrow> decoder_reachable a d"
| step: "decoder_reachable a d \<Longrightarrow> decoder_reachable a (decoder_step c d)"

definition within :: "int option \<Rightarrow> nat \<Rightarrow> bool" where
  "within cap n = (\<not> exceeds cap (int n))"

definition decoder_config :: "message_decoder \<Rightarrow> bool" where
  "decoder_config d =
     (buffer_inv (dec_buffer d)
      \<and> int (max_message_size (dec_buffer d)) = dec_max_message_size d
      \<and> \<not> below_one (max_continuation_frames d) \<and> \<not> below_one (max_total_rows d)
      \<and> unknown_role_policy d \<in> {''reject'', ''warn'', ''accept''}
      \<and> (handshake_done d \<longleftrightarrow> dec_version d \<noteq> None)
      \<and> (\<not> is_request d \<longrightarrow> handshake_done d)
      \<and> set_option (dec_version d) \<subseteq> SUPPORTED_VERSIONS)"

definition continuation_inv :: "message_decoder \<Rightarrow> bool" where
  "continuation_inv d =
     (if continuation_expected d then
        \<not> is_request d \<and> 1 \<le> continuation_frame_count d
        \<and> within (max_continuation_frames d) (continuation_frame_count d)
        \<and> within (max_total_rows d) (continuation_total_rows d)
        \<and> continuation_column_names d \<noteq> None
        \<and> continuation_column_count d = map_option length (continuation_column_names d)
      else
        continuation_frame_count d = 0 \<and> continuation_total_rows d = 0
        \<and> continuation_column_names d = None \<and> continuation_column_count d = None)"

definition decoder_inv :: "message_decoder \<Rightarrow> bool" where
  "decoder_inv d = (decoder_config d \<and> continuation_inv d)"

text \<open>A decoder between messages, outside of errors.\<close>

definition decoder_idle :: "message_decoder \<Rightarrow> bool" where
  "decoder_idle d =
     (decoder_inv d \<and> buffer_ready (dec_buffer d) \<and> handshake_done d \<and> \<not> continuation_expected d)"

section \<open>Lemmas\<close>

subsection \<open>Frames of messages\<close>

lemma REQUEST_TYPES_code:
  "REQUEST_TYPES (request_type_code t) = (if t \<in> {RT_HEARTBEAT, RT_CONNECT} then None else Some t)"
  by (cases t) (simp_all add: REQUEST_TYPES_def)

lemma RESPONSE_TYPES_code [simp]: "RESPONSE_TYPES (response_type_code t) = Some t"
  by (cases t) (simp_all add: RESPONSE_TYPES_def)

lemma decode_frame_buffer [simp]: "decode_frame (d\<lparr>dec_buffer := b\<rparr>) data = decode_frame d data"
proof -
  have "decode_frame_body (d\<lparr>dec_buffer := b\<rparr>) = decode_frame_body d"
    by (intro ext) (simp add: decode_frame_body_def cong: if_cong option.case_cong)
  then show ?thesis by (simp add: decode_frame_def cong: if_cong)
qed

lemma params_schema_supported: "validate_params_hints q = Inr u \<Longrightarrow> params_get_schema q \<le> 1"
  by (auto simp: validate_params_hints_def validate_decoded_schema_def params_get_schema_def bind_inv
      split: option.splits if_splits)

lemma request_schema_supported:
  assumes "request_check r = Inr ()"
  shows "request_get_schema r \<le> max_schema True (request_type_code (request_MSG_TYPE r))"
  using assms
  by (cases r) (auto simp: max_schema_def REQUEST_MAX_SCHEMA_def request_defs bind_inv params_schema_supported)

lemma response_schema_supported:
  assumes "response_valid r"
  shows "response_get_schema r \<le> max_schema False (response_type_code (response_MSG_TYPE r))"
  using assms
  by (cases r) (auto simp: max_schema_def RESPONSE_MAX_SCHEMA_def stmt_get_schema_def stmt_valid_def
      StmtResponse_init_def bind_inv split: option.splits if_splits)

text \<open>Decoding a frame that was written for a body of a given type and schema.\<close>

lemma header_bytes_frame:
  assumes "length body mod 8 = 0" and "length body div 8 < 2 ^ 32"
  shows "is_frame (header_bytes (length body div 8) mt sc @ body)"
proof -
  have "le_nat (le_bytes 4 (int (length body div 8))) = length body div 8"
    using assms(2) by (intro le_nat_le_bytes_nat) simp
  then have "le_nat (take 4 (header_bytes (length body div 8) mt sc @ body)) * 8 = length body"
    using assms(1) by (simp add: header_bytes_def mod_0_imp_dvd)
  then show ?thesis by (simp add: is_frame_def)
qed

lemma decode_frame_header_bytes:
  assumes "length body mod 8 = 0" and "length body div 8 < 2 ^ 32" and "0 \<le> mt" "mt < 256" "0 \<le> sc" "sc < 256"
    and "int (8 + length body) \<le> dec_max_message_size d"
  shows "decode_frame d (header_bytes (length body div 8) mt sc @ body)
    = decode_frame_body d \<lparr>size_words = int (length body div 8), msg_type = mt, schema = sc, reserved = 0\<rparr> body"
proof -
  have h: "header_decode (header_bytes (length body div 8) mt sc)
      = Inr \<lparr>size_words = int (length body div 8), msg_type = mt, schema = sc, reserved = 0\<rparr>"
    using header_decode_header_bytes [OF assms(2-6), of "[]"] by simp
  have "int (length body div 8) * 8 = int (length body)" using assms(1) by auto
  then show ?thesis using assms(7) by (simp add: decode_frame_def h body_size_def Let_def)
qed

lemma frame_roundtrip:
  assumes "encode_frame iso_ok m = Inr f" and "sendable d m" and "int (length f) \<le> dec_max_message_size d"
    and "unknown_role_policy d \<in> {''reject'', ''warn'', ''accept''}"
  shows "decode_frame d f = Inr (message_image m) \<and> is_frame f"
proof (cases m)
  case (Request r)
  then have "request_encode iso_ok r = Inr f" using assms(1) by simp
  then obtain body where e: "request_encode_body iso_ok r = Inr body" and b: "length body mod 8 = 0" "length body div 8 < 2 ^ 32"
    "0 \<le> request_type_code (request_MSG_TYPE r)" "request_type_code (request_MSG_TYPE r) < 256"
    "0 \<le> request_get_schema r" "request_get_schema r < 256"
    and f: "f = header_bytes (length body div 8) (request_type_code (request_MSG_TYPE r)) (request_get_schema r) @ body"
    unfolding request_encode_def message_encode_eq_Inr by (elim exE conjE) (rule that)
  have s: "is_request d" "strict_request r" "request_check r = Inr ()" "request_MSG_TYPE r \<notin> {RT_HEARTBEAT, RT_CONNECT}"
    using assms(2) Request by (auto simp: request_post_init_def bindE_eq_Inr)
  show ?thesis
    using decode_frame_header_bytes [OF b] header_bytes_frame [OF b(1,2)] request_body_roundtrip [OF s(3) e s(2)]
      request_schema_supported [OF s(3)] assms(3) s(1,4) Request
    by (simp add: f decode_frame_body_def REQUEST_TYPES_code not_less)
next
  case (Response r)
  then have "response_encode iso_ok r = Inr f" using assms(1) by simp
  then obtain body where e: "response_encode_body iso_ok r = Inr body" and b: "length body mod 8 = 0" "length body div 8 < 2 ^ 32"
    "0 \<le> response_type_code (response_MSG_TYPE r)" "response_type_code (response_MSG_TYPE r) < 256"
    "0 \<le> response_get_schema r" "response_get_schema r < 256"
    and f: "f = header_bytes (length body div 8) (response_type_code (response_MSG_TYPE r)) (response_get_schema r) @ body"
    unfolding response_encode_def message_encode_eq_Inr by (elim exE conjE) (rule that)
  have s: "\<not> is_request d" "response_valid r" "response_acceptable (dec_max_rows d) r"
    "response_MSG_TYPE r = RS_LEADER \<longrightarrow> dec_version d \<noteq> Some PROTOCOL_VERSION_LEGACY"
    using assms(2) Response by simp_all
  have "decode_frame_body d \<lparr>size_words = int (length body div 8),
      msg_type = response_type_code (response_MSG_TYPE r), schema = response_get_schema r, reserved = 0\<rparr> body
    = Inr (Response (response_image r))"
    using response_body_roundtrip [OF s(2) e s(3) assms(4)] response_schema_supported [OF s(2)] s(1,4)
    by (auto simp: decode_frame_body_def not_less)
  then show ?thesis
    using decode_frame_header_bytes [OF b, of d] header_bytes_frame [OF b(1,2)] assms(3) Response by (simp add: f)
qed

subsection \<open>The invariant\<close>

lemmas decoder_inv_defs = decoder_inv_def decoder_config_def continuation_inv_def

lemma finalize_fields [simp]:
  "dec_buffer (finalize_continuation_state d) = dec_buffer d"
  "is_request (finalize_continuation_state d) = is_request d"
  "\<not> continuation_expected (finalize_continuation_state d)"
  by (simp_all add: finalize_continuation_state_def Let_def)

lemma finalize_inv: "decoder_config d \<Longrightarrow> decoder_inv (finalize_continuation_state d)"
  by (auto simp: decoder_inv_defs finalize_continuation_state_def Let_def)

lemma finalize_response: "\<not> is_request d \<Longrightarrow> finalize_continuation_state d
    = d\<lparr>continuation_expected := False, continuation_frame_count := 0, continuation_total_rows := 0,
        continuation_column_count := None, continuation_column_names := None\<rparr>"
  by (simp add: finalize_continuation_state_def)

lemma buffer_update_inv:
  assumes "decoder_inv d" and "buffer_inv b" and "max_message_size b = max_message_size (dec_buffer d)"
  shows "decoder_inv (d\<lparr>dec_buffer := b\<rparr>)"
  using assms by (auto simp: decoder_inv_defs)

lemma buffer_update_step: "decoder_inv d \<Longrightarrow> decoder_inv (d\<lparr>dec_buffer := buffer_step c (dec_buffer d)\<rparr>)"
  by (rule buffer_update_inv) (auto simp: buffer_step_inv decoder_inv_def decoder_config_def)

lemma poison_decoder_inv: "decoder_inv d \<Longrightarrow> decoder_inv (poison_decoder e d)"
  using buffer_update_step [of d "CallPoison e"] by (simp add: poison_decoder_def)

lemma on_buffer_eq: "on_buffer f d = (fst (f (dec_buffer d)), d\<lparr>dec_buffer := snd (f (dec_buffer d))\<rparr>)"
  by (simp add: on_buffer_def case_prod_beta)

lemma on_buffer_inv:
  assumes "decoder_inv d" and "\<And>b. snd (f b) = buffer_step c b"
  shows "decoder_inv (snd (on_buffer f d))"
  using buffer_update_step [OF assms(1), of c] by (simp add: on_buffer_eq assms(2))

lemma start_continuation_inv:
  assumes "decoder_inv d" and "start_continuation d m = Inr d'" and "\<not> is_request d \<or> (\<forall>r. m \<noteq> Response r)"
  shows "decoder_inv d'"
proof (cases "d' = d")
  case False
  then obtain r where r: "m = Response (RowsResponse r)" "has_more r" "\<not> exceeds (max_total_rows d) (int (length (rows r)))"
    "d' = d\<lparr>continuation_expected := True, continuation_frame_count := 1,
                   continuation_total_rows := length (rows r),
                   continuation_column_count := Some (length (column_names r)),
                   continuation_column_names := Some (column_names r)\<rparr>"
    using assms(2) by (auto simp: start_continuation_def split: message.splits response.splits if_splits)
  then show ?thesis
    using assms(1,3) by (auto simp: decoder_inv_defs within_def below_one_def exceeds_def split: option.splits)
qed (use assms in simp)

lemma decode_frame_direction:
  assumes "decode_frame d data = Inr m"
  shows "\<not> is_request d \<or> (\<forall>r. m \<noteq> Response r)"
  using assms by (auto simp: decode_frame_def decode_frame_body_def Let_def bindE_eq_Inr split: if_splits option.splits)

lemma decode_inv:
  assumes "decoder_inv d"
  shows "decoder_inv (snd (decode d))"
proof -
  let ?d = "d\<lparr>dec_buffer := buffer_step CallRead (dec_buffer d)\<rparr>"
  have i: "decoder_inv ?d" using assms by (rule buffer_update_step)
  then show ?thesis
    using assms poison_decoder_inv [OF i] start_continuation_inv [OF i] decode_frame_direction
    by (auto simp: decode_def on_buffer_eq decode_bytes_def bindE_eq_Inr split: sum.splits option.splits if_splits)
qed

lemma config_counters [simp]:
  "decoder_config (d\<lparr>continuation_frame_count := n\<rparr>) = decoder_config d"
  "decoder_config (d\<lparr>continuation_total_rows := k\<rparr>) = decoder_config d"
  by (simp_all add: decoder_config_def)

lemma finalize_counters [simp]:
  "finalize_continuation_state (d\<lparr>continuation_frame_count := n\<rparr>) = finalize_continuation_state d"
  "finalize_continuation_state (d\<lparr>continuation_total_rows := k\<rparr>) = finalize_continuation_state d"
  by (simp_all add: finalize_continuation_state_def)

lemma continue_rows_cases:
  assumes "continue_rows r d = (res, d')"
  obtains (error) f where "res = Inl (DecodeError f)" "decoder_config d' = decoder_config d"
      "finalize_continuation_state d' = finalize_continuation_state d"
  | (rows) d2 where "res = Inr (RowsResponse r)"
      "d2 = d\<lparr>continuation_frame_count := continuation_frame_count d + 1,
              continuation_total_rows := continuation_total_rows d + length (rows r)\<rparr>"
      "d' = (if has_more r then d2 else finalize_continuation_state d2)"
      "within (max_continuation_frames d) (continuation_frame_count d + 1)"
      "within (max_total_rows d) (continuation_total_rows d + length (rows r))"
      "continuation_column_count d \<noteq> None \<Longrightarrow> continuation_column_count d = Some (length (column_names r))"
      "continuation_column_names d \<noteq> None \<Longrightarrow> continuation_column_names d = Some (column_names r)"
  using assms by (auto simp: continue_rows_def Let_def within_def split: if_splits)

lemma continue_rows_inv:
  assumes "decoder_inv d" and "continuation_expected d" and "continue_rows r d = (Inr m, d')"
  shows "decoder_inv d'"
  using assms(3)
proof (cases rule: continue_rows_cases)
  case (rows d2)
  then have "decoder_inv d2" using assms(1,2) by (auto simp: decoder_inv_defs)
  then show ?thesis using rows(3) finalize_inv by (auto simp: decoder_inv_def)
qed simp

lemma continuation_body_inv:
  assumes "decoder_inv d" and "continuation_expected d" and "continuation_body data d = (res, d')"
  shows "decoder_config d'" and "(\<forall>e. res \<noteq> Inl (DecodeError e)) \<Longrightarrow> decoder_inv d'"
proof -
  have c: "decoder_config d" using assms(1) by (simp add: decoder_inv_def)
  have rows: "decoder_config d' \<and> ((\<forall>e. res \<noteq> Inl (DecodeError e)) \<longrightarrow> decoder_inv d')"
    if r: "continue_rows r d = (res, d')" for r
    using r
  proof (cases rule: continue_rows_cases)
    case (rows d2)
    then show ?thesis using continue_rows_inv [OF assms(1,2)] r by (auto simp: decoder_inv_def)
  qed (use c in simp)
  have "decoder_config d' \<and> ((\<forall>e. res \<noteq> Inl (DecodeError e)) \<longrightarrow> decoder_inv d')"
    using assms rows finalize_inv [OF c] c
    by (auto simp: continuation_body_def Let_def decoder_inv_def split: sum.splits if_splits)
  then show "decoder_config d'" and "(\<forall>e. res \<noteq> Inl (DecodeError e)) \<Longrightarrow> decoder_inv d'" by simp_all
qed

lemma continuation_except_inv:
  assumes "decoder_config d" and "(\<forall>f. e \<noteq> DecodeError f) \<Longrightarrow> decoder_inv d"
  shows "decoder_inv (continuation_except e d)"
  using assms finalize_inv [OF assms(1)] poison_decoder_inv [OF finalize_inv [OF assms(1)]]
  by (auto simp: continuation_except_def is_DecodeError_iff)

lemma decode_continuation_inv:
  assumes "decoder_inv d"
  shows "decoder_inv (snd (decode_continuation d))"
proof -
  let ?d = "d\<lparr>dec_buffer := buffer_step CallRead (dec_buffer d)\<rparr>"
  have i: "decoder_inv ?d" using assms by (rule buffer_update_step)
  have f: "decoder_inv (poison_decoder e (finalize_continuation_state ?d))" for e
    using i by (intro poison_decoder_inv finalize_inv) (simp add: decoder_inv_def)
  have body: "decoder_inv (continuation_except e d2)" if "continuation_body data ?d = (Inl e, d2)" "continuation_expected d" for data e d2
    using continuation_body_inv [OF i _ that(1)] continuation_except_inv that(2) by simp
  have rows: "decoder_inv d2" if "continuation_body data ?d = (Inr r, d2)" "continuation_expected d" for data r d2
    using continuation_body_inv [OF i _ that(1)] that(2) by simp
  show ?thesis
    using assms i f body rows
    by (auto simp: decode_continuation_def on_buffer_eq split: prod.splits sum.splits option.splits if_splits)
qed

lemma decode_handshake_inv: "decoder_inv d \<Longrightarrow> decoder_inv (snd (decode_handshake d))"
  using buffer_update_step [of d "CallReadBytes 8"]
  by (auto simp: decode_handshake_def on_buffer_eq Let_def decoder_inv_defs split: prod.splits sum.splits option.splits if_splits)

lemma decoder_step_inv: "decoder_inv d \<Longrightarrow> decoder_inv (decoder_step c d)"
proof (cases c)
  case (DFeed data)
  assume "decoder_inv d"
  then show ?thesis using on_buffer_inv [of d "feed data" "CallFeed data"] DFeed by (simp add: decoder_feed_def)
next
  case DSkip
  assume "decoder_inv d"
  then show ?thesis using on_buffer_inv [of d skip_message CallSkip] DSkip by (simp add: decoder_skip_message_def)
next
  case DTake
  assume "decoder_inv d"
  then show ?thesis using on_buffer_inv [of d read_message CallRead] DTake by (simp add: take_frame_def)
next
  case DPeek
  assume "decoder_inv d"
  moreover have "snd (pending_frame_size d) = snd (on_buffer peek_header d)"
    by (auto simp: pending_frame_size_def split: prod.splits sum.splits option.splits)
  ultimately show ?thesis using on_buffer_inv [of d peek_header CallPeek] DPeek by simp
next
  case DReset
  assume "decoder_inv d"
  then show ?thesis using buffer_update_step [of d CallReset] finalize_inv DReset
    by (simp add: decoder_reset_def decoder_inv_def)
qed (simp_all add: decode_inv decode_continuation_inv decode_handshake_inv)

lemma decoder_init_inv:
  assumes "decoder_init a = Inr d"
  shows "decoder_inv d \<and> buffer_ready (dec_buffer d) \<and> pending (dec_buffer d) = [] \<and> \<not> continuation_expected d
    \<and> is_request d = arg_is_request a \<and> handshake_done d = (\<not> arg_is_request a)"
proof -
  obtain b where b: "buffer_init (arg_max_message_size a) = Inr b"
    using assms by (auto simp: decoder_init_def bindE_eq_Inr split: if_splits option.splits)
  have "buffer_ready b" "pending b = []" "int (max_message_size b) = arg_max_message_size a" using init_ready [OF b] by simp_all
  then show ?thesis
    using assms b by (auto simp: decoder_init_def bindE_eq_Inr decoder_inv_defs buffer_ready_def split: if_splits option.splits)
qed

lemma decoder_reachable_inv: "decoder_reachable a d \<Longrightarrow> decoder_inv d"
  by (induction rule: decoder_reachable.induct) (simp_all add: decoder_init_inv decoder_step_inv)

subsection \<open>The decoder as a byte stream\<close>

text \<open>
  \<^verbatim>\<open>feed\<close> and \<^verbatim>\<open>take_frame\<close> promise to the owner of a decoder what the buffer promises to the
  decoder; decoding is then the same stream with every frame replaced by its message.
\<close>

abbreviation unread :: "message_decoder \<Rightarrow> bytes" where
  "unread d \<equiv> pending (dec_buffer d)"

interpretation dec: byte_stream decoder_feed take_frame unread "\<lambda>d. buffer_ready (dec_buffer d)"
    "\<lambda>d. max_message_size (dec_buffer d)"
proof unfold_locales
  fix s d u s'
  assume "buffer_ready (dec_buffer s)" "decoder_feed d s = (Inr u, s')"
  then show "buffer_ready (dec_buffer s') \<and> unread s' = unread s @ d
      \<and> max_message_size (dec_buffer s') = max_message_size (dec_buffer s)"
    using buf.feed_law [of "dec_buffer s" d u] by (auto simp: decoder_feed_def on_buffer_def split: prod.splits)
next
  fix s and d :: bytes
  assume "buffer_ready (dec_buffer s)" "length (unread s) + length d \<le> max_message_size (dec_buffer s)"
  then show "\<exists>s'. decoder_feed d s = (Inr (), s')"
    using buf.feed_live [of "dec_buffer s" d] by (auto simp: decoder_feed_def on_buffer_def)
next
  fix s f s'
  assume "buffer_ready (dec_buffer s)" "take_frame s = (Inr (Some f), s')"
  then show "buffer_ready (dec_buffer s') \<and> unread s = f @ unread s' \<and> is_frame f
      \<and> max_message_size (dec_buffer s') = max_message_size (dec_buffer s)"
    using buf.read_some [of "dec_buffer s" f] by (auto simp: take_frame_def on_buffer_def split: prod.splits)
next
  fix s s' :: message_decoder
  assume "buffer_ready (dec_buffer s)" "take_frame s = (Inr None, s')"
  then show "s' = s"
    using buf.read_none [of "dec_buffer s"] by (auto simp: take_frame_def on_buffer_def split: prod.splits)
next
  fix s f rest
  assume "buffer_ready (dec_buffer s)" "unread s = f @ rest" "is_frame f" "length f \<le> max_message_size (dec_buffer s)"
  then show "\<exists>s'. take_frame s = (Inr (Some f), s')"
    using buf.read_live [of "dec_buffer s" f rest] by (auto simp: take_frame_def on_buffer_def)
qed

lemma idle_update:
  assumes "decoder_idle d" and "buffer_ready b" and "max_message_size b = max_message_size (dec_buffer d)"
  shows "decoder_idle (d\<lparr>dec_buffer := b\<rparr>)"
  using assms buffer_update_inv [of d b] by (simp add: decoder_idle_def buffer_ready_def)

lemma on_buffer_update:
  assumes "on_buffer f d = (res, d')"
  obtains b where "d' = d\<lparr>dec_buffer := b\<rparr>"
  using assms by (auto simp: on_buffer_eq)

text \<open>\<^verbatim>\<open>decode\<close> of a decoder that is ready for a message: take the frame, then decode it.\<close>

lemma decode_ready:
  assumes "poisoned (dec_buffer d) = None" and "handshake_done d" and "\<not> continuation_expected d"
  shows "decode d = (case take_frame d of
      (Inl e, d1) \<Rightarrow> (Inl e, d1)
    | (Inr None, d1) \<Rightarrow> (Inr None, d1)
    | (Inr (Some f), d1) \<Rightarrow>
        (case bindE (decode_frame d f) (\<lambda>m. bindE (start_continuation d1 m) (\<lambda>d2. Inr (m, d2))) of
           Inl e \<Rightarrow> (Inl e, poison_decoder e d1)
         | Inr (m, d2) \<Rightarrow> (Inr (Some m), d2)))"
proof (cases "take_frame d")
  case (Pair res d1)
  have r: "res = fst (read_message (dec_buffer d))" "d1 = d\<lparr>dec_buffer := snd (read_message (dec_buffer d))\<rparr>"
    using Pair by (simp_all add: take_frame_def on_buffer_eq)
  show ?thesis
  proof (cases res)
    case (Inr o')
    show ?thesis
    proof (cases o')
      case (Some f)
      then have "poisoned (snd (read_message (dec_buffer d))) = None"
        using read_message_frame [OF assms(1), of f "snd (read_message (dec_buffer d))"] r Inr assms(1)
        by (metis advance_fields(3) prod.collapse)
      then have "decode_bytes d1 f = decode_frame d f" using assms r by (simp add: decode_bytes_def check_poisoned_def)
      then show ?thesis using assms Pair Inr Some by (simp add: decode_def take_frame_def check_poisoned_def)
    qed (use assms Pair Inr in \<open>simp add: decode_def take_frame_def check_poisoned_def\<close>)
  qed (use assms Pair in \<open>simp add: decode_def take_frame_def check_poisoned_def\<close>)
qed

lemma start_complete [simp]: "complete m \<Longrightarrow> start_continuation d m = Inr d"
  by (auto simp: start_continuation_def split: message.splits response.splits)

lemma decode_complete:
  assumes "decoder_idle d" and "take_frame d = (Inr (Some f), d1)" and "decode_frame d f = Inr m" and "complete m"
  shows "decode d = (Inr (Some m), d1)" and "decoder_idle d1" and "decode_frame d1 = decode_frame d"
    and "max_message_size (dec_buffer d1) = max_message_size (dec_buffer d)"
    and "unread d = f @ unread d1" and "is_frame f"
proof -
  have i: "buffer_ready (dec_buffer d)" "poisoned (dec_buffer d) = None" "handshake_done d" "\<not> continuation_expected d"
    using assms(1) by (simp_all add: decoder_idle_def buffer_ready_def)
  show "decode d = (Inr (Some m), d1)" using decode_ready [OF i(2-4)] assms(2-4) by simp
  note r = dec.read_some [OF i(1) assms(2)]
  obtain b where u: "d1 = d\<lparr>dec_buffer := b\<rparr>" using on_buffer_update assms(2) unfolding take_frame_def by blast
  show "decoder_idle d1" using idle_update [OF assms(1), of b] r u by simp
  show "decode_frame d1 = decode_frame d" by (rule ext) (simp add: u)
  show "max_message_size (dec_buffer d1) = max_message_size (dec_buffer d)" "unread d = f @ unread d1" "is_frame f"
    using r by simp_all
qed

text \<open>The frame of a complete message of a decoder, with the message.\<close>

definition parsed :: "message_decoder \<Rightarrow> bytes \<Rightarrow> message \<Rightarrow> bool" where
  "parsed d f m = (is_frame f \<and> length f \<le> max_message_size (dec_buffer d) \<and> decode_frame d f = Inr m \<and> complete m)"

lemma parsed_cong:
  assumes "decode_frame d1 = decode_frame d" and "max_message_size (dec_buffer d1) = max_message_size (dec_buffer d)"
  shows "parsed d1 = parsed d"
  using assms by (intro ext) (simp add: parsed_def)

text \<open>\<^verbatim>\<open>decode\<close> on a stream of such frames.\<close>

interpretation idle: scripted_reader decoder_feed take_frame unread "\<lambda>d. buffer_ready (dec_buffer d)"
    "\<lambda>d. max_message_size (dec_buffer d)" decode "\<lambda>d fs ms. decoder_idle d \<and> list_all2 (parsed d) fs ms"
proof unfold_locales
  fix s fs ns
  assume "decoder_idle s \<and> list_all2 (parsed s) fs ns"
  then show "buffer_ready (dec_buffer s)"
    and "list_all2 (\<lambda>f n. is_frame f \<and> length f \<le> max_message_size (dec_buffer s)) fs ns"
    by (auto simp: decoder_idle_def parsed_def elim: list_all2_mono)
next
  fix s fs ns c u s'
  assume p: "decoder_idle s \<and> list_all2 (parsed s) fs ns" and f: "decoder_feed c s = (Inr u, s')"
  obtain b where b: "s' = s\<lparr>dec_buffer := b\<rparr>" using on_buffer_update f unfolding decoder_feed_def by blast
  have "buffer_ready (dec_buffer s)" using p by (simp add: decoder_idle_def)
  note l = dec.feed_law [OF this f]
  have "decoder_idle s'" using idle_update [of s b] p l b by simp
  moreover have "decode_frame s' = decode_frame s" by (rule ext) (simp add: b)
  then have "parsed s' = parsed s" using parsed_cong l by blast
  ultimately show "decoder_idle s' \<and> list_all2 (parsed s') fs ns" using p by simp
next
  fix s fs ns
  assume "decoder_idle s \<and> list_all2 (parsed s) fs ns" "take_frame s = (Inr None, s)"
  then show "decode s = (Inr None, s)" by (simp add: decode_ready decoder_idle_def buffer_ready_def)
next
  fix s fs ns e s'
  assume "decoder_idle s \<and> list_all2 (parsed s) fs ns" "take_frame s = (Inl e, s')"
  then show "fst (decode s) = Inl e" by (simp add: decode_ready decoder_idle_def buffer_ready_def)
next
  fix s f fs n ns s'
  assume p: "decoder_idle s \<and> list_all2 (parsed s) (f # fs) (n # ns)" and t: "take_frame s = (Inr (Some f), s')"
  then have m: "decode_frame s f = Inr n" "complete n" by (simp_all add: parsed_def)
  note c = decode_complete [OF conjunct1 [OF p] t m]
  then show "\<exists>t. decode s = (Inr (Some n), t) \<and> (decoder_idle t \<and> list_all2 (parsed t) fs ns) \<and> unread t = unread s'"
    using p parsed_cong [OF c(3,4)] by auto
qed

end
