(* ===== verification/Sessions.thy ===== *)
theory Sessions
  imports Codec
begin

text \<open>
  What a connection sees of \<^verbatim>\<open>MessageEncoder\<close> and \<^verbatim>\<open>MessageDecoder\<close>: whole messages through
  the stateless helpers and through a chunked stream, the version handshake, result sets that
  span several frames, what every error leaves behind, and the invariant of every decoder that
  can be reached by calls.
\<close>

section \<open>Definitions\<close>

text \<open>The frames of one result set: all but the last announce that more follows.\<close>

fun parts :: "rows_response list \<Rightarrow> bool" where
  "parts [] = False"
| "parts [r] = (\<not> has_more r)"
| "parts (r # rs) = (has_more r \<and> parts rs)"

section \<open>Lemmas\<close>

subsection \<open>Continuation frames\<close>

lemma within_mono: "within cap n \<Longrightarrow> m \<le> n \<Longrightarrow> within cap m"
  by (auto simp: within_def exceeds_def split: option.splits)

lemma finalize_handshake [simp]:
  "\<not> is_request d \<Longrightarrow> handshake_done (finalize_continuation_state d) = handshake_done d"
  by (simp add: finalize_response)

lemma rows_image_fields [simp]:
  "column_names (rows_image r) = column_names r" "has_more (rows_image r) = has_more r"
  "length (rows (rows_image r)) = length (rows r)"
  by (simp_all add: rows_image_def Let_def)

text \<open>An encoded response, taken apart by a reader: header and body.\<close>

lemma response_frame:
  assumes "response_encode iso_ok r = Inr f" and "response_valid r" and "response_acceptable max_rows r"
  obtains h body where "header_decode (take 8 f) = Inr h" "take (nat (body_size h)) (drop 8 f) = body"
    "msg_type h = response_type_code (response_MSG_TYPE r)" "schema h = response_get_schema r" "is_frame f"
    "response_decode_body errors max_rows ''reject'' (response_MSG_TYPE r) body (schema h) = Inr (response_image r)"
proof -
  obtain body where e: "response_encode_body iso_ok r = Inr body" and b: "length body mod 8 = 0" "length body div 8 < 2 ^ 32"
    "0 \<le> response_type_code (response_MSG_TYPE r)" "response_type_code (response_MSG_TYPE r) < 256"
    "0 \<le> response_get_schema r" "response_get_schema r < 256"
    and f: "f = header_bytes (length body div 8) (response_type_code (response_MSG_TYPE r)) (response_get_schema r) @ body"
    using assms(1) unfolding response_encode_def message_encode_eq_Inr by (elim exE conjE) (rule that)
  let ?h = "\<lparr>size_words = int (length body div 8), msg_type = response_type_code (response_MSG_TYPE r),
    schema = response_get_schema r, reserved = 0\<rparr>"
  have "header_decode (take 8 f) = Inr ?h"
    using header_decode_header_bytes [OF b(2-6), of "[]"] f by simp
  moreover have "int (length body div 8) * 8 = int (length body)" using b(1) by auto
  then have "take (nat (body_size ?h)) (drop 8 f) = body" using f by (simp add: body_size_def)
  moreover have "is_frame f" using header_bytes_frame [OF b(1,2)] f by simp
  ultimately show thesis
    using that [of ?h body] response_body_roundtrip [OF assms(2) e assms(3), of "''reject''" errors] by simp
qed

lemma continuation_body_rows:
  assumes "response_encode iso_ok (RowsResponse r) = Inr f" and "int (length (rows r)) < dec_max_rows d"
    and "\<not> is_request d"
  shows "continuation_body f d = continue_rows (rows_image r) d" and "is_frame f"
proof -
  obtain h body where h: "header_decode (take 8 f) = Inr h" "take (nat (body_size h)) (drop 8 f) = body"
    "msg_type h = 7" "schema h = 0" "is_frame f"
    "RowsResponse_decode_body (dec_text_errors d) (dec_max_rows d) body 0 = Inr (rows_image r)"
    using response_frame [OF assms(1), where max_rows = "dec_max_rows d" and errors = "dec_text_errors d"] assms(2)
    by (auto simp: bindE_eq_Inr)
  then show "continuation_body f d = continue_rows (rows_image r) d" and "is_frame f"
    using assms(3) by (simp_all add: continuation_body_def Let_def max_schema_def RESPONSE_MAX_SCHEMA_def)
qed

lemma continue_rows_ok:
  assumes "continuation_column_names d = Some (column_names r)" "continuation_column_count d = Some (length (column_names r))"
    and "within (max_continuation_frames d) (Suc (continuation_frame_count d))"
    and "within (max_total_rows d) (continuation_total_rows d + length (rows r))"
  shows "continue_rows r d = (Inr (RowsResponse r),
    (\<lambda>d2. if has_more r then d2 else finalize_continuation_state d2)
      (d\<lparr>continuation_frame_count := Suc (continuation_frame_count d),
         continuation_total_rows := continuation_total_rows d + length (rows r)\<rparr>))"
  using assms by (simp add: continue_rows_def Let_def within_def)

text \<open>The decoder in the middle of a result set.\<close>

definition continuing :: "message_decoder \<Rightarrow> pystr list \<Rightarrow> bool" where
  "continuing d names = (decoder_inv d \<and> buffer_ready (dec_buffer d) \<and> continuation_expected d
     \<and> continuation_column_names d = Some names)"

lemma decode_continuation_part:
  assumes c: "continuing d names" and "unread d = f @ rest" and "length f \<le> max_message_size (dec_buffer d)"
    and "response_encode iso_ok (RowsResponse r) = Inr f" and "int (length (rows r)) < dec_max_rows d"
    and "column_names r = names"
    and "within (max_continuation_frames d) (Suc (continuation_frame_count d))"
    and "within (max_total_rows d) (continuation_total_rows d + length (rows r))"
  obtains b where "decode_continuation d = (Inr (Some (RowsResponse (rows_image r))),
      (\<lambda>d2. if has_more r then d2 else finalize_continuation_state d2)
        (d\<lparr>dec_buffer := b, continuation_frame_count := Suc (continuation_frame_count d),
           continuation_total_rows := continuation_total_rows d + length (rows r)\<rparr>))"
    and "buffer_ready b" "pending b = rest" "max_message_size b = max_message_size (dec_buffer d)"
proof -
  have s: "buffer_ready (dec_buffer d)" "continuation_expected d" "continuation_column_names d = Some names"
    "continuation_column_count d = Some (length names)" "\<not> is_request d" "poisoned (dec_buffer d) = None"
    using c by (auto simp: continuing_def decoder_inv_defs buffer_ready_def)
  note body = continuation_body_rows [OF assms(4)]
  have fr: "is_frame f" using body(2) [of d] assms(5) s(5) by simp
  obtain d1 where t: "take_frame d = (Inr (Some f), d1)" using dec.read_live [OF s(1) assms(2) fr assms(3)] by blast
  obtain b where d1: "d1 = d\<lparr>dec_buffer := b\<rparr>" using on_buffer_update t unfolding take_frame_def by blast
  have b: "buffer_ready b" "pending b = rest" "max_message_size b = max_message_size (dec_buffer d)"
    using dec.read_some [OF s(1) t] assms(2) d1 by simp_all
  have "continuation_body f d1 = continue_rows (rows_image r) d1" using body(1) [of d1] assms(5) s(5) d1 by simp
  also have "\<dots> = (Inr (RowsResponse (rows_image r)),
      (\<lambda>d2. if has_more r then d2 else finalize_continuation_state d2)
        (d\<lparr>dec_buffer := b, continuation_frame_count := Suc (continuation_frame_count d),
           continuation_total_rows := continuation_total_rows d + length (rows r)\<rparr>))"
    using continue_rows_ok [of d1 "rows_image r"] s(3,4) assms(6-8) d1 by simp
  finally show ?thesis
    using that [OF _ b] t s(2,6) by (simp add: decode_continuation_def take_frame_def check_poisoned_def)
qed

lemma continue_all:
  assumes "continuing d names" and "unread d = concat fs @ rest" and "parts rs"
    and "list_all2 (\<lambda>r f. response_encode iso_ok (RowsResponse r) = Inr f \<and> int (length (rows r)) < dec_max_rows d
           \<and> length f \<le> max_message_size (dec_buffer d) \<and> column_names r = names) rs fs"
    and "within (max_continuation_frames d) (continuation_frame_count d + length rs)"
    and "within (max_total_rows d) (continuation_total_rows d + sum_list (map (\<lambda>r. length (rows r)) rs))"
  shows "\<exists>d'. run_stream decoder_feed decode_continuation (replicate (length rs) Read) d
      = Inr (map (\<lambda>r. RowsResponse (rows_image r)) rs, d') \<and> decoder_idle d' \<and> unread d' = rest"
  using assms
proof (induction rs arbitrary: d fs rule: parts.induct)
  case (2 r)
  then obtain f where fs: "fs = [f]" by (auto simp: list_all2_Cons1)
  have c: "continuing d names" and i: "decoder_inv d" "\<not> is_request d" "handshake_done d"
    using 2 by (auto simp: continuing_def decoder_inv_defs)
  have u: "unread d = f @ rest" using 2 fs by simp
  obtain b where "decode_continuation d = (Inr (Some (RowsResponse (rows_image r))),
      finalize_continuation_state (d\<lparr>dec_buffer := b, continuation_frame_count := Suc (continuation_frame_count d),
           continuation_total_rows := continuation_total_rows d + length (rows r)\<rparr>))"
    and b: "buffer_ready b" "pending b = rest" "max_message_size b = max_message_size (dec_buffer d)"
    using decode_continuation_part [OF c u, of iso_ok r] 2 fs by auto
  moreover have "decoder_config (d\<lparr>dec_buffer := b\<rparr>)" using buffer_update_inv [OF i(1) _ b(3)] b(1)
    by (simp add: buffer_ready_def decoder_inv_def)
  then have "decoder_idle (finalize_continuation_state (d\<lparr>dec_buffer := b\<rparr>))"
    using finalize_inv [of "d\<lparr>dec_buffer := b\<rparr>"] b(1) i(2,3) by (simp add: decoder_idle_def)
  ultimately show ?case by (simp add: finalize_response i(2))
next
  case (3 r q rs)
  then obtain f fs' where fs: "fs = f # fs'" by (auto simp: list_all2_Cons1)
  have c: "continuing d names" and i: "decoder_inv d" using 3 by (auto simp: continuing_def)
  have w: "within (max_continuation_frames d) (Suc (continuation_frame_count d))"
    "within (max_total_rows d) (continuation_total_rows d + length (rows r))"
    using within_mono [OF "3.prems"(5)] within_mono [OF "3.prems"(6)] by simp_all
  have u: "unread d = f @ (concat fs' @ rest)" using 3 fs by simp
  obtain b where d: "decode_continuation d = (Inr (Some (RowsResponse (rows_image r))),
      d\<lparr>dec_buffer := b, continuation_frame_count := Suc (continuation_frame_count d),
           continuation_total_rows := continuation_total_rows d + length (rows r)\<rparr>)" (is "_ = (_, ?d)")
    and b: "buffer_ready b" "pending b = concat fs' @ rest" "max_message_size b = max_message_size (dec_buffer d)"
    using decode_continuation_part [OF c u, of iso_ok r] 3 fs w by auto
  have "decoder_inv (d\<lparr>dec_buffer := b\<rparr>)" using buffer_update_inv [OF i _ b(3)] b(1) by (simp add: buffer_ready_def)
  then have "decoder_inv ?d" using c w by (auto simp: continuing_def decoder_inv_defs)
  then have c': "continuing ?d names" using c b(1) by (simp add: continuing_def)
  have "\<exists>d'. run_stream decoder_feed decode_continuation (replicate (length (q # rs)) Read) ?d
      = Inr (map (\<lambda>r. RowsResponse (rows_image r)) (q # rs), d') \<and> decoder_idle d' \<and> unread d' = rest"
    using "3.prems"(3-6) b fs by (intro "3.IH" [OF c', of fs']) (simp_all add: add.assoc)
  then show ?case using d by auto
qed simp

text \<open>The first frame: the decoder after \<^verbatim>\<open>decode\<close> has returned a part with more to follow.\<close>

definition opened :: "rows_response \<Rightarrow> message_decoder \<Rightarrow> message_decoder" where
  "opened r d = d\<lparr>continuation_expected := True, continuation_frame_count := 1,
     continuation_total_rows := length (rows r),
     continuation_column_count := Some (length (column_names r)),
     continuation_column_names := Some (column_names r)\<rparr>"

lemma decode_opens:
  assumes "decoder_idle d" and "\<not> is_request d" and "unread d = f @ rest" and "has_more r"
    and "response_encode iso_ok (RowsResponse r) = Inr f" and "int (length (rows r)) < dec_max_rows d"
    and "length f \<le> max_message_size (dec_buffer d)" and "within (max_total_rows d) (length (rows r))"
  obtains b where "decode d = (Inr (Some (Response (RowsResponse (rows_image r)))), opened r (d\<lparr>dec_buffer := b\<rparr>))"
    and "buffer_ready b" "pending b = rest" "max_message_size b = max_message_size (dec_buffer d)"
proof -
  have i: "buffer_ready (dec_buffer d)" "poisoned (dec_buffer d) = None" "handshake_done d" "\<not> continuation_expected d"
    "unknown_role_policy d \<in> {''reject'', ''warn'', ''accept''}"
    "int (max_message_size (dec_buffer d)) = dec_max_message_size d"
    using assms(1) by (auto simp: decoder_idle_def buffer_ready_def decoder_inv_defs)
  have "sendable d (Response (RowsResponse r))" "encode_frame iso_ok (Response (RowsResponse r)) = Inr f"
    using assms(2,5,6) by simp_all
  from frame_roundtrip [OF this(2,1)] have fr: "decode_frame d f = Inr (Response (RowsResponse (rows_image r)))" "is_frame f"
    using assms(7) i(5,6) by simp_all
  obtain d1 where t: "take_frame d = (Inr (Some f), d1)" using dec.read_live [OF i(1) assms(3) fr(2) assms(7)] by blast
  obtain b where d1: "d1 = d\<lparr>dec_buffer := b\<rparr>" using on_buffer_update t unfolding take_frame_def by blast
  have b: "buffer_ready b" "pending b = rest" "max_message_size b = max_message_size (dec_buffer d)"
    using dec.read_some [OF i(1) t] assms(3) d1 by simp_all
  have "start_continuation d1 (Response (RowsResponse (rows_image r))) = Inr (opened r d1)"
    using assms(4,8) d1 by (simp add: start_continuation_def opened_def within_def)
  then show ?thesis using decode_ready [OF i(2-4)] t fr(1) d1 that [OF _ b] by simp
qed

lemma opened_continuing:
  assumes "decoder_idle d" and "\<not> is_request d" and "buffer_ready b"
    and "max_message_size b = max_message_size (dec_buffer d)" and "within (max_total_rows d) (length (rows r))"
  shows "continuing (opened r (d\<lparr>dec_buffer := b\<rparr>)) (column_names r)"
proof -
  have "decoder_inv (d\<lparr>dec_buffer := b\<rparr>)"
    using buffer_update_inv [of d b] assms by (simp add: decoder_idle_def buffer_ready_def)
  moreover have "within (max_continuation_frames d) 1" using assms(1)
    by (auto simp: decoder_idle_def decoder_inv_defs within_def exceeds_def below_one_def split: option.splits)
  ultimately show ?thesis
    using assms(2,3,5) by (auto simp: continuing_def opened_def decoder_inv_defs)
qed

subsection \<open>Whole messages\<close>

lemma stateless_decoder_ready:
  assumes "stateless_decoder req version policy errors size_cap row_cap frame_cap total_cap = Inr d"
  shows "poisoned (dec_buffer d) = None \<and> handshake_done d \<and> is_request d = req
    \<and> unknown_role_policy d \<in> {''reject'', ''warn'', ''accept''}
    \<and> dec_max_message_size d = (case size_cap of None \<Rightarrow> DEFAULT_MAX_MESSAGE_SIZE | Some n \<Rightarrow> n)"
proof -
  obtain a d0 where a: "decoder_init a = Inr d0" "arg_is_request a = req"
    "arg_max_message_size a = (case size_cap of None \<Rightarrow> DEFAULT_MAX_MESSAGE_SIZE | Some n \<Rightarrow> n)"
    and d: "(if req then force_handshake_for_stateless version d0 else Inr d0) = Inr d"
    using assms unfolding stateless_decoder_def bindE_eq_Inr
    by (elim exE conjE) (rule that, assumption, simp_all add: default_args_def split: option.split)
  have "dec_max_message_size d0 = arg_max_message_size a" "is_request d0 = arg_is_request a"
    using a(1) by (auto simp: decoder_init_def bindE_eq_Inr split: if_splits option.splits)
  then show ?thesis
    using decoder_init_inv [OF a(1)] a(2,3) d
    by (auto simp: force_handshake_for_stateless_def decoder_inv_defs buffer_ready_def split: if_splits)
qed

lemma encode_message_frame:
  assumes "encode_message iso_ok m size_cap = Inr f"
  shows "encode_frame iso_ok m = Inr f \<and> int (length f) \<le> (case size_cap of None \<Rightarrow> DEFAULT_MAX_MESSAGE_SIZE | Some n \<Rightarrow> n)"
  using assms by (auto simp: encode_message_def encoder_init_def encoder_encode_def bindE_eq_Inr split: if_splits)

text \<open>The requests a server refuses: of a type that is not dispatched, or a description of another format.\<close>

lemma refused_request:
  assumes "encode_frame iso_ok (Request r) = Inr f" and "int (length f) \<le> dec_max_message_size d"
    and "is_request d" and "request_post_init r = Inr r" and "\<not> sendable d (Request r)"
  shows "decode_frame d f = Inl (DecodeError (if request_MSG_TYPE r = RT_DESCRIBE then BadFormat else BadTag))"
proof -
  have "request_encode iso_ok r = Inr f" using assms(1) by simp
  then obtain body where e: "request_encode_body iso_ok r = Inr body" and b: "length body mod 8 = 0" "length body div 8 < 2 ^ 32"
    "0 \<le> request_type_code (request_MSG_TYPE r)" "request_type_code (request_MSG_TYPE r) < 256"
    "0 \<le> request_get_schema r" "request_get_schema r < 256"
    and f: "f = header_bytes (length body div 8) (request_type_code (request_MSG_TYPE r)) (request_get_schema r) @ body"
    unfolding request_encode_def message_encode_eq_Inr by (elim exE conjE) (rule that)
  have c: "request_check r = Inr ()" using assms(4) by (auto simp: request_post_init_def bindE_eq_Inr)
  have d: "decode_frame d f = decode_frame_body d \<lparr>size_words = int (length body div 8),
      msg_type = request_type_code (request_MSG_TYPE r), schema = request_get_schema r, reserved = 0\<rparr> body"
    using decode_frame_header_bytes [OF b, of d] assms(2) by (simp add: f)
  show ?thesis
  proof (cases "request_MSG_TYPE r \<in> {RT_HEARTBEAT, RT_CONNECT}")
    case True
    then show ?thesis using assms(3) by (auto simp: d decode_frame_body_def REQUEST_TYPES_code)
  next
    case False
    then obtain q h where r: "r = DescribeRequest q h" "q \<noteq> PInt 0"
      using assms(3-5) by (cases r rule: strict_request.cases) auto
    obtain i where i: "q = PInt i" "0 \<le> i" "i < 2 ^ 64" "body = le_bytes 8 i"
      using e r(1) by (auto simp: encode_uint64_eq_Inr request_defs bindE_eq_Inr)
    then have "decode_uint64 body = Inr i" using decode_uint64_le_bytes [of i "[]"] by simp
    then have "request_decode_body RT_DESCRIBE body (request_get_schema r) = Inl (DecodeError BadFormat)"
      using i r by (simp add: DescribeRequest_decode_body_def require_defs request_defs)
    then show ?thesis
      using request_schema_supported [OF c] REQUEST_TYPES_code [of RT_DESCRIBE] assms(3) r(1)
      by (simp add: d decode_frame_body_def not_less)
  qed
qed

lemma sent_parsed:
  assumes "decoder_idle d"
    and "list_all2 (\<lambda>m f. encode_frame iso_ok m = Inr f \<and> sendable d m \<and> complete m
           \<and> int (length f) \<le> dec_max_message_size d) ms fs"
  shows "list_all2 (parsed d) fs (map message_image ms)"
proof -
  have d: "unknown_role_policy d \<in> {''reject'', ''warn'', ''accept''}"
    "int (max_message_size (dec_buffer d)) = dec_max_message_size d"
    using assms(1) by (simp_all add: decoder_idle_def decoder_inv_defs)
  have c: "complete (message_image m)" if "complete m" for m
    using that by (cases m rule: complete.cases) simp_all
  have "parsed d f (message_image m)" if "encode_frame iso_ok m = Inr f" "sendable d m" "complete m"
    "int (length f) \<le> dec_max_message_size d" for m f
    using frame_roundtrip [OF that(1,2,4) d(1)] c [OF that(3)] that(4) d(2) by (simp add: parsed_def)
  then show ?thesis using assms(2) by (auto simp: list_all2_conv_all_nth)
qed

text \<open>What an idle decoder has buffered counts as part of the stream.\<close>

lemma sent_stream:
  assumes "decoder_idle d"
    and "list_all2 (\<lambda>m f. encode_frame iso_ok m = Inr f \<and> sendable d m \<and> complete m
           \<and> int (length f) \<le> dec_max_message_size d) ms fs"
    and "unread d @ fed es = concat fs" and "run_stream decoder_feed decode es d = Inr (got, d')"
  shows "got = take (length got) (map message_image ms)
    \<and> (\<exists>d''. run_stream decoder_feed decode (es @ replicate (length ms - length got) Read) d
           = Inr (map message_image ms, d'') \<and> decoder_idle d'' \<and> unread d'' = [])"
proof -
  note p = sent_parsed [OF assms(1,2)]
  show ?thesis using idle.play_stream [OF _ assms(3,4), of "map message_image ms"] assms(1) p by auto
qed

section \<open>Properties\<close>

text \<open>
  C7 (message_roundtrip): what \<^verbatim>\<open>encode_message\<close> returns for a message, \<^verbatim>\<open>decode_message\<close> of that
  direction reads back, whatever the keyword arguments, when both use the same size cap and the
  reader takes in messages of this kind: a constructible request other than HEARTBEAT, CONNECT and
  a \<^verbatim>\<open>DescribeRequest\<close> of a format other than 0; a valid response that has fewer rows than the
  reader's row cap, distinct node ids, and is not a leader reply to a reader of the legacy version.
  Header, size check, type dispatch and schema check of the reader agree with the writer.  The two
  requests missing from the dispatch table are refused by their tag, and a description of
  another format by its body, whatever the reader's arguments.
\<close>

theorem message_roundtrip:
  assumes "encode_message iso_ok m size_cap = Inr f"
    and "stateless_decoder req version policy errors size_cap row_cap frame_cap total_cap = Inr d"
  shows "(sendable d m \<longrightarrow>
      decode_message f req version policy errors size_cap row_cap frame_cap total_cap = Inr (message_image m))
    \<and> (req \<and> m = Request r \<and> request_post_init r = Inr r \<and> \<not> sendable d m \<longrightarrow>
      decode_message f req version policy errors size_cap row_cap frame_cap total_cap =
        Inl (DecodeError (if request_MSG_TYPE r = RT_DESCRIBE then BadFormat else BadTag)))"
proof -
  note d = stateless_decoder_ready [OF assms(2)]
  note e = encode_message_frame [OF assms(1)]
  have r: "decode_message f req version policy errors size_cap row_cap frame_cap total_cap = decode_frame d f"
    using d assms(2) by (simp add: decode_message_def decode_bytes_def check_poisoned_def)
  have "decode_frame d f = Inr (message_image m)" if "sendable d m"
    using frame_roundtrip [OF conjunct1 [OF e] that] d e by simp
  moreover have "decode_frame d f = Inl (DecodeError (if request_MSG_TYPE r = RT_DESCRIBE then BadFormat else BadTag))"
    if m: "req" "m = Request r" "request_post_init r = Inr r" "\<not> sendable d m"
    using refused_request [OF _ _ _ m(3)] e d m(1,2,4) by metis
  ultimately show ?thesis unfolding r by blast
qed

theorem message_roundtrip_witness:
  "decode_message [1, 0, 0, 0, 8, 0, 0, 0, 0, 0, 0, 0, 0, 0, 0, 0] False 1 ''warn'' ''replace'' (Some 64) None None
     (Some None) = Inr (Response EmptyResponse)"
proof -
  let ?d = "\<lparr>unknown_role_policy = ''warn'', dec_text_errors = Replace,
    dec_buffer = \<lparr>buf_data = [], buf_pos = 0, max_message_size = 64, skip_remaining = 0, poisoned = None,
      poison_after_skip = None\<rparr>,
    dec_max_message_size = 64, is_request = False, dec_version = Some 1, handshake_done = True,
    continuation_expected = False, dec_max_rows = 1000000, max_continuation_frames = Some 100000,
    max_total_rows = None, continuation_frame_count = 0, continuation_total_rows = 0,
    continuation_column_count = None, continuation_column_names = None\<rparr>"
  have e: "encode_message (\<lambda>_. True) (Response EmptyResponse) (Some 64)
      = Inr [1, 0, 0, 0, 8, 0, 0, 0, 0, 0, 0, 0, 0, 0, 0, 0]" by code_simp
  have d: "stateless_decoder False 1 ''warn'' ''replace'' (Some 64) None None (Some None) = Inr ?d" by code_simp
  have "sendable ?d (Response EmptyResponse)" by simp
  with message_roundtrip [OF e d] show ?thesis by simp
qed

text \<open>
  C1 (message_stream): a stream of complete messages of one direction, cut into chunks in any
  way and fed and decoded in any interleaving that does not raise, is decoded to exactly these
  messages in order; decoding on after the last byte delivers the remaining ones and leaves the
  decoder idle with nothing buffered.
\<close>

theorem message_stream:
  assumes "decoder_idle d" and "unread d = []"
    and "list_all2 (\<lambda>m f. encode_frame iso_ok m = Inr f \<and> sendable d m \<and> complete m
           \<and> int (length f) \<le> dec_max_message_size d) ms fs"
    and "fed es = concat fs" and "run_stream decoder_feed decode es d = Inr (got, d')"
  shows "got = take (length got) (map message_image ms)
    \<and> (\<exists>d''. run_stream decoder_feed decode (es @ replicate (length ms - length got) Read) d
           = Inr (map message_image ms, d'') \<and> decoder_idle d'' \<and> unread d'' = [])"
  using sent_stream [OF assms(1,3), of es] assms(2,4,5) by simp

text \<open>The decoder the examples start from: a reader of responses with small caps.\<close>

abbreviation sample_buffer :: "bytes \<Rightarrow> read_buffer" where
  "sample_buffer bs \<equiv> \<lparr>buf_data = bs, buf_pos = 0, max_message_size = 128, skip_remaining = 0, poisoned = None,
     poison_after_skip = None\<rparr>"

abbreviation sample_args :: "bool \<Rightarrow> decoder_args" where
  "sample_args req \<equiv> \<lparr>arg_is_request = req, arg_version = 1, arg_max_message_size = 128, arg_max_rows = 10,
     arg_max_continuation_frames = Some 3, arg_max_total_rows = Some 4, arg_unknown_role_policy = ''reject'',
     arg_text_errors = ''strict''\<rparr>"

abbreviation sample_decoder :: "bool \<Rightarrow> bytes \<Rightarrow> message_decoder" where
  "sample_decoder req bs \<equiv> \<lparr>unknown_role_policy = ''reject'', dec_text_errors = Strict, dec_buffer = sample_buffer bs,
    dec_max_message_size = 128, is_request = req, dec_version = (if req then None else Some 1),
    handshake_done = (\<not> req), continuation_expected = False, dec_max_rows = 10,
    max_continuation_frames = Some 3, max_total_rows = Some 4, continuation_frame_count = 0,
    continuation_total_rows = 0, continuation_column_count = None, continuation_column_names = None\<rparr>"

lemma sample_init: "decoder_init (sample_args req) = Inr (sample_decoder req [])"
  by (cases req) (simp_all add: decoder_init_def buffer_init_def SUPPORTED_VERSIONS_def PROTOCOL_VERSION_def
      below_one_def MAX_MESSAGE_SIZE_CEILING_def text_errors_named_def)

lemma sample_idle: "length bs \<le> 128 \<Longrightarrow> decoder_idle (sample_decoder False bs)"
  by (simp add: decoder_idle_def decoder_inv_defs buffer_ready_def buffer_inv_def available_def below_one_def
      SUPPORTED_VERSIONS_def PROTOCOL_VERSION_def)

theorem message_stream_witness:
  "\<exists>d''. run_stream decoder_feed decode
       ([Feed [1, 0, 0, 0, 8, 0, 0], Read, Feed [0, 0, 0, 0, 0, 0, 0, 0, 0, 1, 0, 0, 0, 4, 0, 0, 0], Read,
         Feed [7, 0, 0, 0, 0, 0, 0, 0]] @ replicate 1 Read) (sample_decoder False [])
     = Inr ([Response EmptyResponse, Response (DbResponse 7)], d'')"
proof -
  let ?fs = "[[1, 0, 0, 0, 8, 0, 0, 0, 0, 0, 0, 0, 0, 0, 0, 0], [1, 0, 0, 0, 4, 0, 0, 0, 7, 0, 0, 0, 0, 0, 0, 0]] :: bytes list"
  let ?ms = "[Response EmptyResponse, Response (DbResponse 7)]"
  let ?es = "[Feed [1, 0, 0, 0, 8, 0, 0], Read, Feed [0, 0, 0, 0, 0, 0, 0, 0, 0, 1, 0, 0, 0, 4, 0, 0, 0], Read,
         Feed [7, 0, 0, 0, 0, 0, 0, 0]]"
  have "encode_frame (\<lambda>_. True) (Response EmptyResponse) = Inr (?fs ! 0)"
    "encode_frame (\<lambda>_. True) (Response (DbResponse 7)) = Inr (?fs ! 1)" by code_simp+
  moreover have "response_valid (DbResponse 7)" by code_simp
  ultimately have l: "list_all2 (\<lambda>m f. encode_frame (\<lambda>_. True) m = Inr f \<and> sendable (sample_decoder False []) m
      \<and> complete m \<and> int (length f) \<le> dec_max_message_size (sample_decoder False [])) ?ms ?fs" by simp
  obtain d' where r: "run_stream decoder_feed decode ?es (sample_decoder False []) = Inr ([Response EmptyResponse], d')"
    by (rule that) code_simp
  have "decoder_idle (sample_decoder False [])" by (rule sample_idle) simp
  from message_stream [OF this _ l _ r] show ?thesis by (auto simp: pending_def)
qed

text \<open>
  A result set sent as several frames comes back whole.  \<^verbatim>\<open>decode()\<close>
  returns the first part, \<^verbatim>\<open>decode_continuation()\<close> each further one, in order and with the
  rows the server encoded, as long as the parts have the same column names and stay within the
  caps on frames and rows (either cap may be off); after the last one the decoder is ready for
  the next message and has consumed exactly the frames of the result set.
\<close>

theorem rows_session:
  assumes "decoder_idle d" and "\<not> is_request d" and "unread d = f @ concat fs @ rest"
    and "has_more r" and "parts rs"
    and "list_all2 (\<lambda>r' f'. response_encode iso_ok (RowsResponse r') = Inr f' \<and> int (length (rows r')) < dec_max_rows d
           \<and> length f' \<le> max_message_size (dec_buffer d) \<and> column_names r' = column_names r) (r # rs) (f # fs)"
    and "within (max_continuation_frames d) (Suc (length rs))"
    and "within (max_total_rows d) (sum_list (map (\<lambda>r'. length (rows r')) (r # rs)))"
  shows "\<exists>d1 d2. decode d = (Inr (Some (Response (RowsResponse (rows_image r)))), d1)
    \<and> run_stream decoder_feed decode_continuation (replicate (length rs) Read) d1
        = Inr (map (\<lambda>r'. RowsResponse (rows_image r')) rs, d2)
    \<and> decoder_idle d2 \<and> unread d2 = rest"
proof -
  have f: "response_encode iso_ok (RowsResponse r) = Inr f" "int (length (rows r)) < dec_max_rows d"
    "length f \<le> max_message_size (dec_buffer d)" using assms(6) by simp_all
  obtain b where b: "decode d = (Inr (Some (Response (RowsResponse (rows_image r)))),
      opened r (d\<lparr>dec_buffer := b\<rparr>))" "buffer_ready b" "pending b = concat fs @ rest"
      "max_message_size b = max_message_size (dec_buffer d)"
    using decode_opens [OF assms(1-4) f] within_mono [OF assms(8)] by auto
  have c: "continuing (opened r (d\<lparr>dec_buffer := b\<rparr>)) (column_names r)"
    using opened_continuing [OF assms(1,2) b(2,4), of r] within_mono [OF assms(8)] by simp
  have "\<exists>d2. run_stream decoder_feed decode_continuation (replicate (length rs) Read) (opened r (d\<lparr>dec_buffer := b\<rparr>))
      = Inr (map (\<lambda>r'. RowsResponse (rows_image r')) rs, d2) \<and> decoder_idle d2 \<and> unread d2 = rest"
    using assms(5-8) b(3,4) by (intro continue_all [OF c, of fs rest rs iso_ok]) (simp_all add: opened_def)
  then show ?thesis using b(1) by blast
qed

theorem rows_session_witness:
  "\<exists>d1 d2. decode (sample_decoder False
      ([5, 0, 0, 0, 7, 0, 0, 0, 1, 0, 0, 0, 0, 0, 0, 0, 97, 0, 0, 0, 0, 0, 0, 0,
        1, 0, 0, 0, 0, 0, 0, 0, 7, 0, 0, 0, 0, 0, 0, 0, 0xEE, 0xEE, 0xEE, 0xEE, 0xEE, 0xEE, 0xEE, 0xEE]
       @ [3, 0, 0, 0, 7, 0, 0, 0, 1, 0, 0, 0, 0, 0, 0, 0, 97, 0, 0, 0, 0, 0, 0, 0,
        0xFF, 0xFF, 0xFF, 0xFF, 0xFF, 0xFF, 0xFF, 0xFF]))
     = (Inr (Some (Response (RowsResponse \<lparr>column_names = [[97]], column_types = [INTEGER], row_types = [[INTEGER]],
          rows = [[PInt 7]], has_more = True\<rparr>))), d1)
   \<and> run_stream decoder_feed decode_continuation [Read] d1
     = Inr ([RowsResponse \<lparr>column_names = [[97]], column_types = [], row_types = [], rows = [], has_more = False\<rparr>], d2)
   \<and> decoder_idle d2 \<and> unread d2 = []"
proof -
  let ?r = "\<lparr>column_names = [[97]], column_types = [INTEGER], row_types = [[INTEGER]], rows = [[PInt 7]], has_more = True\<rparr>"
  let ?q = "\<lparr>column_names = [[97]], column_types = [], row_types = [], rows = [], has_more = False\<rparr>"
  let ?f = "[5, 0, 0, 0, 7, 0, 0, 0, 1, 0, 0, 0, 0, 0, 0, 0, 97, 0, 0, 0, 0, 0, 0, 0,
        1, 0, 0, 0, 0, 0, 0, 0, 7, 0, 0, 0, 0, 0, 0, 0, 0xEE, 0xEE, 0xEE, 0xEE, 0xEE, 0xEE, 0xEE, 0xEE] :: bytes"
  let ?g = "[3, 0, 0, 0, 7, 0, 0, 0, 1, 0, 0, 0, 0, 0, 0, 0, 97, 0, 0, 0, 0, 0, 0, 0,
        0xFF, 0xFF, 0xFF, 0xFF, 0xFF, 0xFF, 0xFF, 0xFF] :: bytes"
  have e: "response_encode (\<lambda>_. True) (RowsResponse ?r) = Inr ?f" "response_encode (\<lambda>_. True) (RowsResponse ?q) = Inr ?g"
    by code_simp+
  have im: "rows_image ?r = ?r" "rows_image ?q = ?q" by code_simp+
  have i: "decoder_idle (sample_decoder False (?f @ ?g))" by (rule sample_idle) simp
  have u: "unread (sample_decoder False (?f @ ?g)) = ?f @ concat [?g] @ []" by (simp add: pending_def)
  have "within (Some 3) (Suc (length [?q]))" "within (Some 4) (sum_list (map (\<lambda>r'. length (rows r')) [?r, ?q]))"
    by code_simp+
  from rows_session [OF i _ u, of ?r "[?q]" "\<lambda>_. True"] this e show ?thesis by (simp add: im)
qed

end
