(* ===== verification/Decoder_States.thy ===== *)
theory Decoder_States
  imports Sessions
begin

text \<open>
  The decoder as a state machine: an automaton of four phases (waiting for the handshake,
  between messages, inside a result set, poisoned) that every call of the decoder follows,
  the invariant of all reachable decoders, what each error leaves behind, and that a reset
  gives back exactly the decoder the constructor built.
\<close>

section \<open>Definitions\<close>

subsection \<open>The protocol automaton\<close>

text \<open>
  The phase of a decoder, as its owner observes it.  Inside a result set: the frames and rows
  received so far and the column names.
\<close>

datatype phase = Awaiting | Idle | Inside nat nat "pystr list" | Dead exc

definition phase_of :: "message_decoder \<Rightarrow> phase" where
  "phase_of d = (case poisoned (dec_buffer d) of
     Some e \<Rightarrow> Dead e
   | None \<Rightarrow>
       if \<not> handshake_done d then Awaiting
       else if continuation_expected d then
         Inside (continuation_frame_count d) (continuation_total_rows d) (the (continuation_column_names d))
       else Idle)"

text \<open>
  The moves the protocol allows, given the direction of the decoder and its caps on frames and
  rows.  A call other than a reset may always leave the phase as it is: it was refused, or the
  bytes are not there yet.
\<close>

inductive phase_step :: "bool \<Rightarrow> int option \<Rightarrow> int option \<Rightarrow> phase \<Rightarrow> decoder_call \<Rightarrow> phase \<Rightarrow> bool"
  for req frame_cap row_cap
where
  stay: "c \<noteq> DReset \<Longrightarrow> phase_step req frame_cap row_cap p c p"
| restart: "phase_step req frame_cap row_cap p DReset (if req then Awaiting else Idle)"
| greet: "req \<Longrightarrow> phase_step req frame_cap row_cap Awaiting DHandshake Idle"
| begin_rows: "\<not> req \<Longrightarrow> within row_cap n \<Longrightarrow>
    phase_step req frame_cap row_cap Idle DDecode (Inside 1 n names)"
| more_rows: "\<not> req \<Longrightarrow> within frame_cap (k + 1) \<Longrightarrow> n \<le> n' \<Longrightarrow> within row_cap n' \<Longrightarrow>
    phase_step req frame_cap row_cap (Inside k n names) DContinue (Inside (k + 1) n' names)"
| end_rows: "\<not> req \<Longrightarrow> phase_step req frame_cap row_cap (Inside k n names) DContinue Idle"
| fail_feed: "\<forall>e. p \<noteq> Dead e \<Longrightarrow> phase_step req frame_cap row_cap p (DFeed data) (Dead e')"
| fail_decode: "phase_step req frame_cap row_cap Idle DDecode (Dead e)"
| fail_rows: "phase_step req frame_cap row_cap (Inside k n names) DContinue (Dead e)"
| fail_skip: "p = Awaiting \<or> p = Idle \<Longrightarrow> phase_step req frame_cap row_cap p DSkip (Dead e)"

inductive_cases dead_step: "phase_step req frame_cap row_cap (Dead e) c p"
inductive_cases awaiting_step: "phase_step req frame_cap row_cap Awaiting c p"
inductive_cases inside_step: "phase_step req frame_cap row_cap (Inside k n names) c p"

section \<open>Lemmas\<close>

subsection \<open>Errors\<close>

lemma as_server_failure_decoded:
  assumes "FailureResponse_decode_body data sc = Inr r"
  shows "is_ServerFailure (as_server_failure r)"
  using assms
  by (auto simp: FailureResponse_decode_body_def FailureResponse_init_def bindE_eq_Inr if_error_eq_Inr case_prod_beta)

lemma continuation_body_cases:
  assumes "continuation_body data d = (res, d')"
  obtains (raised) e where "res = Inl e" "d' = d" "dec_text_errors d = Strict \<Longrightarrow> is_DecodeError e"
  | (failure) e where "res = Inl e" "is_ServerFailure e \<or> is_StreamError e" "d' = finalize_continuation_state d"
  | (interrupted) r where "res = Inr r" "d' = finalize_continuation_state d"
  | (rows) r where "continue_rows r d = (res, d')"
proof (cases "header_decode (take 8 data)")
  case (Inl e)
  then show ?thesis using raised assms header_decode_error by (auto simp: continuation_body_def)
next
  case (Inr h)
  note small = header_decode_small [OF Inr]
  let ?b = "take (nat (body_size h)) (drop 8 data)"
  let ?rows = "RowsResponse_decode_body (dec_text_errors d) (dec_max_rows d) ?b (schema h)"
  consider (type) "msg_type h \<notin> {0, 8, 7}" | (schema) "msg_type h \<in> {0, 8, 7}" "max_schema (is_request d) (msg_type h) < schema h"
    | (failure') "msg_type h = 0" "\<not> max_schema (is_request d) (msg_type h) < schema h"
    | (empty') "msg_type h = 8" "\<not> max_schema (is_request d) (msg_type h) < schema h"
    | (rows') "msg_type h = 7" "\<not> max_schema (is_request d) (msg_type h) < schema h"
    by blast
  then show ?thesis
  proof cases
    case type
    then show ?thesis using failure assms Inr by (auto simp: continuation_body_def Let_def)
  next
    case schema
    then show ?thesis using raised assms Inr by (auto simp: continuation_body_def Let_def)
  next
    case failure'
    show ?thesis
    proof (cases "FailureResponse_decode_body ?b (schema h)")
      case f: (Inl e)
      then have "res = Inl e" "d' = d" using assms Inr failure' by (simp_all add: continuation_body_def Let_def)
      then show ?thesis using raised FailureResponse_decode_error [OF f small] by blast
    next
      case f: (Inr r)
      then have "res = Inl (as_server_failure r)" "d' = finalize_continuation_state d"
        using assms Inr failure' by (simp_all add: continuation_body_def Let_def)
      then show ?thesis using failure as_server_failure_decoded [OF f] by blast
    qed
  next
    case empty'
    show ?thesis
    proof (cases "EmptyResponse_decode_body ?b (schema h)")
      case f: (Inl e)
      then have "res = Inl e" "d' = d" using assms Inr empty' by (simp_all add: continuation_body_def Let_def)
      then show ?thesis using raised response_decode_error [of 1 "[]" RS_EMPTY ?b "schema h" e] f small by simp
    next
      case (Inr r)
      then have "res = Inr r" "d' = finalize_continuation_state d"
        using assms \<open>header_decode (take 8 data) = Inr h\<close> empty' by (simp_all add: continuation_body_def Let_def)
      then show ?thesis by (rule interrupted)
    qed
  next
    case rows'
    show ?thesis
    proof (cases ?rows)
      case f: (Inl e)
      then have "res = Inl e" "d' = d" using assms Inr rows' by (simp_all add: continuation_body_def Let_def)
      then show ?thesis using raised RowsResponse_decode_error f small by metis
    next
      case (Inr r)
      then have "continue_rows r d = (res, d')"
        using assms \<open>header_decode (take 8 data) = Inr h\<close> rows' by (simp add: continuation_body_def Let_def)
      then show ?thesis by (rule rows)
    qed
  qed
qed

lemma continuation_error:
  assumes "dec_text_errors d = Strict" and "continuation_body data d = (Inl e, d')"
  shows "(is_DecodeError e \<and> finalize_continuation_state d' = finalize_continuation_state d)
    \<or> ((is_ServerFailure e \<or> is_StreamError e) \<and> d' = finalize_continuation_state d)"
  using assms(2)
proof (cases rule: continuation_body_cases)
  case (rows r)
  then show ?thesis by (cases rule: continue_rows_cases) simp_all
qed (use assms(1) in simp_all)

lemma finalize_idem [simp]: "finalize_continuation_state (finalize_continuation_state d) = finalize_continuation_state d"
  by (simp add: finalize_continuation_state_def Let_def)

lemma continuation_except_error:
  assumes "dec_text_errors d = Strict" and "continuation_body data d = (Inl e, d')"
  shows "continuation_except e d' = finalize_continuation_state d \<and> (is_DecodeError e \<or> is_StreamError e \<or> is_ServerFailure e)"
  using continuation_error [OF assms] by (cases e) (auto simp: continuation_except_def)

lemma leader_legacy_error: "LeaderResponse_decode_body_legacy body = Inl e \<Longrightarrow> is_DecodeError e"
  by (auto simp: LeaderResponse_decode_body_legacy_def bindE_eq_Inl raise_if_eq_Inl dest: decode_errors split: if_splits)

lemma decode_frame_body_error:
  assumes "dec_text_errors d = Strict" and "decode_frame_body d h body = Inl e" and "\<not> huge_int (schema h)"
  shows "is_DecodeError e"
proof (cases "is_request d")
  case True
  then show ?thesis
    using assms(2,3) by (auto simp: decode_frame_body_def bindE_eq_Inl dest: request_decode_error split: if_splits option.splits)
next
  case False
  then show ?thesis
    using assms by (auto simp: decode_frame_body_def bindE_eq_Inl dest: response_decode_error leader_legacy_error
        split: if_splits option.splits)
qed

lemma decode_frame_error:
  assumes "dec_text_errors d = Strict" and "decode_frame d data = Inl e"
  shows "is_DecodeError e"
  using assms(2) decode_frame_body_error [OF assms(1)]
  by (auto simp: decode_frame_def Let_def bindE_eq_Inl dest: header_decode_error header_decode_small split: if_splits)

lemma read_message_error:
  assumes "poisoned b = None" and "read_message b = (Inl e, b')"
  shows "e = DecodeError Oversized \<and> b' = b"
  using assms(2) unfolding read_message_eq [OF assms(1)] by (auto simp: Let_def split: if_splits)

subsection \<open>Reset\<close>

lemma reset_ignores [simp]:
  "decoder_reset (d\<lparr>continuation_expected := v\<rparr>) = decoder_reset d"
  "decoder_reset (d\<lparr>continuation_frame_count := n\<rparr>) = decoder_reset d"
  "decoder_reset (d\<lparr>continuation_total_rows := n\<rparr>) = decoder_reset d"
  "decoder_reset (d\<lparr>continuation_column_count := c\<rparr>) = decoder_reset d"
  "decoder_reset (d\<lparr>continuation_column_names := ns\<rparr>) = decoder_reset d"
  by (simp_all add: decoder_reset_def finalize_continuation_state_def)

lemma reset_handshake:
  "is_request d \<Longrightarrow> decoder_reset (d\<lparr>handshake_done := v, dec_version := w\<rparr>) = decoder_reset d"
  "is_request d \<Longrightarrow> decoder_reset (d\<lparr>dec_version := w, handshake_done := v\<rparr>) = decoder_reset d"
  by (simp_all add: decoder_reset_def finalize_continuation_state_def Let_def)

lemma reset_finalize [simp]: "decoder_reset (finalize_continuation_state d) = decoder_reset d"
  by (simp add: finalize_continuation_state_def Let_def reset_handshake)

lemma buffer_reset_eq:
  "max_message_size b = max_message_size c \<Longrightarrow> buffer_reset b = buffer_reset c"
  by (simp add: buffer_reset_def)

lemma reset_buffer:
  "max_message_size b = max_message_size (dec_buffer d) \<Longrightarrow> decoder_reset (d\<lparr>dec_buffer := b\<rparr>) = decoder_reset d"
  using buffer_reset_eq [of b "dec_buffer d"] by (simp add: decoder_reset_def)

lemma reset_buffer_step [simp]: "decoder_reset (d\<lparr>dec_buffer := buffer_step c (dec_buffer d)\<rparr>) = decoder_reset d"
  by (simp add: reset_buffer)

lemma reset_poison [simp]: "decoder_reset (poison_decoder e d) = decoder_reset d"
  using reset_buffer_step [of "CallPoison e" d] by (simp add: poison_decoder_def)

lemma reset_on_buffer:
  assumes "\<And>b. snd (f b) = buffer_step c b"
  shows "decoder_reset (snd (on_buffer f d)) = decoder_reset d"
  using reset_buffer_step [of c d] by (simp add: on_buffer_eq assms)

lemma reset_start_continuation: "start_continuation d m = Inr d' \<Longrightarrow> decoder_reset d' = decoder_reset d"
  by (auto simp: start_continuation_def split: message.splits response.splits if_splits)

lemma reset_decode [simp]: "decoder_reset (snd (decode d)) = decoder_reset d"
proof -
  have "decoder_reset (snd (on_buffer read_message d)) = decoder_reset d" by (rule reset_on_buffer [of _ CallRead]) simp
  then show ?thesis
    by (auto simp: decode_def bindE_eq_Inr dest!: reset_start_continuation split: prod.splits sum.splits option.splits)
qed

lemma reset_continue_rows: "continue_rows r d = (res, d') \<Longrightarrow> decoder_reset d' = decoder_reset d"
  by (auto simp: continue_rows_def Let_def split: if_splits)

lemma reset_continuation_body:
  assumes "continuation_body data d = (res, d')"
  shows "decoder_reset d' = decoder_reset d"
  using assms by (cases rule: continuation_body_cases) (auto dest: reset_continue_rows)

lemma reset_continuation_except [simp]: "decoder_reset (continuation_except e d) = decoder_reset d"
  by (simp add: continuation_except_def)

lemma reset_decode_continuation [simp]: "decoder_reset (snd (decode_continuation d)) = decoder_reset d"
proof -
  have "decoder_reset (snd (on_buffer read_message d)) = decoder_reset d" by (rule reset_on_buffer [of _ CallRead]) simp
  then show ?thesis
    by (auto simp: decode_continuation_def dest!: reset_continuation_body split: prod.splits sum.splits option.splits)
qed

lemma reset_decode_handshake:
  assumes "decoder_inv d"
  shows "decoder_reset (snd (decode_handshake d)) = decoder_reset d"
proof (cases "handshake_done d")
  case False
  then have "is_request d" using assms by (auto simp: decoder_inv_defs)
  moreover have "max_message_size (snd (read_bytes 8 b)) = max_message_size b" for b
    using max_message_size_step [of "CallReadBytes 8" b] by simp
  ultimately show ?thesis
    using False by (auto simp: decode_handshake_def on_buffer_eq Let_def decoder_reset_def finalize_continuation_state_def
        buffer_reset_def split: sum.splits option.splits)
qed (simp add: decode_handshake_def)

lemma reset_step:
  assumes "decoder_inv d"
  shows "decoder_reset (decoder_step c d) = decoder_reset d"
proof (cases c)
  case (DFeed data)
  then show ?thesis using reset_on_buffer [of "feed data" "CallFeed data" d] by (simp add: decoder_feed_def)
next
  case DSkip
  then show ?thesis using reset_on_buffer [of skip_message CallSkip d] by (simp add: decoder_skip_message_def)
next
  case DTake
  then show ?thesis using reset_on_buffer [of read_message CallRead d] by (simp add: take_frame_def)
next
  case DPeek
  have "snd (pending_frame_size d) = snd (on_buffer peek_header d)"
    by (auto simp: pending_frame_size_def split: prod.splits sum.splits option.splits)
  then show ?thesis using reset_on_buffer [of peek_header CallPeek d] DPeek by simp
next
  case DReset
  then show ?thesis
    by (simp add: decoder_reset_def buffer_reset_def) (simp add: finalize_continuation_state_def Let_def)
qed (simp_all add: assms reset_decode_handshake)

lemma reset_init: "decoder_init a = Inr d \<Longrightarrow> decoder_reset d = d"
  by (auto simp: decoder_init_def buffer_init_def decoder_reset_def finalize_continuation_state_def buffer_reset_def
      Let_def bindE_eq_Inr split: if_splits option.splits)

subsection \<open>The decoder follows the automaton\<close>

abbreviation follows :: "message_decoder \<Rightarrow> decoder_call \<Rightarrow> message_decoder \<Rightarrow> bool" where
  "follows d c d' \<equiv> phase_step (is_request d) (max_continuation_frames d) (max_total_rows d) (phase_of d) c (phase_of d')"

lemma phase_same [intro]: "phase_of d' = phase_of d \<Longrightarrow> c \<noteq> DReset \<Longrightarrow> follows d c d'"
  using phase_step.stay by metis

lemma phase_buffer: "poisoned b = poisoned (dec_buffer d) \<Longrightarrow> phase_of (d\<lparr>dec_buffer := b\<rparr>) = phase_of d"
  by (simp add: phase_of_def split: option.split)

lemma phase_dead [simp]: "poisoned (dec_buffer d) = Some e \<Longrightarrow> phase_of d = Dead e"
  by (simp add: phase_of_def)

lemma phase_alive: "poisoned (dec_buffer d) = None \<Longrightarrow> phase_of d \<noteq> Dead e"
  by (simp add: phase_of_def)

lemma phase_poison: "poisoned (dec_buffer d) = None \<Longrightarrow> phase_of (poison_decoder e d) = Dead e"
  by (simp add: phase_of_def poison_decoder_def buffer_poison_def)

lemma poisoned_read [simp]: "poisoned b = None \<Longrightarrow> poisoned (snd (read_message b)) = None"
  by (simp add: read_message_eq Let_def)

lemma poisoned_peek [simp]: "poisoned b = None \<Longrightarrow> poisoned (snd (peek_header b)) = None"
  using header_words_less [of b] by (auto simp: peek_header_def Let_def check_torn_size_def)

lemma poisoned_read_bytes [simp]: "poisoned (snd (read_bytes n b)) = poisoned b"
  by (auto simp: read_bytes_def split: sum.splits)

lemma decoder_poisoned_step:
  assumes "poisoned (dec_buffer d) = Some e" and "c \<noteq> DReset" and "c \<noteq> DHandshake"
  shows "decoder_step c d = d"
  using assms poisoned_ops [OF assms(1)]
  by (cases c) (auto simp: decoder_feed_def decode_def decode_continuation_def decoder_skip_message_def take_frame_def
      pending_frame_size_def on_buffer_eq check_poisoned_def)

lemma decode_follows:
  assumes "decoder_inv d" and "poisoned (dec_buffer d) = None"
  shows "follows d DDecode (snd (decode d))"
proof (cases "handshake_done d \<and> \<not> continuation_expected d")
  case True
  then have idle: "phase_of d = Idle" using assms(2) by (simp add: phase_of_def)
  let ?d = "d\<lparr>dec_buffer := snd (read_message (dec_buffer d))\<rparr>"
  have d: "poisoned (dec_buffer ?d) = None" "phase_of ?d = phase_of d" using assms(2) by (simp_all add: phase_buffer)
  have "follows d DDecode d'" if s: "start_continuation ?d m = Inr d'" "decode_frame d f = Inr m" for m f d'
  proof (cases "d' = ?d")
    case False
    then obtain n names where "phase_of d' = Inside 1 n names" "within (max_total_rows d) n" "\<not> is_request d"
      using s decode_frame_direction [OF s(2)] d(1) True
      by (auto simp: start_continuation_def phase_of_def within_def split: message.splits response.splits if_splits)
    then show ?thesis unfolding idle by (metis phase_step.begin_rows)
  qed (use d(2) in auto)
  moreover have "follows d DDecode (poison_decoder e ?d)" for e
    using phase_poison [OF d(1)] phase_step.fail_decode unfolding idle by simp
  moreover have "follows d DDecode ?d" using d(2) by auto
  ultimately show ?thesis
    using decode_ready [OF assms(2)] True
    by (auto simp: take_frame_def on_buffer_eq bindE_eq_Inr split: sum.splits option.splits)
next
  case False
  then have "snd (decode d) = d" using assms(2) by (auto simp: decode_def check_poisoned_def)
  then show ?thesis by auto
qed

lemma phase_finalize:
  assumes "poisoned (dec_buffer d) = None" and "\<not> is_request d" and "handshake_done d"
  shows "phase_of (finalize_continuation_state d) = Idle"
  using assms by (simp add: phase_of_def)

lemma continue_rows_follows:
  assumes "decoder_inv d" and "poisoned (dec_buffer d) = None" and "continuation_expected d"
    and "continue_rows r d = (Inr m, d')"
  shows "follows d DContinue d'"
proof -
  have s: "\<not> is_request d" "handshake_done d" using assms(1,3) by (auto simp: decoder_inv_defs)
  obtain names where p: "phase_of d = Inside (continuation_frame_count d) (continuation_total_rows d) names"
    "continuation_column_names d = Some names"
    using assms s by (auto simp: phase_of_def decoder_inv_defs)
  from assms(4) show ?thesis
  proof (cases rule: continue_rows_cases)
    case (rows d2)
    have d2: "phase_of d2 = Inside (continuation_frame_count d + 1) (continuation_total_rows d + length (rows r)) names"
      "phase_of (finalize_continuation_state d2) = Idle"
      using rows(2) assms(2,3) s p(2) phase_finalize [of d2] by (simp_all add: phase_of_def)
    show ?thesis
    proof (cases "has_more r")
      case True
      then show ?thesis unfolding rows(3) using d2(1) p(1) s(1) rows(4,5) by (auto intro: phase_step.more_rows simp del: add_Suc_right One_nat_def)
    next
      case False
      then show ?thesis unfolding rows(3) using d2(2) p(1) s(1) by (auto intro: phase_step.end_rows)
    qed
  qed simp
qed

lemma decode_continuation_follows:
  assumes "decoder_inv d" and "poisoned (dec_buffer d) = None"
  shows "follows d DContinue (snd (decode_continuation d))"
proof (cases "continuation_expected d")
  case True
  let ?d = "d\<lparr>dec_buffer := snd (read_message (dec_buffer d))\<rparr>"
  have s: "\<not> is_request d" "handshake_done d" using assms(1) True by (auto simp: decoder_inv_defs)
  have d: "poisoned (dec_buffer ?d) = None" "phase_of ?d = phase_of d" using assms(2) by (simp_all add: phase_buffer)
  have i: "decoder_inv ?d" using buffer_update_step [OF assms(1), of CallRead] by simp
  obtain k n names where p: "phase_of d = Inside k n names" using assms(2) s(2) True by (simp add: phase_of_def)
  have stopped: "follows d DContinue (finalize_continuation_state ?d)"
    using phase_finalize [OF d(1)] s p by (simp add: phase_step.end_rows)
  have dead: "follows d DContinue (poison_decoder e (finalize_continuation_state ?d))" for e
    using phase_poison [of "finalize_continuation_state ?d" e] d(1) p by (simp add: phase_step.fail_rows)
  have raised: "follows d DContinue (continuation_except e d')" if b: "continuation_body data ?d = (Inl e, d')" for data e d'
    using b
  proof (cases rule: continuation_body_cases)
    case (raised e')
    then show ?thesis using stopped dead d(2) by (auto simp: continuation_except_def)
  next
    case (failure e')
    then show ?thesis using stopped by (auto simp: continuation_except_def)
  next
    case (rows r)
    then show ?thesis using stopped by (cases rule: continue_rows_cases) (simp_all add: continuation_except_def)
  qed simp
  have returned: "follows d DContinue d'" if b: "continuation_body data ?d = (Inr r, d')" for data r d'
    using b
  proof (cases rule: continuation_body_cases)
    case (rows q)
    then show ?thesis using continue_rows_follows [OF i d(1), of q r d'] True d(2) by simp
  qed (use stopped in simp_all)
  show ?thesis
    using assms(2) True stopped dead raised returned d(2)
    by (auto simp: decode_continuation_def on_buffer_eq check_poisoned_def split: prod.splits sum.splits option.splits
        dest!: read_message_error [OF assms(2), of _ "snd (read_message (dec_buffer d))"])
qed (use assms(2) in \<open>auto simp: decode_continuation_def check_poisoned_def\<close>)

lemma decode_handshake_follows:
  assumes "decoder_inv d"
  shows "follows d DHandshake (snd (decode_handshake d))"
proof (cases "poisoned (dec_buffer d)")
  case None
  show ?thesis
  proof (cases "handshake_done d")
    case False
    then have s: "is_request d" "\<not> continuation_expected d" "phase_of d = Awaiting"
      using assms None by (auto simp: decoder_inv_defs phase_of_def)
    have "snd (decode_handshake d) = d
      \<or> (\<exists>v. snd (decode_handshake d) = d\<lparr>dec_version := Some v, handshake_done := True, dec_buffer := snd (read_bytes 8 (dec_buffer d))\<rparr>)"
      using None False by (auto simp: decode_handshake_def on_buffer_eq Let_def peek_bytes_def read_bytes_def split: sum.splits option.splits if_splits)
    then show ?thesis
    proof
      assume "snd (decode_handshake d) = d"
      then show ?thesis by auto
    next
      assume "\<exists>v. snd (decode_handshake d) = d\<lparr>dec_version := Some v, handshake_done := True, dec_buffer := snd (read_bytes 8 (dec_buffer d))\<rparr>"
      then have "phase_of (snd (decode_handshake d)) = Idle" using None s(2) by (auto simp: phase_of_def)
      then show ?thesis using s by (simp add: phase_step.greet)
    qed
  qed (auto simp: decode_handshake_def)
next
  case (Some e)
  then have "snd (decode_handshake d) = d" using poisoned_ops(6) [OF Some, of 8] by (simp add: decode_handshake_def)
  then show ?thesis by auto
qed

lemma decoder_follows:
  assumes "decoder_inv d"
  shows "follows d c (decoder_step c d)"
proof (cases "c = DReset \<or> c = DHandshake")
  case True
  then show ?thesis
  proof
    assume "c = DReset"
    moreover have "phase_of (decoder_reset d) = (if is_request d then Awaiting else Idle)"
      using assms by (auto simp: phase_of_def decoder_reset_def finalize_continuation_state_def buffer_reset_def Let_def decoder_inv_defs)
    ultimately show ?thesis by (simp only: decoder_step.simps phase_step.restart)
  qed (use decode_handshake_follows [OF assms] in simp)
next
  case False
  show ?thesis
  proof (cases "poisoned (dec_buffer d)")
    case (Some e)
    then show ?thesis using decoder_poisoned_step [OF Some] False by (auto intro: phase_step.stay)
  next
    case None
    have buffer: "follows d c (d\<lparr>dec_buffer := b\<rparr>)"
      if "poisoned b = None \<or> (\<exists>data. c = DFeed data) \<or> c = DSkip \<and> \<not> continuation_expected d" for b
    proof (cases "poisoned b")
      case dead: (Some e)
      then have "phase_of (d\<lparr>dec_buffer := b\<rparr>) = Dead e" by simp
      moreover have "phase_of d = Awaiting \<or> phase_of d = Idle" if "c = DSkip" "\<not> continuation_expected d"
        using that(2) None by (simp add: phase_of_def)
      ultimately show ?thesis using that dead phase_alive [OF None] by (auto intro: phase_step.fail_feed phase_step.fail_skip)
    qed (use None False phase_buffer in auto)
    show ?thesis
    proof (cases c)
      case DPeek
      have "snd (pending_frame_size d) = d\<lparr>dec_buffer := snd (peek_header (dec_buffer d))\<rparr>"
        by (auto simp: pending_frame_size_def on_buffer_eq split: sum.splits option.splits)
      then show ?thesis using buffer None DPeek by auto
    next
      case DSkip
      then show ?thesis using buffer by (auto simp: decoder_skip_message_def on_buffer_eq)
    qed (use False None buffer decode_follows [OF assms] decode_continuation_follows [OF assms] in
        \<open>simp_all add: decoder_feed_def take_frame_def on_buffer_eq\<close>)
  qed
qed

section \<open>Properties\<close>

text \<open>
  C4 (decoder_refines): the decoder refines the protocol automaton.  In every decoder that
  calls can lead to, every further call, whatever bytes are fed, makes a move the automaton
  allows: no message before the handshake, none outside \<^verbatim>\<open>decode_continuation()\<close> while a result
  set is open, frames counted one by one, rows and frames within their caps, the same column
  names from the first frame to the last, and no way out of a poisoned decoder but a reset.
\<close>

theorem decoder_refines:
  assumes "decoder_reachable a d"
  shows "phase_step (is_request d) (max_continuation_frames d) (max_total_rows d)
    (phase_of d) c (phase_of (decoder_step c d))"
  using decoder_follows [OF decoder_reachable_inv [OF assms]] .

theorem decoder_refines_witness:
  "phase_step False (Some 3) (Some 4) Idle DDecode (phase_of (decoder_step DDecode (sample_decoder False [])))"
proof -
  have "decoder_reachable (sample_args False) (sample_decoder False [])"
    by (rule decoder_reachable.init [OF sample_init])
  moreover have "phase_of (sample_decoder False []) = Idle" by (simp add: phase_of_def)
  ultimately show ?thesis using decoder_refines [of "sample_args False" "sample_decoder False []" DDecode]
    by (simp del: decoder_step.simps)
qed

text \<open>
  C20 (dead_until_reset): a poisoned decoder stays poisoned with the same cause under every
  sequence of calls without a reset, and every call that would feed or deliver bytes raises.
\<close>

theorem dead_until_reset:
  assumes "decoder_reachable a d" and "poisoned (dec_buffer d) = Some e" and "DReset \<notin> set cs"
  shows "fold decoder_step cs d = d \<and> fst (decoder_feed data d) = Inl (PoisonedError e)
    \<and> fst (decode d) = Inl (PoisonedError e) \<and> fst (decode_continuation d) = Inl (PoisonedError e)
    \<and> fst (take_frame d) = Inl (PoisonedError e) \<and> decode_bytes d data = Inl (PoisonedError e)"
proof -
  have h: "snd (decode_handshake d) = d" using poisoned_ops(6) [OF assms(2), of 8] by (simp add: decode_handshake_def)
  have "decoder_step c d = d" if "c \<noteq> DReset" for c
    using decoder_poisoned_step [OF assms(2) that] h by (cases "c = DHandshake") auto
  then have "fold decoder_step cs d = d" using assms(3) by (induction cs) auto
  then show ?thesis
    using poisoned_ops [OF assms(2)] assms(2)
    by (simp add: decoder_feed_def take_frame_def on_buffer_eq decode_def decode_continuation_def decode_bytes_def check_poisoned_def)
qed

theorem dead_until_reset_witness:
  "fold decoder_step [DDecode, DFeed [9], DSkip]
     (decoder_step DDecode (decoder_step (DFeed [0, 0, 0, 0, 9, 1, 0, 0]) (sample_decoder False [])))
   = decoder_step DDecode (decoder_step (DFeed [0, 0, 0, 0, 9, 1, 0, 0]) (sample_decoder False []))"
proof -
  let ?d = "decoder_step DDecode (decoder_step (DFeed [0, 0, 0, 0, 9, 1, 0, 0]) (sample_decoder False []))"
  have "decoder_reachable (sample_args False) ?d"
    by (intro decoder_reachable.step decoder_reachable.init [OF sample_init])
  moreover have "poisoned (dec_buffer ?d) = Some (DecodeError BadSchema)" by code_simp
  ultimately have "fold decoder_step [DDecode, DFeed [9], DSkip] ?d = ?d
    \<and> fst (decoder_feed [] ?d) = Inl (PoisonedError (DecodeError BadSchema))
    \<and> fst (decode ?d) = Inl (PoisonedError (DecodeError BadSchema))
    \<and> fst (decode_continuation ?d) = Inl (PoisonedError (DecodeError BadSchema))
    \<and> fst (take_frame ?d) = Inl (PoisonedError (DecodeError BadSchema))
    \<and> decode_bytes ?d [] = Inl (PoisonedError (DecodeError BadSchema))"
    by (rule dead_until_reset) simp
  then show ?thesis by (rule conjunct1)
qed

text \<open>
  C18 (decoder_invariant): in every reachable decoder the unread bytes fit the cap, a response
  decoder never waits for a handshake, a version is known exactly when the handshake is done and
  is a supported one, and while a result set is open the frames and rows counted so far are
  within the caps and its column snapshot is consistent; otherwise all continuation state is
  clear.
\<close>

theorem decoder_invariant:
  assumes "decoder_reachable a d"
  shows "decoder_inv d \<and> int (length (unread d)) \<le> dec_max_message_size d
    \<and> (continuation_expected d \<longrightarrow> \<not> is_request d \<and> within (max_continuation_frames d) (continuation_frame_count d)
         \<and> within (max_total_rows d) (continuation_total_rows d))"
  using decoder_reachable_inv [OF assms]
  by (auto simp: decoder_inv_defs buffer_inv_def length_pending)

theorem decoder_invariant_witness: "decoder_inv (decoder_step (DFeed [1, 2]) (sample_decoder True []))"
proof -
  have "decoder_reachable (sample_args True) (decoder_step (DFeed [1, 2]) (sample_decoder True []))"
    by (intro decoder_reachable.step decoder_reachable.init [OF sample_init])
  from decoder_invariant [OF this] show ?thesis by (rule conjunct1)
qed

text \<open>
  C19 (reset_fresh): \<^verbatim>\<open>reset()\<close> after any sequence of calls leaves exactly the decoder the
  constructor built from the same arguments: nothing of the old stream survives a reconnect, a
  request decoder waits for a handshake again, a response decoder keeps its version.
\<close>

theorem reset_fresh:
  assumes "decoder_reachable a d"
  shows "decoder_init a = Inr (decoder_reset d)"
  using assms
proof (induction rule: decoder_reachable.induct)
  case (init d)
  then show ?case using reset_init by simp
next
  case (step d c)
  then show ?case using reset_step [OF decoder_reachable_inv] by simp
qed

theorem reset_fresh_witness:
  "decoder_init (sample_args True) = Inr (decoder_reset (decoder_step DHandshake (decoder_step (DFeed [1, 0, 0, 0, 0, 0, 0, 0, 5]) (sample_decoder True []))))"
  by (rule reset_fresh) (intro decoder_reachable.step decoder_reachable.init [OF sample_init])

text \<open>
  A server whose buffer starts with the handshake of a client's encoder learns the client's
  version, consumes exactly these eight bytes and is ready for the first request.
\<close>

theorem handshake_opens:
  assumes "decoder_inv d" and "buffer_ready (dec_buffer d)" and "\<not> handshake_done d"
    and "encoder_init v n = Inr enc" and "unread d = encode_handshake enc @ rest"
  shows "\<exists>d'. decode_handshake d = (Inr (Some v), d') \<and> decoder_idle d' \<and> unread d' = rest
    \<and> dec_version d' = Some v \<and> is_request d' = is_request d \<and> dec_max_message_size d' = dec_max_message_size d"
proof -
  have v: "v \<in> SUPPORTED_VERSIONS" "enc_version enc = v"
    using assms(4) by (auto simp: encoder_init_def split: if_splits)
  then have "0 \<le> v" "v < 256 ^ 8" by (auto simp: SUPPORTED_VERSIONS_def PROTOCOL_VERSION_def PROTOCOL_VERSION_LEGACY_def)
  then have le: "int (le_nat (le_bytes 8 v)) = v" by (rule le_nat_word)
  have p: "poisoned (dec_buffer d) = None" using assms(2) by (simp add: buffer_ready_def)
  have u: "pending (dec_buffer d) = le_bytes 8 v @ rest" using assms(5) v(2) by (simp add: encode_handshake_def)
  have t: "take 8 (drop (buf_pos (dec_buffer d)) (buf_data (dec_buffer d))) = le_bytes 8 v"
    using u by (simp add: pending_def)
  have a: "8 \<le> available (dec_buffer d)" using u length_pending [of "dec_buffer d"] by simp
  let ?b = "advance 8 (dec_buffer d)"
  let ?d = "d\<lparr>dec_version := Some v, handshake_done := True, dec_buffer := ?b\<rparr>"
  have "decode_handshake d = (Inr (Some v), ?d)"
    using assms(3) p a v(1) le by (simp add: decode_handshake_def peek_bytes_def read_bytes_def on_buffer_eq t not_less)
  moreover have "pending ?b = rest" using u by (simp add: pending_advance)
  moreover have "buffer_inv ?b" using advance_inv [of "dec_buffer d" 8] assms(2) a by (simp add: buffer_ready_def)
  then have "decoder_idle ?d"
    using assms(1-3) v(1) by (auto simp: decoder_idle_def decoder_inv_defs buffer_ready_def)
  ultimately show ?thesis by auto
qed

text \<open>
  Until then no byte of a client is interpreted as a message: a
  request decoder answers \<^verbatim>\<open>decode()\<close> and \<^verbatim>\<open>decode_bytes()\<close> with \<^verbatim>\<open>HandshakeError\<close>, a
  version it does not support is refused, and in both cases the decoder and its buffer are
  unchanged, so that a retry gives the same answer.
\<close>

theorem handshake_required:
  assumes "decoder_reachable a d" and "\<not> handshake_done d" and "poisoned (dec_buffer d) = None"
  shows "decode d = (Inl (HandshakeError NotReady), d)
    \<and> decode_bytes d data = Inl (HandshakeError NotReady)
    \<and> (if HEADER_SIZE \<le> length (unread d)
       then int (le_nat (take 8 (unread d))) \<in> SUPPORTED_VERSIONS
            \<or> decode_handshake d = (Inl (HandshakeError BadVersion), d)
       else decode_handshake d = (Inr None, d))"
proof -
  have "\<not> continuation_expected d" using decoder_reachable_inv [OF assms(1)] assms(2) by (auto simp: decoder_inv_defs)
  then show ?thesis
    using assms(2,3) length_pending [of "dec_buffer d"]
    by (auto simp: decode_def decode_bytes_def check_poisoned_def decode_handshake_def peek_bytes_def Let_def pending_def)
qed

theorem handshake_required_witness:
  "fst (decode (decoder_step (DFeed [9, 9, 9]) (sample_decoder True []))) = Inl (HandshakeError NotReady)"
proof -
  let ?d = "decoder_step (DFeed [9, 9, 9]) (sample_decoder True [])"
  have "decoder_reachable (sample_args True) ?d"
    by (intro decoder_reachable.step decoder_reachable.init [OF sample_init])
  moreover have "\<not> handshake_done ?d" "poisoned (dec_buffer ?d) = None" by code_simp+
  ultimately show ?thesis using handshake_required [of "sample_args True" ?d] by (simp del: decoder_step.simps)
qed

text \<open>
  C16 (continuation_resync): an error inside a result set always ends it.  If it comes from a
  frame that was delivered, and text is decoded strictly, the exception is a \<^verbatim>\<open>DecodeError\<close>, a
  \<^verbatim>\<open>StreamError\<close> or a \<^verbatim>\<open>ServerFailure\<close>, exactly that frame has been consumed and the decoder is
  ready for the next message: it is not poisoned, not even by a malformed failure frame.  If no
  frame was delivered the cause is an oversized header, and the decoder is poisoned.
\<close>

theorem continuation_resync:
  assumes "decoder_inv d" and "buffer_ready (dec_buffer d)" and "continuation_expected d"
    and "dec_text_errors d = Strict" and "decode_continuation d = (Inl e, d')"
  shows "\<not> continuation_expected d'
    \<and> (case fst (take_frame d) of
         Inr (Some f) \<Rightarrow> decoder_idle d' \<and> unread d = f @ unread d'
           \<and> (is_DecodeError e \<or> is_StreamError e \<or> is_ServerFailure e)
       | _ \<Rightarrow> e = DecodeError Oversized \<and> poisoned (dec_buffer d') = Some e)"
proof -
  obtain res d1 where t: "take_frame d = (res, d1)" by (cases "take_frame d")
  then obtain b where b: "read_message (dec_buffer d) = (res, b)" and d1: "d1 = d\<lparr>dec_buffer := b\<rparr>"
    by (cases "read_message (dec_buffer d)") (simp add: take_frame_def on_buffer_def)
  have s: "\<not> is_request d" "handshake_done d" "poisoned (dec_buffer d) = None"
    using assms(1-3) by (auto simp: decoder_inv_defs buffer_ready_def)
  have t': "on_buffer read_message d = (res, d1)" using t by (simp add: take_frame_def)
  show ?thesis
  proof (cases res)
    case (Inl e')
    from read_message_error [OF s(3), of e' b] b Inl show ?thesis
      using assms(3,5) s(3) t t' Inl d1
      by (auto simp: decode_continuation_def check_poisoned_def poison_decoder_def buffer_poison_def)
  next
    case (Inr o')
    then obtain f where f: "o' = Some f"
      using assms(3,5) s(3) t' by (cases o') (simp_all add: decode_continuation_def check_poisoned_def)
    then obtain d2 where b2: "continuation_body f d1 = (Inl e, d2)" "d' = continuation_except e d2"
      using assms(3,5) s(3) t' Inr by (auto simp: decode_continuation_def check_poisoned_def split: prod.splits sum.splits)
    have e: "d' = finalize_continuation_state d1" "is_DecodeError e \<or> is_StreamError e \<or> is_ServerFailure e"
      using continuation_except_error [OF _ b2(1)] assms(4) d1 b2(2) by simp_all
    have r: "buffer_ready b" "unread d = f @ pending b" "max_message_size b = max_message_size (dec_buffer d)"
      using dec.read_some [OF assms(2)] t Inr f d1 by simp_all
    have "decoder_config d1" using buffer_update_inv [OF assms(1), of b] r(1,3) d1 by (simp add: decoder_inv_def buffer_ready_def)
    then have "decoder_idle d'"
      using finalize_inv [of d1] r(1) s d1 e(1) by (simp add: decoder_idle_def)
    then show ?thesis using t Inr f r(2) e d1 by simp
  qed
qed

theorem continuation_resync_witness:
  "decoder_idle (snd (decode_continuation (opened \<lparr>column_names = [[97]], column_types = [INTEGER], row_types = [[INTEGER]],
     rows = [[PInt 7]], has_more = True\<rparr> (sample_decoder False [0, 0, 0, 0, 0, 0, 0, 0, 9]))))"
proof -
  let ?d = "opened \<lparr>column_names = [[97]], column_types = [INTEGER], row_types = [[INTEGER]],
     rows = [[PInt 7]], has_more = True\<rparr> (sample_decoder False [0, 0, 0, 0, 0, 0, 0, 0, 9])"
  have i: "decoder_inv ?d" "buffer_ready (dec_buffer ?d)" "continuation_expected ?d" "dec_text_errors ?d = Strict"
    by (simp_all add: opened_def decoder_inv_defs buffer_ready_def buffer_inv_def available_def below_one_def within_def
        exceeds_def SUPPORTED_VERSIONS_def PROTOCOL_VERSION_def)
  have "fst (decode_continuation ?d) = Inl (DecodeError TooShort)" by code_simp
  then have e: "decode_continuation ?d = (Inl (DecodeError TooShort), snd (decode_continuation ?d))" by (metis prod.collapse)
  have t: "fst (take_frame ?d) = Inr (Some [0, 0, 0, 0, 0, 0, 0, 0])" by code_simp
  from continuation_resync [OF i e] show ?thesis unfolding t by simp
qed

text \<open>
  C17 (decode_poisons): outside a result set an error is final.  When \<^verbatim>\<open>decode()\<close> raises on a
  decoder that is ready for a message, either a frame was consumed, and then the decoder is
  poisoned with exactly this exception, or the header announced too many bytes, and then the
  decoder is unchanged.
\<close>

theorem decode_poisons:
  assumes "decoder_idle d" and "decode d = (Inl e, d')"
  shows "case fst (take_frame d) of
      Inr (Some f) \<Rightarrow> poisoned (dec_buffer d') = Some e \<and> unread d = f @ unread d' \<and> phase_of d' = Dead e
    | _ \<Rightarrow> e = DecodeError Oversized \<and> d' = d"
proof -
  have s: "buffer_ready (dec_buffer d)" "poisoned (dec_buffer d) = None" "handshake_done d" "\<not> continuation_expected d"
    using assms(1) by (simp_all add: decoder_idle_def buffer_ready_def)
  obtain res d1 where t: "take_frame d = (res, d1)" by (cases "take_frame d")
  then obtain b where b: "read_message (dec_buffer d) = (res, b)" and d1: "d1 = d\<lparr>dec_buffer := b\<rparr>"
    by (cases "read_message (dec_buffer d)") (simp add: take_frame_def on_buffer_def)
  show ?thesis
  proof (cases res)
    case (Inl e')
    then show ?thesis using read_message_error [OF s(2), of e' b] assms(2) b t d1 decode_ready [OF s(2-4)] by simp
  next
    case (Inr o')
    then obtain f where f: "o' = Some f" using assms(2) t decode_ready [OF s(2-4)] by (cases o') simp_all
    then have "d' = poison_decoder e d1"
      using assms(2) t Inr decode_ready [OF s(2-4)] by (auto split: sum.splits)
    moreover have "buffer_ready b" "unread d = f @ pending b" using dec.read_some [OF s(1)] t Inr f d1 by simp_all
    ultimately have "poisoned (dec_buffer d') = Some e" "unread d = f @ unread d'"
      using d1 by (simp_all add: poison_decoder_def buffer_poison_def buffer_ready_def pending_def)
    then show ?thesis using t Inr f by simp
  qed
qed

theorem decode_poisons_witness:
  "poisoned (dec_buffer (snd (decode (sample_decoder False [0, 0, 0, 0, 99, 0, 0, 0])))) = Some (DecodeError BadTag)"
proof -
  let ?d = "sample_decoder False [0, 0, 0, 0, 99, 0, 0, 0]"
  have i: "decoder_idle ?d" by (rule sample_idle) simp
  have "fst (decode ?d) = Inl (DecodeError BadTag)" by code_simp
  then have e: "decode ?d = (Inl (DecodeError BadTag), snd (decode ?d))" by (metis prod.collapse)
  have t: "fst (take_frame ?d) = Inr (Some [0, 0, 0, 0, 99, 0, 0, 0])" by code_simp
  from decode_poisons [OF i e] show ?thesis unfolding t by simp
qed

text \<open>
  C27 (decoder_raises): with strict text the three ways to get a message raise nothing outside
  the package's own exception hierarchy, in any state and for any bytes.
\<close>

theorem decoder_raises:
  assumes "dec_text_errors d = Strict"
  shows "(case fst (decode d) of Inl e \<Rightarrow> is_ProtocolError e | Inr m \<Rightarrow> True)
    \<and> (case fst (decode_continuation d) of Inl e \<Rightarrow> is_ProtocolError e | Inr m \<Rightarrow> True)
    \<and> (case decode_bytes d data of Inl e \<Rightarrow> is_ProtocolError e | Inr m \<Rightarrow> True)"
proof -
  have read: "is_ProtocolError e" if "read_message b = (Inl e, b')" for b e b'
    using that read_message_error [of b e b'] poisoned_ops(2) [of b] by (cases "poisoned b") auto
  have bytes: "is_ProtocolError e" if "decode_bytes d' f = Inl e" "dec_text_errors d' = Strict" for d' f e
    using that decode_frame_error [of d' f e]
    by (auto simp: decode_bytes_def bindE_eq_Inl check_poisoned_def split: option.splits if_splits)
  have start: "is_ProtocolError e" if "start_continuation d' m = Inl e" for d' m e
    using that by (auto simp: start_continuation_def split: message.splits response.splits if_splits)
  have body: "is_ProtocolError e" if "continuation_body f d' = (Inl e, d2)" "dec_text_errors d' = Strict" for d' f e d2
    using continuation_except_error [OF that(2,1)] by auto
  have "case fst (decode d) of Inl e \<Rightarrow> is_ProtocolError e | Inr m \<Rightarrow> True"
    using assms read bytes start
    by (auto simp: decode_def on_buffer_def check_poisoned_def bindE_eq_Inl split: sum.splits option.splits prod.splits)
  moreover have "case fst (decode_continuation d) of Inl e \<Rightarrow> is_ProtocolError e | Inr m \<Rightarrow> True"
    using assms read body
    by (auto simp: decode_continuation_def on_buffer_def check_poisoned_def split: sum.splits option.splits prod.splits)
  ultimately show ?thesis using bytes assms by (auto split: sum.splits)
qed

theorem decoder_raises_witness:
  "case fst (decode (sample_decoder False [1, 2, 3])) of Inl e \<Rightarrow> is_ProtocolError e | Inr m \<Rightarrow> True"
  using decoder_raises [of "sample_decoder False [1, 2, 3]"] by simp

end
