(* ===== verification/Interrupts.thy ===== *)
theory Interrupts
  imports Decoder_States "HOL-Library.Sublist"
begin

text \<open>
  Asynchronous exceptions.  \<^verbatim>\<open>ReadBuffer\<close> and \<^verbatim>\<open>MessageDecoder\<close> wrap every group of stores that
  belong together in a \<^verbatim>\<open>try\<close> whose \<^verbatim>\<open>except BaseException\<close> clause poisons the buffer, so that a
  signal that arrives between two stores cannot leave a half-updated buffer in use.  Here each
  such group is the list of the buffers after each of its stores, in program order.  Its last
  buffer is the one the atomic methods of \<open>Buffer\<close> return; an interruption may stop at any other.
\<close>

section \<open>Definitions\<close>

subsection \<open>The stores of a method\<close>

text \<open>\<^verbatim>\<open>self._data = new_data; self._pos = 0\<close>.\<close>

definition compact_stores :: "read_buffer \<Rightarrow> read_buffer list" where
  "compact_stores b =
     (if buf_pos b \<le> COMPACT_THRESHOLD then []
      else if buf_pos b < length (buf_data b) div 2 then []
      else
        (let b1 = b\<lparr>buf_data := drop (buf_pos b) (buf_data b)\<rparr> in [b1, b1\<lparr>buf_pos := 0\<rparr>]))"

text \<open>\<^verbatim>\<open>self._pos += n; self._maybe_compact()\<close>, in \<^verbatim>\<open>read_message\<close> and \<^verbatim>\<open>read_bytes\<close>.\<close>

definition read_stores :: "nat \<Rightarrow> read_buffer \<Rightarrow> read_buffer list" where
  "read_stores n b = (let b1 = b\<lparr>buf_pos := buf_pos b + n\<rparr> in b1 # compact_stores b1)"

text \<open>\<^verbatim>\<open>self._maybe_compact(); self._data.extend(data)\<close>.\<close>

definition extend_stores :: "bytes \<Rightarrow> read_buffer \<Rightarrow> read_buffer list" where
  "extend_stores data b =
     (let c = last (b # compact_stores b) in compact_stores b @ [c\<lparr>buf_data := buf_data c @ data\<rparr>])"

definition feed_stores :: "bytes \<Rightarrow> read_buffer \<Rightarrow> read_buffer list" where
  "feed_stores data b =
     (if 0 < skip_remaining b then
        (let discard = min (length data) (skip_remaining b);
             data' = drop discard data;
             b1 = b\<lparr>skip_remaining := skip_remaining b - discard\<rparr>;
             fired = (if skip_remaining b1 = 0 \<and> poison_after_skip b1 \<noteq> None then
                        [b1\<lparr>poisoned := poison_after_skip b1\<rparr>,
                         b1\<lparr>poisoned := poison_after_skip b1, poison_after_skip := None\<rparr>]
                      else [])
         in b1 # fired @ (if data' = [] then [] else extend_stores data' (last (b1 # fired))))
      else extend_stores data b)"

text \<open>
  A rejected \<^verbatim>\<open>feed\<close> stores outside of any guarded section: it drops a skip in progress, then
  poisons.
\<close>

definition reject_stores :: "exc \<Rightarrow> read_buffer \<Rightarrow> read_buffer list" where
  "reject_stores err b =
     (if 0 < skip_remaining b then
        (let b1 = b\<lparr>skip_remaining := 0\<rparr>; b2 = b1\<lparr>poison_after_skip := None\<rparr>
         in [b1, b2, buffer_poison err b2])
      else if 0 < available b then [buffer_poison err b]
      else [])"

text \<open>The section of \<^verbatim>\<open>skip_message\<close>, given the size the header announces.\<close>

definition skip_stores :: "nat \<Rightarrow> read_buffer \<Rightarrow> read_buffer list" where
  "skip_stores total_size b =
     (if total_size \<le> max_message_size b then read_stores total_size b
      else
        (let effective_total = min total_size (max_message_size b);
             skip_now = min effective_total (available b);
             b1 = b\<lparr>buf_pos := buf_pos b + skip_now\<rparr>;
             b2 = b1\<lparr>skip_remaining := effective_total - skip_now\<rparr>;
             b3 = (if skip_remaining b2 = 0 then buffer_poison (DecodeError Desync) b2
                   else b2\<lparr>poison_after_skip := Some (DecodeError Desync)\<rparr>)
         in [b1, b2, b3] @ compact_stores b3))"

text \<open>The \<^verbatim>\<open>except BaseException\<close> clauses: the first error wins, a signal becomes a \<^verbatim>\<open>RuntimeError\<close>.\<close>

definition on_interrupt :: "read_buffer \<Rightarrow> read_buffer" where
  "on_interrupt b = (if poisoned b = None then b\<lparr>poisoned := Some RuntimeError\<rparr> else b)"

subsection \<open>Interrupted calls\<close>

text \<open>
  Where an asynchronous exception may hit a call: before its guarded section, after the
  \<open>k\<close>-th store of the section (0 is before the first), or after the section, when the effect
  is complete and only the result is lost.
\<close>

datatype interrupt = Undisturbed | Before | AtStore nat | After

definition cut_short :: "read_buffer \<Rightarrow> read_buffer list \<Rightarrow> nat \<Rightarrow> read_buffer" where
  "cut_short b stores k = on_interrupt ((b # stores) ! min k (length stores))"

text \<open>The buffer after a call; a call that raises or returns early never enters its section.\<close>

definition feed_after :: "interrupt \<Rightarrow> bytes \<Rightarrow> read_buffer \<Rightarrow> read_buffer" where
  "feed_after i data b = (case i of
     Before \<Rightarrow> b
   | AtStore k \<Rightarrow> if fst (feed data b) = Inr () then cut_short b (feed_stores data b) k else snd (feed data b)
   | _ \<Rightarrow> snd (feed data b))"

definition read_after :: "interrupt \<Rightarrow> read_buffer \<Rightarrow> read_buffer" where
  "read_after i b = (case i of
     Before \<Rightarrow> b
   | AtStore k \<Rightarrow> (case fst (read_message b) of
       Inr (Some f) \<Rightarrow> cut_short b (read_stores (length f) b) k
     | _ \<Rightarrow> snd (read_message b))
   | _ \<Rightarrow> snd (read_message b))"

text \<open>
  An owner that goes on after every exception.  The run gives the frames it was handed, the
  bytes of the feeds whose section ran to its end, and the buffer at the end.
\<close>

fun run_interrupted :: "(stream_event \<times> interrupt) list \<Rightarrow> read_buffer \<Rightarrow> bytes list \<times> bytes \<times> read_buffer" where
  "run_interrupted [] b = ([], [], b)"
| "run_interrupted ((Feed d, i) # es) b =
     (let (fs, accepted, b') = run_interrupted es (feed_after i d b) in
      (fs, (if (i = Undisturbed \<or> i = After) \<and> fst (feed d b) = Inr () then d else []) @ accepted, b'))"
| "run_interrupted ((Read, i) # es) b =
     (let (fs, accepted, b') = run_interrupted es (read_after i b) in
      ((case fst (read_message b) of Inr (Some f) \<Rightarrow> if i = Undisturbed then [f] else [] | _ \<Rightarrow> []) @ fs,
       accepted, b'))"

subsection \<open>Interrupted decoders\<close>

text \<open>The five stores of \<^verbatim>\<open>decode\<close> when a result set goes on.\<close>

definition continuation_stores :: "rows_response \<Rightarrow> message_decoder \<Rightarrow> message_decoder list" where
  "continuation_stores r d =
     (let d1 = d\<lparr>continuation_expected := True\<rparr>;
          d2 = d1\<lparr>continuation_frame_count := 1\<rparr>;
          d3 = d2\<lparr>continuation_total_rows := length (rows r)\<rparr>;
          d4 = d3\<lparr>continuation_column_count := Some (length (column_names r))\<rparr>;
          d5 = d4\<lparr>continuation_column_names := Some (column_names r)\<rparr>
      in [d1, d2, d3, d4, d5])"

text \<open>
  \<^verbatim>\<open>decode\<close> hit inside its \<^verbatim>\<open>try\<close>, while or after it decoded a part of a result set: \<open>d\<close> is the
  decoder after the frame was read.
\<close>

definition decode_interrupted :: "rows_response \<Rightarrow> nat \<Rightarrow> message_decoder \<Rightarrow> message_decoder" where
  "decode_interrupted r k d =
     poison_decoder RuntimeError ((d # continuation_stores r d) ! min k 5)"

text \<open>
  \<^verbatim>\<open>decode_continuation\<close>: the stores of \<^verbatim>\<open>_finalize_continuation_state\<close>, which end every arm but
  one, and those for a frame of rows that is accepted.  Hit at any of them, the last \<^verbatim>\<open>except\<close>
  clause runs.
\<close>

definition finalize_stores :: "message_decoder \<Rightarrow> message_decoder list" where
  "finalize_stores d =
     (let d1 = d\<lparr>continuation_expected := False\<rparr>;
          d2 = d1\<lparr>continuation_frame_count := 0\<rparr>;
          d3 = d2\<lparr>continuation_total_rows := 0\<rparr>;
          d4 = d3\<lparr>continuation_column_count := None\<rparr>;
          d5 = d4\<lparr>continuation_column_names := None\<rparr>;
          d6 = d5\<lparr>handshake_done := False\<rparr>
      in [d1, d2, d3, d4, d5] @ (if is_request d then [d6, d6\<lparr>dec_version := None\<rparr>] else []))"

definition continue_stores :: "rows_response \<Rightarrow> message_decoder \<Rightarrow> message_decoder list" where
  "continue_stores r d =
     (let d1 = d\<lparr>continuation_frame_count := continuation_frame_count d + 1\<rparr>;
          d2 = d1\<lparr>continuation_total_rows := continuation_total_rows d1 + length (rows r)\<rparr>
      in [d1, d2] @ (if has_more r then [] else finalize_stores d2))"

definition continuation_interrupted :: "message_decoder list \<Rightarrow> nat \<Rightarrow> message_decoder \<Rightarrow> message_decoder" where
  "continuation_interrupted stores k d =
     continuation_except RuntimeError ((d # stores) ! min k (length stores))"

text \<open>\<^verbatim>\<open>read_bytes\<close>, hit before, inside or after its own guarded section.\<close>

definition bytes_after :: "interrupt \<Rightarrow> int \<Rightarrow> read_buffer \<Rightarrow> read_buffer" where
  "bytes_after i n b = (case i of
     Before \<Rightarrow> b
   | AtStore k \<Rightarrow> (case fst (read_bytes n b) of
       Inr (Some g) \<Rightarrow> cut_short b (read_stores (length g) b) k
     | _ \<Rightarrow> snd (read_bytes n b))
   | _ \<Rightarrow> snd (read_bytes n b))"

text \<open>\<^verbatim>\<open>self._version = version; self._handshake_done = True\<close>, ahead of the \<^verbatim>\<open>try\<close>.\<close>

definition commit_stores :: "int \<Rightarrow> message_decoder \<Rightarrow> message_decoder list" where
  "commit_stores version d =
     (let d1 = d\<lparr>dec_version := Some version\<rparr> in [d1, d1\<lparr>handshake_done := True\<rparr>])"

text \<open>
  The consuming step of \<^verbatim>\<open>decode_handshake\<close>, from the two commits on: \<^verbatim>\<open>read_bytes(8)\<close> in a \<^verbatim>\<open>try\<close>
  whose handler takes them back, whatever \<^verbatim>\<open>read_bytes\<close> has done to the buffer when the exception
  gets there.
\<close>

definition handshake_interrupted :: "interrupt \<Rightarrow> int \<Rightarrow> message_decoder \<Rightarrow> message_decoder" where
  "handshake_interrupted i version d =
     (let d1 = last (commit_stores version d); d2 = d1\<lparr>dec_buffer := bytes_after i 8 (dec_buffer d1)\<rparr>
      in if i = Undisturbed then d2 else d2\<lparr>handshake_done := False, dec_version := None\<rparr>)"

section \<open>Lemmas\<close>

subsection \<open>The last store is the atomic result\<close>

lemma last_compact_stores: "last (b # compact_stores b) = maybe_compact b"
  by (simp add: compact_stores_def maybe_compact_def Let_def)

lemma last_read_stores: "last (b # read_stores n b) = advance n b"
  using last_compact_stores [of "b\<lparr>buf_pos := buf_pos b + n\<rparr>"] by (simp add: read_stores_def advance_def Let_def)

lemma last_extend_stores: "last (b # extend_stores d b) = Buffer.extend d b"
  using last_compact_stores [of b] by (simp add: extend_stores_def Buffer.extend_def Let_def)

lemma last_append_stores: "last (b # xs @ ys) = last (last (b # xs) # ys)"
  by simp

lemma last_feed_stores:
  assumes "fst (feed d b) = Inr ()"
  shows "last (b # feed_stores d b) = snd (feed d b)"
proof -
  have acc: "poisoned b = None" "\<not> 2 * max_message_size b < length d"
    using assms by (auto simp: feed_def reject_feed_def check_poisoned_def split: option.splits if_splits)
  show ?thesis
  proof (cases "0 < skip_remaining b")
    case True
    let ?n = "min (length d) (skip_remaining b)"
    let ?b1 = "b\<lparr>skip_remaining := skip_remaining b - ?n\<rparr>"
    let ?fired = "if skip_remaining ?b1 = 0 \<and> poison_after_skip ?b1 \<noteq> None then
        [?b1\<lparr>poisoned := poison_after_skip ?b1\<rparr>, ?b1\<lparr>poisoned := poison_after_skip ?b1, poison_after_skip := None\<rparr>] else []"
    have "snd (feed d b) = (if drop ?n d = [] then last (?b1 # ?fired) else Buffer.extend (drop ?n d) (last (?b1 # ?fired)))"
      using assms True acc by (auto simp: feed_def reject_feed_def check_poisoned_def Let_def split: if_splits)
    moreover have "last (b # feed_stores d b)
        = (if drop ?n d = [] then last (?b1 # ?fired) else last (last (?b1 # ?fired) # extend_stores (drop ?n d) (last (?b1 # ?fired))))"
      using True by (simp add: feed_stores_def Let_def del: last.simps) (simp add: last_append_stores del: drop_eq_Nil)
    ultimately show ?thesis by (simp only: last_extend_stores)
  next
    case False
    then show ?thesis
      using assms acc last_extend_stores [of b d]
      by (auto simp: feed_def reject_feed_def check_poisoned_def feed_stores_def Let_def split: if_splits)
  qed
qed

lemma last_skip_stores:
  assumes "poisoned b = None" and "8 \<le> available b"
    and "\<not> (8 + header_words b * 8 \<le> max_message_size b \<and> available b < 8 + header_words b * 8)"
  shows "last (b # skip_stores (8 + header_words b * 8) b) = snd (skip_message b)"
proof (cases "8 + header_words b * 8 \<le> max_message_size b")
  case True
  then show ?thesis
    using assms last_read_stores [of b "8 + header_words b * 8"]
    by (simp add: skip_message_def skip_stores_def Let_def not_less)
next
  case False
  then have m: "min (8 + header_words b * 8) (max_message_size b) = max_message_size b" by simp
  show ?thesis
  proof (cases "max_message_size b \<le> available b")
    case True
    then show ?thesis
      using assms False m last_compact_stores [of "buffer_poison (DecodeError Desync)
          (b\<lparr>buf_pos := buf_pos b + max_message_size b, skip_remaining := 0\<rparr>)"]
      by (simp add: skip_message_def skip_stores_def Let_def)
  next
    case less: False
    then show ?thesis
      using assms False m last_compact_stores [of "b\<lparr>buf_pos := buf_pos b + available b,
          skip_remaining := max_message_size b - available b, poison_after_skip := Some (DecodeError Desync)\<rparr>"]
      by (simp add: skip_message_def skip_stores_def Let_def)
  qed
qed

subsection \<open>Interrupted calls\<close>

lemma on_interrupt_poisoned [simp]: "poisoned (on_interrupt b) \<noteq> None"
  by (simp add: on_interrupt_def)

lemma cut_short_poisoned [simp]: "poisoned (cut_short b stores k) \<noteq> None"
  by (simp add: cut_short_def)

lemma poisoned_after:
  assumes "poisoned b = Some e"
  shows "feed_after i d b = b" "read_after i b = b" "fst (feed d b) \<noteq> Inr ()" "fst (read_message b) \<noteq> Inr (Some f)"
  using poisoned_ops [OF assms] by (simp_all add: feed_after_def read_after_def split: interrupt.split)

lemma run_poisoned:
  assumes "poisoned b = Some e"
  shows "run_interrupted es b = ([], [], b)"
proof (induction es)
  case (Cons ev es)
  then show ?case
    using poisoned_after [OF assms] poisoned_ops(1,2) [OF assms]
    by (cases ev rule: prod.exhaust, rename_tac s i, case_tac s) auto
qed simp

lemma feed_rejected:
  assumes "buffer_ready b" and "fst (feed d b) \<noteq> Inr ()"
  shows "snd (feed d b) = b \<or> poisoned (snd (feed d b)) \<noteq> None"
proof -
  have r: "poisoned b = None" "skip_remaining b = 0" using assms(1) by (simp_all add: buffer_ready_def)
  have "\<not> length (pending b) + length d \<le> max_message_size b" using feed_accept [OF r] assms(2) by auto
  then show ?thesis using feed_reject [OF r, of d] by (simp add: reject_feed_def buffer_poison_def r)
qed

lemma read_message_kept:
  assumes "\<nexists>f. fst (read_message b) = Inr (Some f)"
  shows "snd (read_message b) = b"
  using assms by (auto simp: read_message_def check_poisoned_def Let_def split: if_splits option.splits)

lemma run_framed:
  assumes "run_interrupted es b = (fs, acc, b')" and "buffer_ready b"
  shows "\<exists>gs rest. pending b @ acc = concat gs @ rest \<and> list_all is_frame gs \<and> subseq fs gs
    \<and> (poisoned b' = None \<longrightarrow> rest = pending b')"
  using assms
proof (induction es arbitrary: b fs acc)
  case Nil
  then have "pending b @ acc = concat [] @ pending b \<and> list_all is_frame [] \<and> subseq fs []
    \<and> (poisoned b' = None \<longrightarrow> pending b = pending b')" by simp
  then show ?case by (intro exI)
next
  case (Cons ev es)
  obtain s i where ev: "ev = (s, i)" by (cases ev)
  have dead: ?case if "poisoned c \<noteq> None" "run_interrupted es c = (fs, acc, b')" for c
  proof -
    have "pending b @ acc = concat [] @ (pending b @ acc) \<and> list_all is_frame [] \<and> subseq fs []
      \<and> (poisoned b' = None \<longrightarrow> pending b @ acc = pending b')"
      using that run_poisoned [of c] by auto
    then show ?thesis by (intro exI)
  qed
  show ?case
  proof (cases s)
    case (Feed d)
    let ?ok = "(i = Undisturbed \<or> i = After) \<and> fst (feed d b) = Inr ()"
    obtain acc' where r: "run_interrupted es (feed_after i d b) = (fs, acc', b')" "acc = (if ?ok then d else []) @ acc'"
      using Cons.prems(1) ev Feed by (auto simp: Let_def split: prod.splits)
    consider (accepted) ?ok | (same) "feed_after i d b = b" "\<not> ?ok" | (poisoned) "poisoned (feed_after i d b) \<noteq> None" "\<not> ?ok"
      using feed_rejected [OF Cons.prems(2), of d]
      by (cases i; cases "fst (feed d b) = Inr ()") (auto simp: feed_after_def)
    then show ?thesis
    proof cases
      case accepted
      then have f: "feed d b = (Inr (), feed_after i d b)" by (cases "feed d b") (auto simp: feed_after_def)
      from buf.feed_law [OF Cons.prems(2) f] show ?thesis using Cons.IH [OF r(1)] r(2) accepted by simp
    next
      case same
      moreover have "acc = acc'" using r(2) same(2) by auto
      ultimately show ?thesis using Cons.IH [of b fs acc'] r(1) Cons.prems(2) by simp
    next
      case poisoned
      moreover have "acc = acc'" using r(2) poisoned(2) by auto
      ultimately show ?thesis using dead [OF poisoned(1)] r(1) by simp
    qed
  next
    case Read
    let ?got = "case fst (read_message b) of Inr (Some f) \<Rightarrow> if i = Undisturbed then [f] else [] | _ \<Rightarrow> []"
    obtain fs' where r: "run_interrupted es (read_after i b) = (fs', acc, b')" "fs = ?got @ fs'"
      using Cons.prems(1) ev Read by (auto simp: Let_def split: prod.splits)
    consider (taken) f where "fst (read_message b) = Inr (Some f)" "i = Undisturbed \<or> i = After"
      | (same) "read_after i b = b" "?got = []" | (poisoned) "poisoned (read_after i b) \<noteq> None" "?got = []"
    proof (cases "\<exists>f. fst (read_message b) = Inr (Some f)")
      case True
      then obtain f where "fst (read_message b) = Inr (Some f)" by blast
      then show ?thesis using that by (cases i) (auto simp: read_after_def)
    next
      case False
      then have "snd (read_message b) = b" using read_message_kept by blast
      with False show ?thesis using that(2) by (cases i) (auto simp: read_after_def split: sum.splits option.splits)
    qed
    then show ?thesis
    proof cases
      case (taken f)
      then have "read_message b = (Inr (Some f), read_after i b)" by (cases "read_message b") (auto simp: read_after_def)
      from buf.read_some [OF Cons.prems(2) this]
      have b: "buffer_ready (read_after i b)" "pending b = f @ pending (read_after i b)" "is_frame f" by simp_all
      obtain gs rest where g: "pending (read_after i b) @ acc = concat gs @ rest" "list_all is_frame gs" "subseq fs' gs"
          "poisoned b' = None \<longrightarrow> rest = pending b'"
        using Cons.IH [OF r(1) b(1)] by (elim exE conjE)
      have "pending b @ acc = concat (f # gs) @ rest \<and> list_all is_frame (f # gs) \<and> subseq fs (f # gs)
        \<and> (poisoned b' = None \<longrightarrow> rest = pending b')"
        using b g r(2) taken by (auto intro: list_emb_Cons)
      then show ?thesis by (intro exI)
    next
      case same
      then show ?thesis using Cons.IH [of b fs' acc] r Cons.prems(2) by simp
    next
      case poisoned
      then show ?thesis using dead [OF poisoned(1)] r by simp
    qed
  qed
qed

lemma interrupted_alive:
  "poisoned b = None \<Longrightarrow> (\<And>c. c \<in> set stores \<Longrightarrow> poisoned c = None) \<Longrightarrow>
     poisoned (cut_short b stores k) = Some RuntimeError"
proof -
  assume a: "poisoned b = None" "\<And>c. c \<in> set stores \<Longrightarrow> poisoned c = None"
  have "(b # stores) ! min k (length stores) \<in> set (b # stores)" by (rule nth_mem) simp
  then have "poisoned ((b # stores) ! min k (length stores)) = None" using a by auto
  then show ?thesis by (simp add: cut_short_def on_interrupt_def)
qed

lemma read_stores_alive: "c \<in> set (read_stores n b) \<Longrightarrow> poisoned c = poisoned b"
  by (auto simp: read_stores_def compact_stores_def Let_def split: if_splits)

lemma compact_stores_poison: "c \<in> set (compact_stores b) \<Longrightarrow> poisoned c = poisoned b"
  by (auto simp: compact_stores_def Let_def split: if_splits)

lemma skip_stores_poison:
  assumes "poisoned b = None"
  shows "poisoned (cut_short b (skip_stores t b) k) =
    Some (if max_message_size b < t \<and> max_message_size b \<le> available b \<and> 3 \<le> k
          then DecodeError Desync else RuntimeError)"
proof -
  let ?s = "skip_stores t b"
  let ?c = "(b # ?s) ! min k (length ?s)"
  have "poisoned ?c = (if max_message_size b < t \<and> max_message_size b \<le> available b \<and> 3 \<le> k
      then Some (DecodeError Desync) else None)"
  proof (cases "max_message_size b < t")
    case False
    have "?c \<in> set (b # ?s)" by (rule nth_mem) simp
    then show ?thesis using False assms read_stores_alive [of ?c t b] by (auto simp: skip_stores_def)
  next
    case True
    then have m: "min t (max_message_size b) = max_message_size b" by simp
    define b1 where "b1 = b\<lparr>buf_pos := buf_pos b + min (max_message_size b) (available b)\<rparr>"
    define b2 where "b2 = b1\<lparr>skip_remaining := max_message_size b - min (max_message_size b) (available b)\<rparr>"
    define b3 where "b3 = (if skip_remaining b2 = 0 then buffer_poison (DecodeError Desync) b2
      else b2\<lparr>poison_after_skip := Some (DecodeError Desync)\<rparr>)"
    have s: "?s = b1 # b2 # b3 # compact_stores b3"
      using True by (simp add: skip_stores_def Let_def m b1_def b2_def b3_def)
    have b: "poisoned b1 = None" "poisoned b2 = None"
      "poisoned b3 = (if max_message_size b \<le> available b then Some (DecodeError Desync) else None)"
      using assms by (simp_all add: b1_def b2_def b3_def buffer_poison_def)
    have "k < 3 \<Longrightarrow> k = 0 \<or> k = 1 \<or> k = 2" by linarith
    then consider "k = 0" | "k = 1" | "k = 2" | j where "k = Suc (Suc (Suc j))"
      by (metis add.commute le_Suc_ex not_less numeral_3_eq_3 plus_nat.simps)
    then show ?thesis
    proof cases
      case (4 j)
      have "?c = (b3 # compact_stores b3) ! min j (length (compact_stores b3))"
        by (simp add: s 4)
      moreover have "\<dots> \<in> set (b3 # compact_stores b3)" by (rule nth_mem) simp
      ultimately have "poisoned ?c = poisoned b3" using compact_stores_poison [of ?c b3] by auto
      then show ?thesis using 4 b True by simp
    qed (use b assms s in simp_all)
  qed
  then show ?thesis by (simp add: cut_short_def on_interrupt_def)
qed

text \<open>A handshake that succeeds consumes its eight bytes.\<close>

lemma handshake_consumes:
  assumes "decode_handshake d = (Inr (Some v), d')"
  obtains g where "read_bytes 8 (dec_buffer d) = (Inr (Some g), advance 8 (dec_buffer d))" "length g = 8"
    "poisoned (dec_buffer d) = None"
    "d' = d\<lparr>dec_version := Some v, handshake_done := True, dec_buffer := advance 8 (dec_buffer d)\<rparr>"
  using assms
  by (auto simp: decode_handshake_def peek_bytes_def read_bytes_def on_buffer_def available_def check_poisoned_def Let_def
      bindE_eq_Inr split: if_splits option.splits sum.splits)

lemma read_stores_reset: "c \<in> set (read_stores n b) \<Longrightarrow> buffer_reset c = buffer_reset b"
  by (auto simp: read_stores_def compact_stores_def buffer_reset_def Let_def split: if_splits)

lemma cut_short_reset:
  assumes "\<And>c. c \<in> set stores \<Longrightarrow> buffer_reset c = buffer_reset b"
  shows "buffer_reset (cut_short b stores k) = buffer_reset b"
proof -
  have "(b # stores) ! min k (length stores) \<in> set (b # stores)" by (rule nth_mem) simp
  then have "buffer_reset ((b # stores) ! min k (length stores)) = buffer_reset b" using assms by auto
  then show ?thesis by (simp add: cut_short_def on_interrupt_def buffer_reset_def)
qed

lemma decode_interrupted_shape:
  "\<exists>v n k c ns. decode_interrupted r j d = d\<lparr>dec_buffer := on_interrupt (dec_buffer d), continuation_expected := v,
     continuation_frame_count := n, continuation_total_rows := k, continuation_column_count := c,
     continuation_column_names := ns\<rparr>"
proof -
  have "(d # continuation_stores r d) ! min j 5 \<in> set (d # continuation_stores r d)"
    by (rule nth_mem) (simp add: continuation_stores_def Let_def)
  then have "\<exists>v n k c ns. (d # continuation_stores r d) ! min j 5 = d\<lparr>continuation_expected := v,
     continuation_frame_count := n, continuation_total_rows := k, continuation_column_count := c,
     continuation_column_names := ns\<rparr>"
    by (cases d) (auto simp: continuation_stores_def Let_def)
  then obtain v n k c ns where e: "(d # continuation_stores r d) ! min j 5 = d\<lparr>continuation_expected := v,
     continuation_frame_count := n, continuation_total_rows := k, continuation_column_count := c,
     continuation_column_names := ns\<rparr>" by blast
  have "decode_interrupted r j d = d\<lparr>dec_buffer := on_interrupt (dec_buffer d), continuation_expected := v,
     continuation_frame_count := n, continuation_total_rows := k, continuation_column_count := c,
     continuation_column_names := ns\<rparr>"
    unfolding decode_interrupted_def e by (cases d) (simp add: poison_decoder_def on_interrupt_def buffer_poison_def split: option.split)
  then show ?thesis by blast
qed

lemma last_finalize_stores: "last (d # finalize_stores d) = finalize_continuation_state d"
  by (simp add: finalize_stores_def finalize_continuation_state_def Let_def)

lemma finalize_stores_finalized: "x \<in> set (finalize_stores d) \<Longrightarrow> finalize_continuation_state x = finalize_continuation_state d"
  by (cases d) (auto simp: finalize_stores_def finalize_continuation_state_def Let_def split: if_splits)

lemma continue_stores_finalized: "x \<in> set (continue_stores r d) \<Longrightarrow> finalize_continuation_state x = finalize_continuation_state d"
proof -
  let ?d1 = "d\<lparr>continuation_frame_count := continuation_frame_count d + 1\<rparr>"
  let ?d2 = "?d1\<lparr>continuation_total_rows := continuation_total_rows ?d1 + length (rows r)\<rparr>"
  have f: "finalize_continuation_state ?d1 = finalize_continuation_state d" "finalize_continuation_state ?d2 = finalize_continuation_state d"
    by (cases d; simp add: finalize_continuation_state_def Let_def)+
  assume "x \<in> set (continue_stores r d)"
  then have "x = ?d1 \<or> x = ?d2 \<or> x \<in> set (finalize_stores ?d2)" by (auto simp: continue_stores_def Let_def split: if_splits)
  then show ?thesis using f finalize_stores_finalized [of x ?d2] by metis
qed

lemma continue_rows_stores: "continue_rows r d = (Inr q, d') \<Longrightarrow> last (d # continue_stores r d) = d'"
  using last_finalize_stores
  by (auto simp: continue_rows_def continue_stores_def Let_def split: if_splits simp del: last.simps) simp_all

section \<open>Properties\<close>

text \<open>
  C26 (section_stores): the guarded sections of \<^verbatim>\<open>feed\<close>, \<^verbatim>\<open>read_message\<close>, \<^verbatim>\<open>read_bytes\<close>, \<^verbatim>\<open>skip_message\<close>
  and \<^verbatim>\<open>decode\<close>, run store by store to the end, give exactly the objects the atomic methods return.
  For \<^verbatim>\<open>skip_message\<close> this covers every call on a live buffer: one that returns early changes nothing,
  and a message above the cap is skipped by the stores of its own arm; hit at any of these, the
  buffer ends up poisoned, by the desynchronisation error if that store came first.  The order of
  stores is such that an intermediate one can be unusable: between the two stores of a compaction
  the unread bytes are gone, which is what the handlers are for.
\<close>

theorem section_stores:
  "(fst (feed d b) = Inr () \<longrightarrow> last (b # feed_stores d b) = snd (feed d b))
   \<and> (fst (read_message b) = Inr (Some f) \<longrightarrow> last (b # read_stores (length f) b) = snd (read_message b))
   \<and> (fst (read_bytes n b) = Inr (Some g) \<longrightarrow> last (b # read_stores (length g) b) = snd (read_bytes n b))
   \<and> (poisoned b = None \<longrightarrow>
        snd (skip_message b) =
          (if available b < 8 then b
           else if 8 + header_words b * 8 \<le> max_message_size b \<and> available b < 8 + header_words b * 8 then b
           else last (b # skip_stores (8 + header_words b * 8) b)))
   \<and> (poisoned b = None \<longrightarrow>
        poisoned (cut_short b (skip_stores t b) k) =
          Some (if max_message_size b < t \<and> max_message_size b \<le> available b \<and> 3 \<le> k
                then DecodeError Desync else RuntimeError))
   \<and> (has_more r \<and> within (max_total_rows c) (length (rows r)) \<longrightarrow>
        start_continuation c (Response (RowsResponse r)) = Inr (last (c # continuation_stores r c)))
   \<and> (\<exists>x y. buffer_inv x \<and> y \<in> set (compact_stores x) \<and> pending x \<noteq> [] \<and> pending y = [])"
proof -
  have read: "last (b # read_stores (length f) b) = snd (read_message b)" if m: "fst (read_message b) = Inr (Some f)"
  proof -
    have "poisoned b = None" using m by (cases "poisoned b") (simp_all add: poisoned_ops)
    then show ?thesis
      using m read_message_frame [of b f "snd (read_message b)"] last_read_stores [of b "length f"] by (metis prod.collapse)
  qed
  have bytes: "last (b # read_stores (length g) b) = snd (read_bytes n b)" if m: "fst (read_bytes n b) = Inr (Some g)"
  proof -
    have "length g = nat n \<and> snd (read_bytes n b) = advance (nat n) b"
      using m by (auto simp: read_bytes_def available_def split: if_splits sum.splits)
    then show ?thesis using last_read_stores by simp
  qed
  have skip: "snd (skip_message b) =
      (if available b < 8 then b
       else if 8 + header_words b * 8 \<le> max_message_size b \<and> available b < 8 + header_words b * 8 then b
       else last (b # skip_stores (8 + header_words b * 8) b))"
    if p: "poisoned b = None"
    using last_skip_stores [OF p] p by (auto simp: skip_message_def Let_def simp del: last.simps)
  define z where "z = \<lparr>buf_data = replicate 4097 (0 :: byte) @ replicate 4097 1, buf_pos = 4097, max_message_size = 5000,
    skip_remaining = 0, poisoned = None, poison_after_skip = None\<rparr>"
  have "buffer_inv z" "pending z \<noteq> []" by (simp_all add: z_def buffer_inv_def pending_def available_def COMPACT_THRESHOLD_def)
  moreover have "z\<lparr>buf_data := drop (buf_pos z) (buf_data z)\<rparr> \<in> set (compact_stores z)"
    by (simp add: z_def compact_stores_def Let_def COMPACT_THRESHOLD_def)
  moreover have "pending (z\<lparr>buf_data := drop (buf_pos z) (buf_data z)\<rparr>) = []" by (simp add: z_def pending_def)
  ultimately have "\<exists>x y. buffer_inv x \<and> y \<in> set (compact_stores x) \<and> pending x \<noteq> [] \<and> pending y = []" by blast
  then show ?thesis
    using last_feed_stores [of d b] read bytes skip skip_stores_poison [of b t k]
    by (simp add: start_continuation_def continuation_stores_def within_def Let_def del: last.simps) simp
qed

theorem section_stores_witness:
  "last (sample_buffer [9, 9] # feed_stores [1, 2] (sample_buffer [9, 9])) = sample_buffer [9, 9, 1, 2]
   \<and> snd (skip_message (sample_buffer [16, 0, 0, 0, 0, 0, 0, 0]))
      = last (sample_buffer [16, 0, 0, 0, 0, 0, 0, 0] # skip_stores 136 (sample_buffer [16, 0, 0, 0, 0, 0, 0, 0]))"
proof
  have f: "feed [1, 2] (sample_buffer [9, 9]) = (Inr (), sample_buffer [9, 9, 1, 2])" by code_simp
  show "last (sample_buffer [9, 9] # feed_stores [1, 2] (sample_buffer [9, 9])) = sample_buffer [9, 9, 1, 2]"
    using section_stores [of "[1, 2]" "sample_buffer [9, 9]", THEN conjunct1] f by (simp del: last.simps)
  let ?b = "sample_buffer [16, 0, 0, 0, 0, 0, 0, 0]"
  have "available ?b = 8" "header_words ?b = 16" by code_simp+
  then show "snd (skip_message ?b) = last (?b # skip_stores 136 ?b)"
    using section_stores [of "[]" ?b, THEN conjunct2, THEN conjunct2, THEN conjunct2, THEN conjunct1] by (simp del: last.simps)
qed

text \<open>
  C22 (interrupted_stream): whatever calls of \<^verbatim>\<open>feed\<close> and \<^verbatim>\<open>read_message\<close> are hit by an asynchronous
  exception, and wherever, an owner that goes on is never handed bytes across a gap: the frames it
  gets are well formed, in order, and cut from the bytes accepted at true frame boundaries.  As
  long as the buffer is not poisoned, the rest of those bytes is exactly what it still holds.
\<close>

theorem interrupted_stream:
  assumes "buffer_init n = Inr b" and "run_interrupted es b = (fs, acc, b')"
  shows "\<exists>gs rest. acc = concat gs @ rest \<and> list_all is_frame gs \<and> subseq fs gs
    \<and> (poisoned b' = None \<longrightarrow> rest = pending b')"
proof -
  have "buffer_ready b" "pending b = []" using init_ready [OF assms(1)] by simp_all
  with run_framed [OF assms(2)] show ?thesis by simp
qed

theorem interrupted_stream_witness:
  "\<exists>gs rest. ([0, 0, 0, 0, 9, 0, 0, 0, 0, 0, 0, 0, 4, 0, 0, 0] :: bytes) = concat gs @ rest \<and> list_all is_frame gs
     \<and> subseq [[0, 0, 0, 0, 4, 0, 0, 0]] gs"
proof -
  let ?b = "sample_buffer []"
  have "buffer_init 128 = Inr ?b" by code_simp
  moreover obtain b' where "run_interrupted [(Feed [1, 2], Before),
      (Feed [0, 0, 0, 0, 9, 0, 0, 0, 0, 0, 0, 0, 4, 0, 0, 0], After), (Read, After), (Read, Undisturbed)] ?b
    = ([[0, 0, 0, 0, 4, 0, 0, 0]], [0, 0, 0, 0, 9, 0, 0, 0, 0, 0, 0, 0, 4, 0, 0, 0], b')"
    by (rule that) code_simp
  ultimately show ?thesis using interrupted_stream by blast
qed

text \<open>
  A frame can still be lost without poison: an exception after \<^verbatim>\<open>read_message\<close> has returned and before
  \<^verbatim>\<open>decode\<close> enters its \<^verbatim>\<open>try\<close> leaves a usable buffer from which the frame is gone.
\<close>

lemma frame_lost:
  assumes "buffer_ready b" and "read_message b = (Inr (Some f), b')"
  shows "run_interrupted [(Read, After)] b = ([], [], b')" "pending b = f @ pending b'" "poisoned b' = None"
  using assms buf.read_some [OF assms] by (simp_all add: read_after_def buffer_ready_def)

text \<open>
  The stores of a rejected \<^verbatim>\<open>feed\<close> have no such guard: after the second one the buffer is alive and
  ready, although the bytes that follow are the middle of the oversized message.
\<close>

lemma reject_unguarded:
  assumes "buffer_inv b" and "poisoned b = None" and "0 < skip_remaining b"
  shows "buffer_ready (reject_stores e b ! 1)" "pending (reject_stores e b ! 1) = []"
    "last (b # reject_stores e b) = snd (reject_feed e b)"
  using assms by (auto simp: reject_stores_def reject_feed_def Let_def buffer_ready_def buffer_inv_def available_def pending_def)

text \<open>
  C23 (decode_interrupt): an exception that hits \<^verbatim>\<open>decode\<close> while it decodes a frame or between any two
  of its stores leaves a dead decoder, whose calls raise with the interruption as their cause;
  nothing of the half-written result set outlives a reset.
\<close>

theorem decode_interrupt:
  assumes "poisoned (dec_buffer d) = None"
  shows "phase_of (decode_interrupted r k d) = Dead RuntimeError
    \<and> fst (decode (decode_interrupted r k d)) = Inl (PoisonedError RuntimeError)
    \<and> fst (decode_continuation (decode_interrupted r k d)) = Inl (PoisonedError RuntimeError)
    \<and> decoder_reset (decode_interrupted r k d) = decoder_reset d"
proof -
  obtain v n t c ns where e: "decode_interrupted r k d = d\<lparr>dec_buffer := on_interrupt (dec_buffer d),
      continuation_expected := v, continuation_frame_count := n, continuation_total_rows := t,
      continuation_column_count := c, continuation_column_names := ns\<rparr>"
    using decode_interrupted_shape by metis
  have p: "poisoned (dec_buffer (decode_interrupted r k d)) = Some RuntimeError"
    using assms by (simp add: e on_interrupt_def)
  have "decoder_reset (decode_interrupted r k d) = decoder_reset d"
    using assms unfolding e by (cases d) (simp add: Let_def decoder_reset_def finalize_continuation_state_def buffer_reset_def on_interrupt_def)
  then show ?thesis using p by (simp add: decode_def decode_continuation_def check_poisoned_def)
qed

theorem decode_interrupt_witness:
  "phase_of (decode_interrupted \<lparr>column_names = [[97]], column_types = [INTEGER], row_types = [[INTEGER]],
     rows = [[PInt 7]], has_more = True\<rparr> 2 (sample_decoder False [])) = Dead RuntimeError"
  using decode_interrupt [of "sample_decoder False []"] by simp

text \<open>
  C24 (continuation_interrupt): an exception that hits \<^verbatim>\<open>decode_continuation\<close> inside its \<^verbatim>\<open>try\<close>
  leaves one and the same decoder whichever store it hits, of a frame of rows that is being
  counted or of the state that is being cleared: the result set is over and the decoder dead until
  a reset.  The stores run to the end are what the atomic method does.  Before the \<^verbatim>\<open>try\<close>, after \<^verbatim>\<open>read_message\<close> has
  returned the frame, there is a gap: there the frame is gone, but the decoder is alive and
  expects the next one, as if it had never been sent.
\<close>

theorem continuation_interrupt:
  assumes "poisoned (dec_buffer d) = None"
  shows "(stores = finalize_stores d \<or> stores = continue_stores r d \<longrightarrow>
      continuation_interrupted stores k d = poison_decoder RuntimeError (finalize_continuation_state d)
      \<and> phase_of (continuation_interrupted stores k d) = Dead RuntimeError
      \<and> decoder_reset (continuation_interrupted stores k d) = decoder_reset d)
    \<and> last (d # finalize_stores d) = finalize_continuation_state d
    \<and> (continue_rows r d = (Inr q, d') \<longrightarrow> last (d # continue_stores r d) = d')
    \<and> (on_buffer read_message d = (Inr (Some f), g) \<longrightarrow>
        unread d = f @ unread g \<and> phase_of g = phase_of d \<and> continuation_frame_count g = continuation_frame_count d)"
proof (intro conjI)
  have one: "continuation_interrupted stores k d = poison_decoder RuntimeError (finalize_continuation_state d)"
    if "stores = finalize_stores d \<or> stores = continue_stores r d"
  proof -
    have "(d # stores) ! min k (length stores) \<in> set (d # stores)" by (rule nth_mem) simp
    then have "finalize_continuation_state ((d # stores) ! min k (length stores)) = finalize_continuation_state d"
      using that finalize_stores_finalized continue_stores_finalized by auto
    then show ?thesis by (simp add: continuation_interrupted_def continuation_except_def)
  qed
  show "stores = finalize_stores d \<or> stores = continue_stores r d \<longrightarrow>
      continuation_interrupted stores k d = poison_decoder RuntimeError (finalize_continuation_state d)
      \<and> phase_of (continuation_interrupted stores k d) = Dead RuntimeError
      \<and> decoder_reset (continuation_interrupted stores k d) = decoder_reset d"
  proof -
    have "poisoned (dec_buffer (finalize_continuation_state d)) = None"
      using assms by (simp add: finalize_continuation_state_def Let_def)
    from phase_poison [OF this] show ?thesis using one by auto
  qed
  show "on_buffer read_message d = (Inr (Some f), g) \<longrightarrow>
      unread d = f @ unread g \<and> phase_of g = phase_of d \<and> continuation_frame_count g = continuation_frame_count d"
  proof
    assume "on_buffer read_message d = (Inr (Some f), g)"
    then obtain b where b: "read_message (dec_buffer d) = (Inr (Some f), b)" "g = d\<lparr>dec_buffer := b\<rparr>"
      by (auto simp: on_buffer_def split: prod.splits)
    note r = read_message_frame [OF assms b(1)]
    have "unread d = f @ pending b" using r by (metis append_take_drop_id pending_advance)
    moreover have "phase_of g = phase_of d" using phase_buffer [of b d] r b(2) by simp
    ultimately show "unread d = f @ unread g \<and> phase_of g = phase_of d \<and> continuation_frame_count g = continuation_frame_count d"
      using b(2) by simp
  qed
qed (use last_finalize_stores continue_rows_stores in blast)+

theorem continuation_interrupt_witness:
  "phase_of (continuation_interrupted (continue_stores \<lparr>column_names = [[97]], column_types = [INTEGER], row_types = [[INTEGER]],
     rows = [[PInt 7]], has_more = False\<rparr> (sample_decoder False [])) 2 (sample_decoder False [])) = Dead RuntimeError"
  by (rule continuation_interrupt [THEN conjunct1, THEN mp, THEN conjunct2, THEN conjunct1]) (simp, rule disjI2, rule refl)

text \<open>
  C25 (handshake_interrupt): an exception that hits the consuming step of a \<^verbatim>\<open>decode_handshake\<close> that
  would have succeeded always takes back the version and the flag, and a reset gives what it would
  have given before.  What becomes of the eight bytes depends on where \<^verbatim>\<open>read_bytes\<close> was hit.  Before
  its guarded section nothing has happened, and a retry returns the version with the same decoder
  as a call that was never disturbed.  Inside the section the buffer is poisoned, with the bytes
  still unread before its first store and consumed after it, and a retry raises.  After the
  section the bytes are gone and the buffer is alive: a retry reads on behind them.  An exception
  between the two commits does no harm; one between the commits and the \<^verbatim>\<open>try\<close> leaves a
  handshake that counts as done with its bytes still unread.
\<close>

theorem handshake_interrupt:
  assumes "\<not> handshake_done d" and "dec_version d = None" and "decode_handshake d = (Inr (Some v), d')"
  shows "(i \<noteq> Undisturbed \<longrightarrow>
        \<not> handshake_done (handshake_interrupted i v d) \<and> dec_version (handshake_interrupted i v d) = None
        \<and> decoder_reset (handshake_interrupted i v d) = decoder_reset d)
    \<and> decode_handshake (handshake_interrupted Before v d) = (Inr (Some v), d')
    \<and> fst (decode_handshake (handshake_interrupted (AtStore k) v d)) = Inl (PoisonedError RuntimeError)
    \<and> unread (handshake_interrupted (AtStore 0) v d) = unread d
    \<and> unread (handshake_interrupted (AtStore 1) v d) = drop 8 (unread d)
    \<and> poisoned (dec_buffer (handshake_interrupted After v d)) = None
    \<and> unread (handshake_interrupted After v d) = drop 8 (unread d)
    \<and> handshake_interrupted Undisturbed v d = d' \<and> unread d' = drop 8 (unread d) \<and> dec_version d' = Some v
    \<and> decode_handshake (commit_stores v d ! 0) = (Inr (Some v), d')
    \<and> fst (decode_handshake (commit_stores v d ! 1)) = Inl (HandshakeError NotReady)
    \<and> unread (commit_stores v d ! 1) = unread d"
proof -
  let ?b = "dec_buffer d"
  obtain g where g: "read_bytes 8 ?b = (Inr (Some g), advance 8 ?b)" "length g = 8" "poisoned ?b = None"
    and d': "d' = d\<lparr>dec_version := Some v, handshake_done := True, dec_buffer := advance 8 ?b\<rparr>"
    using assms(3) by (rule handshake_consumes)
  have h: "handshake_interrupted Before v d = d"
    "handshake_interrupted (AtStore k) v d
      = d\<lparr>dec_buffer := cut_short ?b (read_stores 8 ?b) k, handshake_done := False, dec_version := None\<rparr>"
    "handshake_interrupted After v d = d\<lparr>dec_buffer := advance 8 ?b, handshake_done := False, dec_version := None\<rparr>" for k
    using assms(1,2) g(1,2) by (cases d; simp add: handshake_interrupted_def commit_stores_def bytes_after_def Let_def)+
  have p: "poisoned (cut_short ?b (read_stores 8 ?b) k) = Some RuntimeError"
    using interrupted_alive [OF g(3)] read_stores_alive [of _ 8 ?b] g(3) by simp
  have r: "decoder_reset (d\<lparr>dec_buffer := c, handshake_done := False, dec_version := None\<rparr>) = decoder_reset d"
    if "buffer_reset c = buffer_reset ?b" for c
    using that assms(1,2) by (cases d) (simp add: decoder_reset_def finalize_continuation_state_def)
  have r': "buffer_reset (cut_short ?b (read_stores 8 ?b) k) = buffer_reset ?b" for k
    by (rule cut_short_reset) (rule read_stores_reset)
  have a: "buffer_reset (advance 8 ?b) = buffer_reset ?b" "pending (advance 8 ?b) = drop 8 (pending ?b)"
    "poisoned (advance 8 ?b) = None"
    using g by (auto simp: advance_def maybe_compact_def buffer_reset_def Let_def pending_def add.commute)
  have "\<not> handshake_done (handshake_interrupted i v d)" "dec_version (handshake_interrupted i v d) = None"
    "decoder_reset (handshake_interrupted i v d) = decoder_reset d" if "i \<noteq> Undisturbed"
    using that assms(1,2) r [OF r'] r [OF a(1)] by (cases i; simp add: h)+
  moreover have "fst (decode_handshake (handshake_interrupted (AtStore k) v d)) = Inl (PoisonedError RuntimeError)"
    using poisoned_ops(6) [OF p, of 8] by (simp add: decode_handshake_def h(2))
  moreover have "unread (handshake_interrupted (AtStore 0) v d) = unread d"
    "unread (handshake_interrupted (AtStore 1) v d) = drop 8 (unread d)"
    by (simp_all add: h cut_short_def on_interrupt_def pending_def read_stores_def Let_def min_def add.commute)
  moreover have "handshake_interrupted Undisturbed v d = d'"
    using g(1) d' by (simp add: handshake_interrupted_def commit_stores_def bytes_after_def Let_def)
  moreover have "decode_handshake (commit_stores v d ! 0) = (Inr (Some v), d')"
    using assms by (cases d) (auto simp: commit_stores_def decode_handshake_def on_buffer_def Let_def
        split: if_splits option.splits sum.splits prod.splits)
  moreover have "fst (decode_handshake (commit_stores v d ! 1)) = Inl (HandshakeError NotReady)"
    "unread (commit_stores v d ! 1) = unread d"
    by (simp_all add: commit_stores_def decode_handshake_def Let_def)
  ultimately show ?thesis using a assms(3) h(1,3) d' by simp
qed

theorem handshake_interrupt_witness:
  "(let d = sample_decoder True [1, 0, 0, 0, 0, 0, 0, 0] in
    fst (decode_handshake (handshake_interrupted Before 1 d)) = Inr (Some 1)
    \<and> fst (decode_handshake (handshake_interrupted (AtStore 1) 1 d)) = Inl (PoisonedError RuntimeError)
    \<and> unread (handshake_interrupted After 1 d) = [])"
proof -
  let ?d = "sample_decoder True [1, 0, 0, 0, 0, 0, 0, 0]"
  obtain d' where "decode_handshake ?d = (Inr (Some 1), d')" by (rule that) code_simp
  from handshake_interrupt [of ?d, OF _ _ this, of After 1] show ?thesis by (simp add: Let_def pending_def)
qed

end
