(* ===== verification/Conformance.thy ===== *)
theory Conformance
  imports Sessions
begin

text \<open>
  Typing of decoded objects.  \<open>conforms\<close> says what a Python value read as a wire type is: its
  class, its range, and for text read under the strict handler that it can be written again.
  The interface \<open>typed_decoder\<close> lifts conformance of one field to a sequence of fields; the
  theorems carry it to parameters, rows, and every message a decoder returns.
\<close>

section \<open>Definitions\<close>

text \<open>A string of scalar values other than NUL, within a cap on its UTF-8 bytes.\<close>

definition wire_text :: "nat \<Rightarrow> pystr \<Rightarrow> bool" where
  "wire_text m s = (case utf8_encode s of Inl _ \<Rightarrow> False | Inr u \<Rightarrow> length u \<le> m \<and> 0 \<notin> set u)"

fun conforms :: "text_errors \<Rightarrow> value_type \<Rightarrow> pyval \<Rightarrow> bool" where
  "conforms errors INTEGER (PInt i) = (- (2 ^ 63) \<le> i \<and> i < 2 ^ 63)"
| "conforms errors UNIXTIME (PInt i) = (- (2 ^ 63) \<le> i \<and> i < 2 ^ 63)"
| "conforms errors FLOAT (PFloat w) = True"
| "conforms errors TEXT (PStr s) = (errors = Strict \<longrightarrow> wire_text MAX_TEXT_VALUE_SIZE s)"
| "conforms errors ISO8601 (PStr s) = (errors = Strict \<longrightarrow> wire_text MAX_TEXT_VALUE_SIZE s)"
| "conforms errors BLOB (PBytes b) = (length b \<le> MAX_BLOB_SIZE)"
| "conforms errors NULL PNone = True"
| "conforms errors BOOLEAN (PBool b) = True"
| "conforms errors t v = False"

text \<open>The parameters of a request conform to types a client may send.\<close>

definition params_typed :: "pyval list \<Rightarrow> bool" where
  "params_typed ps = list_all (\<lambda>v. \<exists>t \<in> {INTEGER, FLOAT, TEXT, BLOB, NULL, ISO8601, BOOLEAN}. conforms Strict t v) ps"

fun request_typed :: "request \<Rightarrow> bool" where
  "request_typed (ExecRequest r) = params_typed (params r)"
| "request_typed (QueryRequest r) = params_typed (params r)"
| "request_typed (ExecSqlRequest r) = params_typed (params r)"
| "request_typed (QuerySqlRequest r) = params_typed (params r)"
| "request_typed r = True"

text \<open>Every cell of a result set conforms to the type its row header gives.\<close>

definition rows_typed :: "text_errors \<Rightarrow> rows_response \<Rightarrow> bool" where
  "rows_typed errors r =
     (list_all (wire_text MAX_COLUMN_NAME_SIZE) (column_names r)
      \<and> list_all2 (list_all2 (conforms errors)) (row_types r) (rows r)
      \<and> list_all (\<lambda>ts. length ts = length (column_names r)) (row_types r)
      \<and> column_types r = first_or_empty (row_types r))"

fun response_typed :: "text_errors \<Rightarrow> response \<Rightarrow> bool" where
  "response_typed errors (RowsResponse r) = rows_typed errors r"
| "response_typed errors r = True"

text \<open>A message as its constructor admits it, with well-typed contents.\<close>

fun message_typed :: "text_errors \<Rightarrow> message \<Rightarrow> bool" where
  "message_typed errors (Request r) = (request_post_init r = Inr r \<and> strict_request r \<and> request_typed r)"
| "message_typed errors (Response r) = (response_valid r \<and> response_typed errors r)"

text \<open>What a decoder may hand out: a message of its direction, well typed, that a reader would see as it is.\<close>

definition deliverable :: "message_decoder \<Rightarrow> message \<Rightarrow> bool" where
  "deliverable d m =
     (message_typed (dec_text_errors d) m \<and> message_image m = m
      \<and> (case m of Request _ \<Rightarrow> is_request d | Response _ \<Rightarrow> \<not> is_request d))"

section \<open>Lemmas\<close>

subsection \<open>The interface of a typed field\<close>

locale typed_decoder =
  fixes dec :: "'t \<Rightarrow> bytes \<Rightarrow> 'e + ('b \<times> nat)"
    and conf :: "'t \<Rightarrow> 'b \<Rightarrow> bool"
  assumes dec_conf: "dec t data = Inr (x, n) \<Longrightarrow> conf t x"
begin

lemma decode_each_conf: "decode_each dec ts data offset = Inr (xs, offset') \<Longrightarrow> list_all2 conf ts xs"
  by (induction ts arbitrary: xs offset) (auto simp: bind_inv dest: dec_conf)

end

lemma decode_text_wire:
  assumes "decode_text kind Strict m data = Inr (s, n)"
  shows "wire_text m s"
proof -
  obtain p where p: "find_nul data = Some p" "p \<le> m" "utf8_decode Strict (take p data) = Inr s"
    using assms unfolding decode_text_eq_Inr by blast
  then show ?thesis
    using utf8_encode_decode [OF p(3)] find_nul_Some_less [OF p(1)] find_nul_Some_prefix [OF p(1)]
    by (simp add: wire_text_def)
qed

lemma decode_value_conforms: "decode_value kind errors t data = Inr (v, n) \<Longrightarrow> conforms errors t v"
  by (cases t) (auto simp: decode_value_cases value_decoders bind_inv decode_blob_def Let_def
      dest: decode_int64_range decode_text_wire split: if_splits)

interpretation typed_value: typed_decoder "decode_value kind errors" "conforms errors"
  by unfold_locales (rule decode_value_conforms)

interpretation typed_text: typed_decoder "\<lambda>_ :: unit. decode_text kind Strict m" "\<lambda>_. wire_text m"
  by unfold_locales (rule decode_text_wire)

subsection \<open>Requests\<close>

lemma decode_param_types_sendable: "decode_param_types raws = Inr ts \<Longrightarrow> UNIXTIME \<notin> set ts"
  by (induction raws arbitrary: ts) (auto simp: bind_inv split: option.splits if_splits)

lemma params_typedI: "list_all2 (conforms Strict) ts ps \<Longrightarrow> UNIXTIME \<notin> set ts \<Longrightarrow> params_typed ps"
proof (induction rule: list_all2_induct)
  case (Cons t ts v vs)
  then show ?case by (cases t) (auto simp: params_typed_def)
qed (simp add: params_typed_def)

lemma decode_params_tuple_typed:
  assumes "decode_params_tuple kind None sc off data = Inr (ps, n)"
  shows "params_typed ps"
proof (cases "ps = []")
  case False
  then obtain c cs where "decode_params_body kind c cs off data = Inr (ps, n)"
    using assms by (auto simp: decode_params_tuple_def Let_def split: if_splits)
  then obtain ts k where t: "decode_param_types (take c (drop cs data)) = Inr ts"
    and d: "decode_each (decode_value kind Strict) ts data k = Inr (ps, n)"
    by (auto simp: decode_params_body_def Let_def bind_inv split: if_splits)
  show ?thesis
    using params_typedI [OF typed_value.decode_each_conf [OF d] decode_param_types_sendable [OF t]] .
qed (simp add: params_typed_def)

text \<open>What a reader sees of a well-typed parameter is the parameter itself.\<close>

lemma param_image_typed: "params_typed ps \<Longrightarrow> map param_image ps = ps"
proof (induction ps)
  case (Cons v vs)
  moreover have "param_image v = v" using Cons.prems
    by (cases v) (auto simp: params_typed_def param_image_def infer_value_type_def wire_image_def py_bytes_def)
  ultimately show ?case by (simp add: params_typed_def)
qed simp

lemma request_post_init_eq_Inr: "request_post_init r = Inr r' \<longleftrightarrow> request_check r = Inr () \<and> r' = r"
  by (auto simp: request_post_init_def bind_inv)

lemma params_image_decoded:
  "params_typed ps \<Longrightarrow> params r = ps \<Longrightarrow> decoded_schema r = Some sc \<Longrightarrow> decoded_empty_header r = Some b \<Longrightarrow> params_image r = r"
  by (simp add: params_image_def param_image_typed params_get_schema_def)

lemma ParamsRequest_decode_typed:
  assumes "ParamsRequest_decode_body decode_prefix cls data sc = Inr r"
  obtains args ps h where "r = cls args ps (Some sc) (Some h)" "request_post_init r = Inr r" "params_typed ps"
  using assms by (auto simp: ParamsRequest_decode_body_def bind_inv request_post_init_eq_Inr dest: decode_params_tuple_typed)

definition request_decoded :: "request_type \<Rightarrow> int \<Rightarrow> request \<Rightarrow> bool" where
  "request_decoded rt sc r \<longleftrightarrow> request_post_init r = Inr r \<and> strict_request r \<and> request_typed r
     \<and> request_image r = r \<and> request_MSG_TYPE r = rt \<and> request_get_schema r = sc"

lemma prepared_decoded:
  assumes "ParamsRequest_decode_body decode_prefix (\<lambda>args ps ds deh. cls (prepared_fields args ps ds deh)) data sc = Inr r"
    and "\<And>q. request_image (cls q) = cls (params_image q) \<and> strict_request (cls q) \<and> request_MSG_TYPE (cls q) = rt
      \<and> request_typed (cls q) = params_typed (params q) \<and> request_get_schema (cls q) = params_get_schema q"
  shows "request_decoded rt sc r"
  using assms(1)
proof (rule ParamsRequest_decode_typed)
  fix args ps h
  assume "r = cls (prepared_fields args ps (Some sc) (Some h))" "request_post_init r = Inr r" "params_typed ps"
  then show ?thesis
    using assms(2) params_image_decoded [of ps "prepared_fields args ps (Some sc) (Some h)" sc h]
    by (simp add: request_decoded_def prepared_fields_def params_get_schema_def)
qed

lemma sql_decoded:
  assumes "ParamsRequest_decode_body decode_prefix (\<lambda>args ps ds deh. cls (sql_fields args ps ds deh)) data sc = Inr r"
    and "\<And>q. request_image (cls q) = cls (params_image q) \<and> strict_request (cls q) \<and> request_MSG_TYPE (cls q) = rt
      \<and> request_typed (cls q) = params_typed (params q) \<and> request_get_schema (cls q) = params_get_schema q"
  shows "request_decoded rt sc r"
  using assms(1)
proof (rule ParamsRequest_decode_typed)
  fix args ps h
  assume "r = cls (sql_fields args ps (Some sc) (Some h))" "request_post_init r = Inr r" "params_typed ps"
  then show ?thesis
    using assms(2) params_image_decoded [of ps "sql_fields args ps (Some sc) (Some h)" sc h]
    by (simp add: request_decoded_def sql_fields_def params_get_schema_def)
qed

lemma AssignRequest_decoded:
  "AssignRequest_decode_body data sc = Inr r \<Longrightarrow> request_decoded RT_ASSIGN sc r"
  by (auto simp: AssignRequest_decode_body_def AssignRequest_init_def bind_inv require_defs request_decoded_def
      request_post_init_eq_Inr check_uint64_def split: if_splits option.splits)

lemma request_decode_decoded:
  assumes "request_decode_body rt data sc = Inr r"
  shows "request_decoded rt sc r"
proof (cases rt)
  case RT_EXEC
  then show ?thesis using prepared_decoded [of _ ExecRequest] assms by simp
next
  case RT_QUERY
  then show ?thesis using prepared_decoded [of _ QueryRequest] assms by simp
next
  case RT_EXEC_SQL
  then show ?thesis using sql_decoded [of _ ExecSqlRequest] assms by simp
next
  case RT_QUERY_SQL
  then show ?thesis using sql_decoded [of _ QuerySqlRequest] assms by simp
next
  case RT_ASSIGN
  then show ?thesis using AssignRequest_decoded assms by simp
qed (use assms in \<open>auto simp: LeaderRequest_decode_body_def WordRequest_decode_body_def
      OpenRequest_decode_body_def PrepareRequest_decode_body_def FinalizeRequest_decode_body_def
      NodeAddressRequest_decode_body_def DumpRequest_decode_body_def
      ClusterRequest_decode_body_def DescribeRequest_decode_body_def request_post_init_eq_Inr bind_inv
      require_defs request_decoded_def split: if_splits\<close>)

subsection \<open>Result sets\<close>

lemma decode_rows_typed:
  assumes "decode_rows errors max_rows n view offset acc ts ct = Inr (ct', ts', rws, m)"
    and "list_all2 (list_all2 (conforms errors)) ts acc"
  shows "list_all2 (list_all2 (conforms errors)) ts' rws"
  using assms
proof (induction errors max_rows n view offset acc ts ct rule: decode_rows.induct)
  case (1 errors max_rows n view offset acc ts ct)
  from "1.prems"(1) show ?case
  proof (cases rule: decode_rows_step)
    case (row types c vals k)
    have "list_all2 (conforms errors) types vals"
      using row(3) unfolding decode_row_values_def by (rule typed_value.decode_each_conf)
    then have "list_all2 (list_all2 (conforms errors)) (ts @ [types]) (acc @ [vals])"
      using "1.prems"(2) by (intro list_all2_appendI) simp_all
    then show ?thesis using "1.IH" [OF row(1,2) refl refl row(3) refl row(4) row(5) [symmetric]] by simp
  qed (use "1.prems" in auto)
qed

lemma decode_names_wire:
  assumes "decode_names n view offset = Inr (names, offset')"
  shows "list_all (wire_text MAX_COLUMN_NAME_SIZE) names"
  using typed_text.decode_each_conf [OF assms [unfolded decode_names_def]]
  by (auto simp: list_all2_conv_all_nth list_all_length)

lemma RowsResponse_decode_typed:
  assumes "RowsResponse_decode_body errors max_rows data sc = Inr r"
  shows "rows_typed errors r"
proof -
  note shape = RowsResponse_decode_shape [OF assms]
  have "list_all (wire_text MAX_COLUMN_NAME_SIZE) (column_names r)"
    "list_all2 (list_all2 (conforms errors)) (row_types r) (rows r)"
    using assms decode_names_wire decode_rows_typed
    by (auto simp: RowsResponse_decode_body_def Let_def bind_inv split: if_splits)
  then show ?thesis using shape by (auto simp: rows_typed_def list_all_iff)
qed

text \<open>A typed row keeps its types when the encoder overrides those of \<^verbatim>\<open>None\<close> cells, and its values.\<close>

lemma conforms_None: "conforms errors t PNone \<longleftrightarrow> t = NULL"
  by (cases t) simp_all

lemma null_override_typed: "list_all2 (conforms errors) ts vs \<Longrightarrow> null_override vs ts = ts"
  by (induction rule: list_all2_induct) (auto simp: conforms_None)

lemma wire_image_typed: "conforms errors t v \<Longrightarrow> wire_image t v = v"
  by (cases t; cases v) (simp_all add: wire_image_def py_bytes_def)

lemma map2_wire_image_typed: "list_all2 (conforms errors) ts vs \<Longrightarrow> map2 wire_image ts vs = vs"
  by (induction rule: list_all2_induct) (auto simp: wire_image_typed)

lemma resolved_types_typed:
  assumes "list_all2 (list_all2 (conforms errors)) (row_types r) (rows r)"
    and "rows r = done @ rws" and "i = length done"
  shows "resolved_types r i rws = drop i (row_types r)"
  using assms(2,3)
proof (induction rws arbitrary: i "done")
  case Nil
  then show ?case using list_all2_lengthD [OF assms(1)] by simp
next
  case (Cons row rws)
  have i: "i < length (row_types r)" "rows r ! i = row"
    using list_all2_lengthD [OF assms(1)] Cons.prems by simp_all
  then have "list_all2 (conforms errors) (row_types r ! i) row"
    using assms(1) by (metis list_all2_nthD)
  then have "get_row_types r i row = Inr (row_types r ! i)"
    using i by (auto simp: get_row_types_def null_override_typed)
  then show ?case
    using Cons.IH [of "done @ [row]" "Suc i"] Cons.prems i by (simp add: Cons_nth_drop_Suc)
qed

lemma rows_image_typed:
  assumes "rows_typed errors r"
  shows "rows_image r = r"
proof -
  have t: "list_all2 (list_all2 (conforms errors)) (row_types r) (rows r)" "column_types r = first_or_empty (row_types r)"
    using assms by (simp_all add: rows_typed_def)
  have "map2 (map2 wire_image) (row_types r) (rows r) = rows r"
    using t(1) by (induction rule: list_all2_induct) (simp_all add: map2_wire_image_typed)
  then show ?thesis using t resolved_types_typed [OF t(1), of "[]"] by (simp add: rows_image_def Let_def)
qed

subsection \<open>Responses\<close>

lemma decode_files_distinct:
  "decode_files view n offset files = Inr (files', offset') \<Longrightarrow> distinct (map fst files) \<Longrightarrow> distinct (map fst files')"
  by (induction view n offset files rule: decode_files.induct)
    (auto simp: bind_inv Let_def split: if_splits)

lemma decode_nodes_valid:
  assumes "decode_nodes policy view n offset seen nodes = Inr (nodes', offset')"
    and "list_all node_valid nodes" and "distinct (map node_id nodes)" and "set seen = set (map node_id nodes)"
  shows "list_all node_valid nodes' \<and> distinct (map node_id nodes')"
  using assms
proof (induction n arbitrary: offset seen nodes)
  case (Suc n)
  then obtain i a c r where n: "i \<noteq> 0" "a \<noteq> []" "i \<notin> set seen"
    and info: "NodeInfo_init (PInt i) a (RoleEnum r) = Inr \<lparr>node_id = i, address = a, role = r\<rparr>"
    and rest: "decode_nodes policy view n (offset + 8 + c + 8) (i # seen)
        (nodes @ [\<lparr>node_id = i, address = a, role = r\<rparr>]) = Inr (nodes', offset')"
    by (auto simp: bind_inv NodeInfo_init_def split: if_splits option.splits)
  show ?case using n info Suc.prems by (intro Suc.IH [OF rest]) (auto simp: node_valid_def)
qed simp

definition response_decoded :: "text_errors \<Rightarrow> int \<Rightarrow> response_type \<Rightarrow> int \<Rightarrow> response \<Rightarrow> bool" where
  "response_decoded errors max_rows rt sc r \<longleftrightarrow> response_valid r \<and> response_typed errors r
     \<and> response_image r = r \<and> (1 \<le> max_rows \<longrightarrow> response_acceptable max_rows r)
     \<and> response_MSG_TYPE r = rt \<and> response_get_schema r = sc"

lemma FailureResponse_decoded:
  "FailureResponse_decode_body data sc = Inr r \<Longrightarrow> response_decoded errors max_rows RS_FAILURE sc r"
  by (auto simp: FailureResponse_decode_body_def FailureResponse_init_def bind_inv response_decoded_def case_prod_beta
      split: if_splits)

lemma LeaderResponse_decoded:
  "LeaderResponse_decode_body data sc = Inr r \<Longrightarrow> response_decoded errors max_rows RS_LEADER sc r"
  "LeaderResponse_decode_body_legacy data = Inr r \<Longrightarrow> response_decoded errors max_rows RS_LEADER 0 r"
  by (auto simp: LeaderResponse_decode_body_def LeaderResponse_decode_body_legacy_def LeaderResponse_init_def bind_inv
      response_decoded_def split: if_splits)

lemma StmtResponse_decoded:
  "StmtResponse_decode_body data sc = Inr r \<Longrightarrow> response_decoded errors max_rows RS_STMT sc r"
  by (auto simp: StmtResponse_decode_body_def StmtResponse_init_def bind_inv response_decoded_def stmt_valid_def
      stmt_get_schema_def split: if_splits option.splits)

lemma RowsResponse_decoded:
  assumes "RowsResponse_decode_body errors max_rows data sc = Inr r"
  shows "response_decoded errors max_rows RS_ROWS sc (RowsResponse r)"
proof -
  have "sc = 0" using assms by (auto simp: RowsResponse_decode_body_def split: if_splits)
  then show ?thesis
    using RowsResponse_decode_typed [OF assms] rows_image_typed RowsResponse_decode_shape [OF assms]
    by (cases "rows r") (auto simp: response_decoded_def)
qed

lemma containers_decoded:
  "FilesResponse_decode_body data sc = Inr r \<Longrightarrow> response_decoded errors max_rows RS_FILES sc r"
  "ServersResponse_decode_body policy data sc = Inr r \<Longrightarrow> response_decoded errors max_rows RS_SERVERS sc r"
  by (auto simp: FilesResponse_decode_body_def ServersResponse_decode_body_def bind_inv response_decoded_def
      dest: decode_files_distinct decode_nodes_valid split: if_splits)

lemma words_decoded:
  "WelcomeResponse_decode_body data sc = Inr r \<Longrightarrow> response_decoded errors max_rows RS_WELCOME sc r"
  "DbResponse_decode_body data sc = Inr r \<Longrightarrow> response_decoded errors max_rows RS_DB sc r"
  "ResultResponse_decode_body data sc = Inr r \<Longrightarrow> response_decoded errors max_rows RS_RESULT sc r"
  "EmptyResponse_decode_body data sc = Inr r \<Longrightarrow> response_decoded errors max_rows RS_EMPTY sc r"
  "MetadataResponse_decode_body data sc = Inr r \<Longrightarrow> response_decoded errors max_rows RS_METADATA sc r"
  by (auto simp: WelcomeResponse_decode_body_def WelcomeResponse_init_def DbResponse_decode_body_def DbResponse_init_def
      ResultResponse_decode_body_def ResultResponse_init_def EmptyResponse_decode_body_def
      MetadataResponse_decode_body_def MetadataResponse_init_def bind_inv response_decoded_def split: if_splits)

lemma response_decode_decoded:
  "response_decode_body errors max_rows policy rt data sc = Inr r \<Longrightarrow> response_decoded errors max_rows rt sc r"
  by (cases rt) (auto simp: bind_inv intro: FailureResponse_decoded LeaderResponse_decoded StmtResponse_decoded
      RowsResponse_decoded containers_decoded words_decoded)

subsection \<open>Messages\<close>

lemma REQUEST_TYPES_dom: "REQUEST_TYPES n = Some rt \<Longrightarrow> rt \<notin> {RT_HEARTBEAT, RT_CONNECT}"
  by (auto simp: REQUEST_TYPES_def split: if_splits)

lemma decode_frame_delivers:
  assumes "decode_frame d data = Inr m"
  shows "deliverable d m"
proof -
  obtain h body where b: "decode_frame_body d h body = Inr m"
    using assms by (auto simp: decode_frame_def Let_def bind_inv split: if_splits)
  then show ?thesis
    by (auto simp: decode_frame_body_def deliverable_def bind_inv split: if_splits option.splits
        dest!: request_decode_decoded response_decode_decoded LeaderResponse_decoded(2)
        simp: request_decoded_def response_decoded_def)
qed

lemma decode_bytes_delivers: "decode_bytes d data = Inr m \<Longrightarrow> deliverable d m"
  by (auto simp: decode_bytes_def bind_inv split: if_splits intro: decode_frame_delivers)

lemma deliverable_buffer [simp]: "deliverable (d\<lparr>dec_buffer := b\<rparr>) = deliverable d"
  by (rule ext) (simp add: deliverable_def split: message.splits)

lemma decode_delivers: "decode d = (Inr (Some m), d') \<Longrightarrow> deliverable d m"
  by (auto simp: decode_def on_buffer_eq bind_inv dest!: decode_bytes_delivers split: sum.splits if_splits option.splits)

lemma continuation_body_delivers:
  "continuation_body data d = (Inr r, d') \<Longrightarrow> \<not> is_request d \<Longrightarrow> deliverable d (Response r)"
  by (auto simp: continuation_body_def continue_rows_def Let_def deliverable_def
      dest!: RowsResponse_decoded words_decoded(4) simp: response_decoded_def split: sum.splits if_splits)

lemma decode_continuation_delivers:
  assumes "decoder_inv d" and "decode_continuation d = (Inr (Some r), d')"
  shows "deliverable d (Response r)"
proof -
  have "\<not> is_request d" using assms
    by (auto simp: decode_continuation_def decoder_inv_defs split: sum.splits if_splits)
  moreover obtain data b d2 where "continuation_body data (d\<lparr>dec_buffer := b\<rparr>) = (Inr r, d2)" using assms(2)
    by (auto simp: decode_continuation_def on_buffer_eq split: sum.splits if_splits option.splits prod.splits)
  ultimately show ?thesis using continuation_body_delivers [of data "d\<lparr>dec_buffer := b\<rparr>"] by simp
qed

section \<open>Properties\<close>

text \<open>
  C9 (decoded_well_typed): whatever bytes arrive, an object that a decoder hands out is well
  typed.  It is of the decoder's direction and is one its class's constructor accepts as it is;
  each parameter of a request has the Python class, the range and the size of a type a client
  may send, with text that can be encoded again; every cell of a result set conforms to the type
  its row header gives, rows are as wide as the column names, and \<^verbatim>\<open>column_types\<close> is the first
  row's.  A reader of its encoding would see the object unchanged.
\<close>

theorem decoded_well_typed:
  assumes "decoder_inv d"
  shows "(decode_bytes d data = Inr m \<longrightarrow> deliverable d m)
    \<and> (fst (decode d) = Inr (Some m) \<longrightarrow> deliverable d m)
    \<and> (fst (decode_continuation d) = Inr (Some r) \<longrightarrow> deliverable d (Response r))"
  using decode_bytes_delivers decode_delivers decode_continuation_delivers [OF assms]
  by (cases "decode d"; cases "decode_continuation d") auto

theorem decoded_well_typed_witness:
  "deliverable (sample_decoder False [])
     (Response (RowsResponse \<lparr>column_names = [[97]], column_types = [INTEGER], row_types = [[INTEGER]],
        rows = [[PInt 7]], has_more = True\<rparr>))"
proof -
  have "decode_bytes (sample_decoder False [])
      [5, 0, 0, 0, 7, 0, 0, 0, 1, 0, 0, 0, 0, 0, 0, 0, 97, 0, 0, 0, 0, 0, 0, 0,
        1, 0, 0, 0, 0, 0, 0, 0, 7, 0, 0, 0, 0, 0, 0, 0, 0xEE, 0xEE, 0xEE, 0xEE, 0xEE, 0xEE, 0xEE, 0xEE]
    = Inr (Response (RowsResponse \<lparr>column_names = [[97]], column_types = [INTEGER], row_types = [[INTEGER]],
        rows = [[PInt 7]], has_more = True\<rparr>))" by code_simp
  moreover have "decoder_inv (sample_decoder False [])" using sample_idle [of "[]"] by (simp add: decoder_idle_def)
  ultimately show ?thesis using decoded_well_typed by blast
qed

end
