(* ===== verification/Normal_Form.thy ===== *)
theory Normal_Form
  imports Conformance
begin

text \<open>
  Bytes from any peer, decoded and written again.  The interface \<open>rewriter\<close> says of one field
  that what its decoder returns, its encoder takes back in exactly as many bytes; the lemmas
  lift this to sequences of fields, bodies and frames.  The result is that the encoder is
  defined on all that a strict decoder returns, and that encoding gives a normal form: its bytes decode to the same
  message.
\<close>

section \<open>Definitions\<close>

text \<open>The writer returns exactly \<open>n\<close> bytes; whole words, at most \<open>n\<close> bytes.\<close>

definition writes :: "nat \<Rightarrow> bytes result \<Rightarrow> bool" where
  "writes n res = (case res of Inl _ \<Rightarrow> False | Inr bs \<Rightarrow> length bs = n)"

definition fits :: "nat \<Rightarrow> bytes result \<Rightarrow> bool" where
  "fits n res = (case res of Inl _ \<Rightarrow> False | Inr bs \<Rightarrow> length bs mod 8 = 0 \<and> length bs \<le> n)"

text \<open>
  The encoder parses an ISO8601 cell, the decoder does not: the text of a cell that another
  implementation wrote with this type has to pass.
\<close>

definition iso_cell :: "(pystr \<Rightarrow> bool) \<Rightarrow> value_type \<Rightarrow> pyval \<Rightarrow> bool" where
  "iso_cell iso_ok t v = (case v of PStr s \<Rightarrow> t = ISO8601 \<longrightarrow> iso_ok s | _ \<Rightarrow> True)"

fun iso_cells :: "(pystr \<Rightarrow> bool) \<Rightarrow> message \<Rightarrow> bool" where
  "iso_cells iso_ok (Response (RowsResponse r)) = list_all2 (list_all2 (iso_cell iso_ok)) (row_types r) (rows r)"
| "iso_cells iso_ok m = True"

section \<open>Lemmas\<close>

lemma writes_Inr [simp]: "writes n (Inr bs) \<longleftrightarrow> length bs = n"
  by (simp add: writes_def)

lemma writes_iff: "writes n res \<longleftrightarrow> (\<exists>bs. res = Inr bs \<and> length bs = n)"
  by (auto simp: writes_def split: sum.splits)

lemma fits_Inr [simp]: "fits n (Inr bs) \<longleftrightarrow> length bs mod 8 = 0 \<and> length bs \<le> n"
  by (simp add: fits_def)

lemma fits_iff: "fits n res \<longleftrightarrow> (\<exists>bs. res = Inr bs \<and> length bs mod 8 = 0 \<and> length bs \<le> n)"
  by (auto simp: fits_def split: sum.splits)

lemma writes_bind: "writes a res \<Longrightarrow> (\<And>bs. length bs = a \<Longrightarrow> writes n (f bs)) \<Longrightarrow> writes n (bindE res f)"
  by (auto simp: writes_iff)

lemma writes_fits: "writes n res \<Longrightarrow> n mod 8 = 0 \<Longrightarrow> n \<le> m \<Longrightarrow> fits m res"
  by (auto simp: writes_iff fits_iff)

subsection \<open>The interface of a field that can be written again\<close>

locale rewriter =
  fixes dec :: "'t \<Rightarrow> bytes \<Rightarrow> exc + ('b \<times> nat)"
    and enc :: "'t \<Rightarrow> 'b \<Rightarrow> bytes result"
    and good :: "'t \<Rightarrow> 'b \<Rightarrow> bool"
  assumes dec_writes: "dec t data = Inr (x, n) \<Longrightarrow> good t x \<Longrightarrow> writes n (enc t x)"
begin

lemma decode_each_writes:
  assumes "decode_each dec ts data offset = Inr (xs, offset')" and "list_all2 good ts xs"
  shows "offset \<le> offset' \<and> writes (offset' - offset) (encode_each enc ts xs)"
  using assms
proof (induction ts arbitrary: xs offset)
  case (Cons t ts)
  then obtain x n ys where d: "dec t (drop offset data) = Inr (x, n)"
    and r: "decode_each dec ts data (offset + n) = Inr (ys, offset')" and xs: "xs = x # ys"
    by (auto simp: bind_inv)
  have "offset + n \<le> offset' \<and> writes (offset' - (offset + n)) (encode_each enc ts ys)"
    using Cons.IH [OF r] Cons.prems(2) xs by simp
  moreover have "writes n (enc t x)" using dec_writes [OF d] Cons.prems(2) xs by simp
  ultimately show ?case by (auto simp: xs writes_iff)
qed simp

end

lemma uint64_writes: "decode_uint64 data = Inr i \<Longrightarrow> writes 8 (encode_uint64 (PInt i))"
  using decode_uint64_range by (auto simp: writes_iff encode_uint64_eq_Inr)

lemma uint32_writes: "decode_uint32 data = Inr i \<Longrightarrow> writes 4 (encode_uint32 (PInt i))"
  using decode_uint32_range by (auto simp: writes_iff encode_uint32_eq_Inr)

lemma text_writes:
  assumes "decode_text kind Strict m data = Inr (s, n)"
  shows "writes n (encode_text (PStr s) (Some m))"
proof -
  obtain p where p: "find_nul data = Some p" "p \<le> m" "utf8_decode Strict (take p data) = Inr s"
    "n = p + 1 + pad_to_word (p + 1)"
    using assms unfolding decode_text_eq_Inr by blast
  then show ?thesis
    using utf8_encode_decode [OF p(3)] find_nul_Some_less [OF p(1)] find_nul_Some_prefix [OF p(1)]
    by (auto simp: writes_iff encode_text_eq_Inr)
qed

lemma blob_writes:
  assumes "decode_blob data m = Inr (b, n)"
  shows "writes n (encode_blob (PBytes b) m)"
  using assms
  by (auto simp: decode_blob_def bind_inv Let_def writes_iff encode_blob_bytes dest: decode_uint64_range split: if_splits)

lemma value_writes:
  assumes "decode_value kind Strict t data = Inr (v, n)" and "iso_cell iso_ok t v"
  shows "writes n (encode_cell iso_ok t v)"
proof (cases t)
  case TEXT
  then show ?thesis using assms(1)
    by (auto simp: decode_value_cases value_decoders bind_inv encode_cell_def encode_value_def encode_value_as_def
        writes_iff dest!: text_writes)
next
  case ISO8601
  then show ?thesis using assms
    by (auto simp: decode_value_cases value_decoders bind_inv encode_cell_def encode_value_def encode_value_as_def
        iso_cell_def writes_iff dest!: text_writes)
next
  case BLOB
  then show ?thesis using assms(1)
    by (auto simp: decode_value_cases value_decoders bind_inv encode_cell_def encode_value_def encode_value_as_def
        encode_value_blob_eq_Inr is_byteslike_def py_bytes_def writes_iff dest!: blob_writes)
qed (use assms(1) in \<open>auto simp: decode_value_cases value_decoders bind_inv encode_cell_def encode_value_def
      encode_value_as_def encode_int64_eq_Inr encode_uint64_eq_Inr encode_double_eq_Inr writes_iff
      dest: decode_int64_range split: if_splits\<close>)

interpretation cell: rewriter "decode_value kind Strict" "encode_cell iso_ok" "iso_cell iso_ok"
  by unfold_locales (rule value_writes)

interpretation name: rewriter "\<lambda>_ :: unit. decode_text kind Strict m" "text_field m" "\<lambda>_ _. True"
  by unfold_locales (simp add: text_field_def text_writes)

subsection \<open>Parameters\<close>

text \<open>A parameter is written under the type inferred for it: TEXT where the sender had ISO8601.\<close>

lemma param_writes:
  assumes "decode_value kind Strict t data = Inr (v, n)" and "t \<noteq> UNIXTIME"
  shows "\<exists>bs t'. encode_value iso_ok v None = Inr (bs, t') \<and> t' \<noteq> UNIXTIME \<and> length bs = n"
proof (cases "t = ISO8601")
  case True
  then have "decode_value kind Strict TEXT data = Inr (v, n)"
    using assms(1) by (simp add: decode_value_cases value_decoders)
  moreover from this obtain s where "v = PStr s" by (auto simp: decode_value_cases value_decoders bind_inv)
  ultimately show ?thesis
    using value_writes [of kind TEXT data v n iso_ok]
    by (auto simp: iso_cell_def encode_cell_def encode_value_def infer_value_type_def writes_iff bind_inv)
next
  case False
  have c: "writes n (encode_cell iso_ok t v)"
    using assms(1) False by (intro value_writes) (auto simp: iso_cell_def split: pyval.split)
  have "infer_value_type v = Inr t"
    using assms(1) False assms(2) by (cases t)
      (auto simp: decode_value_cases value_decoders bind_inv infer_value_type_def split: if_splits)
  then show ?thesis
    using c assms(2) by (auto simp: encode_cell_def encode_value_def writes_iff bind_inv split: if_splits)
qed

lemma param_values_write:
  assumes "decode_each (decode_value kind Strict) ts data k = Inr (ps, n)" and "UNIXTIME \<notin> set ts"
  shows "\<exists>ts' vs. encode_param_values iso_ok ps = Inr (ts', vs) \<and> length ts' = length ps \<and> length ps = length ts
    \<and> k + length (concat vs) = n"
  using assms
proof (induction ts arbitrary: ps k)
  case (Cons t ts)
  then obtain v c ps' where d: "decode_value kind Strict t (drop k data) = Inr (v, c)"
    and r: "decode_each (decode_value kind Strict) ts data (k + c) = Inr (ps', n)" and ps: "ps = v # ps'"
    by (auto simp: bind_inv)
  show ?case using param_writes [OF d, of iso_ok] Cons.IH [OF r] Cons.prems(2) by (auto simp: ps)
qed simp

lemma decode_params_tuple_cases:
  assumes "decode_params_tuple kind None sc off data = Inr (ps, n)"
  obtains (absent) "ps = []" "n = 0" "sc = 0 \<or> sc = 1"
  | (empty) cs where "ps = []" "n = cs + pad_to_word (off + cs)" "cs = (if sc = 1 then 4 else 1)" "sc = 0 \<or> sc = 1"
  | (some) c cs where "0 < c" "cs = (if sc = 1 then 4 else 1)" "sc = 0 \<or> sc = 1" "sc = 0 \<Longrightarrow> c \<le> 255"
      "decode_params_body kind c cs off data = Inr (ps, n)"
proof -
  have "unat (data ! 0) \<le> 255" using unat_byte_less [of "data ! 0"] by linarith
  then show ?thesis
    using assms absent empty some by (cases "sc = 1") (auto simp: decode_params_tuple_def Let_def split: if_splits)
qed

lemma params_tuple_writes:
  assumes "decode_params_tuple kind None sc off data = Inr (ps, n)" and "off mod 8 = 0"
  shows "writes n (encode_params_tuple iso_ok ps sc off (ps = [] \<and> 0 < n))"
  using assms(1)
proof (cases rule: decode_params_tuple_cases)
  case absent
  then show ?thesis by (auto simp: encode_params_tuple_def MAX_PARAM_COUNT_def)
next
  case (empty cs)
  have "pad_to_word (off + cs) = 8 - cs" using assms(2) empty(3) by (auto simp: pad_to_word_def)
  then show ?thesis using empty by (auto simp: encode_params_tuple_def MAX_PARAM_COUNT_def)
next
  case (some c cs)
  define k where "k = cs + c + pad_to_word (off + (cs + c))"
  obtain ts where t: "c \<le> MAX_PARAM_COUNT" "k \<le> length data"
      "decode_param_types (take c (drop cs data)) = Inr ts"
      "decode_each (decode_value kind Strict) ts data k = Inr (ps, n)"
    using some(5) by (auto simp: decode_params_body_def Let_def bind_inv k_def split: if_splits)
  have c: "length ts = c" using decode_param_types_length [OF t(3)] t(2) by (simp add: k_def)
  obtain ts' vs where v: "encode_param_values iso_ok ps = Inr (ts', vs)" "length ts' = c" "length ps = c"
      "k + length (concat vs) = n"
    using param_values_write [OF t(4) decode_param_types_sendable [OF t(3)], of iso_ok] c by auto
  have "ps \<noteq> []" using v(3) some(1) by auto
  then show ?thesis
    using v some t(1) by (auto simp: encode_params_tuple_def Let_def k_def)
qed

subsection \<open>Requests\<close>

lemma word_text_writes:
  "decode_uint64 data = Inr i \<Longrightarrow> decode_text kind Strict m data' = Inr (s, n) \<Longrightarrow> 8 + n = k \<Longrightarrow>
     writes k (word_text (PInt i) (PStr s) m)"
  by (auto simp: word_text_def writes_iff dest!: uint64_writes text_writes)

lemma id_pair_writes:
  "decode_uint32 data = Inr a \<Longrightarrow> decode_uint32 data' = Inr b \<Longrightarrow> writes 8 (id_pair (PInt a) (PInt b))"
  by (auto simp: id_pair_def writes_iff dest!: uint32_writes)

lemma ParamsRequest_writes:
  assumes "ParamsRequest_decode_body decode_prefix cls data sc = Inr r"
    and "\<And>args n. decode_prefix data = Inr (args, n) \<Longrightarrow> n mod 8 = 0 \<and> writes n (encode_prefix args)"
    and "\<And>args ps ds deh. request_encode_body iso_ok (cls args ps ds deh)
      = ParamsRequest_encode_body iso_ok (encode_prefix args) (mk args ps ds deh)
        \<and> params (mk args ps ds deh) = ps \<and> decoded_schema (mk args ps ds deh) = ds
        \<and> decoded_empty_header (mk args ps ds deh) = deh"
  shows "writes (length data) (request_encode_body iso_ok r)"
proof -
  obtain args off ps n where d: "decode_prefix data = Inr (args, off)"
    "decode_params_tuple IsView None sc off (drop off data) = Inr (ps, n)" "off + n = length data"
    "r = cls args ps (Some sc) (Some (ps = [] \<and> 0 < n))"
    using assms(1) by (auto simp: ParamsRequest_decode_body_def bind_inv require_defs request_post_init_eq_Inr)
  have "writes off (encode_prefix args)" "off mod 8 = 0" using assms(2) [OF d(1)] by simp_all
  then show ?thesis
    using params_tuple_writes [OF d(2), of iso_ok] d(3,4) assms(3)
    by (auto simp: ParamsRequest_encode_body_def params_get_schema_def writes_iff)
qed

lemma PreparedStatementRequest_prefix_writes:
  "PreparedStatementRequest_decode_prefix data = Inr (args, n) \<Longrightarrow>
     n mod 8 = 0 \<and> writes n (id_pair (fst args) (snd args))"
  by (auto simp: PreparedStatementRequest_decode_prefix_def bind_inv intro: id_pair_writes)

lemma SqlTextRequest_prefix_writes:
  "SqlTextRequest_decode_prefix data = Inr (args, n) \<Longrightarrow>
     n mod 8 = 0 \<and> writes n (word_text (fst args) (snd args) MAX_TEXT_VALUE_SIZE)"
  by (auto simp: SqlTextRequest_decode_prefix_def bind_inv intro: word_text_writes dest: decode_text_consumed)

lemmas request_prefix_defs = PreparedStatementRequest_encode_prefix_def SqlTextRequest_encode_prefix_def
  prepared_fields_def sql_fields_def

lemma statement_writes:
  "rt \<in> {RT_EXEC, RT_QUERY, RT_EXEC_SQL, RT_QUERY_SQL} \<Longrightarrow> request_decode_body rt data sc = Inr r \<Longrightarrow>
     writes (length data) (request_encode_body iso_ok r)"
  by (elim insertE; simp)
    (erule ParamsRequest_writes [OF _ PreparedStatementRequest_prefix_writes, where mk = prepared_fields]
           ParamsRequest_writes [OF _ SqlTextRequest_prefix_writes, where mk = sql_fields];
     simp add: request_prefix_defs)+

lemma OpenRequest_writes:
  assumes "OpenRequest_decode_body data sc = Inr r"
  shows "writes (length data) (request_encode_body iso_ok r)"
proof -
  obtain name n flags vfs c where d: "decode_text IsView Strict MAX_FILENAME_SIZE data = Inr (name, n)"
    "decode_uint64 (drop n data) = Inr flags" "decode_text IsView Strict MAX_FILENAME_SIZE (drop (n + 8) data) = Inr (vfs, c)"
    "n + 8 + c = length data" "r = OpenRequest (PStr name) (PInt flags) (PStr vfs)"
    using assms by (auto simp: OpenRequest_decode_body_def bind_inv require_defs request_post_init_eq_Inr)
  show ?thesis
    using text_writes [OF d(1)] uint64_writes [OF d(2)] text_writes [OF d(3)] d(4,5)
    by (auto simp: OpenRequest_encode_body_def writes_iff)
qed

lemma AssignRequest_fits:
  assumes "AssignRequest_decode_body data sc = Inr r"
  shows "fits 16 (request_encode_body iso_ok r)"
proof -
  obtain n ro where r: "decode_uint64 data = Inr n" "r = AssignRequest (PInt n) (Some ro) False"
    using assms by (auto simp: AssignRequest_decode_body_def AssignRequest_init_def bind_inv require_defs
        split: if_splits option.splits)
  moreover have "0 \<le> n" "n < 2 ^ 64" using decode_uint64_range [OF r(1)] by simp_all
  moreover have "0 \<le> node_role_code ro" "node_role_code ro < 2 ^ 64" by (cases ro; simp)+
  ultimately show ?thesis by (simp add: AssignRequest_encode_body_def encode_uint64_eq_Inr fits_iff bind_inv)
qed

lemma request_fits:
  assumes "request_decode_body rt data sc = Inr r" and "length data mod 8 = 0"
  shows "fits (max 16 (length data)) (request_encode_body iso_ok r)"
proof (cases "rt = RT_ASSIGN")
  case True
  then show ?thesis using AssignRequest_fits assms(1) by (fastforce simp: fits_iff)
next
  case False
  have "writes (length data) (request_encode_body iso_ok r)"
  proof (cases "rt \<in> {RT_EXEC, RT_QUERY, RT_EXEC_SQL, RT_QUERY_SQL}")
    case True
    then show ?thesis using assms(1) by (rule statement_writes)
  next
    case False
    with \<open>rt \<noteq> RT_ASSIGN\<close> show ?thesis using assms(1)
      by (cases rt) (auto simp: LeaderRequest_decode_body_def WordRequest_decode_body_def
        PrepareRequest_decode_body_def FinalizeRequest_decode_body_def
        NodeAddressRequest_decode_body_def DumpRequest_decode_body_def
        ClusterRequest_decode_body_def DescribeRequest_decode_body_def request_post_init_eq_Inr bind_inv
        require_defs split: if_splits intro: uint64_writes text_writes word_text_writes id_pair_writes OpenRequest_writes)
  qed
  then show ?thesis using assms(2) by (rule writes_fits) simp
qed

subsection \<open>Result sets\<close>

lemma row_header_writes:
  assumes "decode_row_header data n = Inr (Types ts, c)"
  shows "writes c (encode_row_header (map value_type_code ts))"
proof -
  have "c = (n + 1) div 2 + pad_to_word ((n + 1) div 2)"
    using assms by (auto simp: decode_row_header_def Let_def bind_inv split: if_splits)
  then show ?thesis using decode_row_header_consumed [OF assms] by (auto simp: encode_row_header_types)
qed

lemma get_row_types_conforming:
  assumes "list_all2 (conforms errors) (row_types r ! i) row" and "i < length (row_types r)"
  shows "get_row_types r i row = Inr (row_types r ! i)"
  using assms by (auto simp: get_row_types_def null_override_typed)

text \<open>
  What the row loop adds to its accumulators is written again in the bytes between its offset
  and the closing marker.
\<close>

lemma decode_rows_write:
  assumes "decode_rows Strict max_rows n view offset acc ts ct = Inr (ct', ts', rws', m)" and "length ts = length acc"
  shows "\<exists>ts2 rws2. ts' = ts @ ts2 \<and> rws' = acc @ rws2 \<and> offset + 8 \<le> length view
    \<and> (\<forall>r. row_types r = ts' \<longrightarrow> list_all2 (list_all2 (iso_cell iso_ok)) ts2 rws2 \<longrightarrow>
          writes (length view - offset - 8) (encode_rows iso_ok r (length acc) rws2))"
  using assms
proof (induction Strict max_rows n view offset acc ts ct rule: decode_rows.induct)
  case (1 max_rows n view offset acc ts ct)
  from "1.prems"(1) show ?case
  proof (cases rule: decode_rows_step)
    case (marker k)
    then have "length view - offset = 8" by (auto simp: decode_row_header_def Let_def bind_inv split: if_splits)
    then show ?thesis using marker by auto
  next
    case (row types c vals k)
    obtain ts2 rws2 where r2: "ts' = (ts @ [types]) @ ts2" "rws' = (acc @ [vals]) @ rws2" "offset + c + k + 8 \<le> length view"
      and w2: "\<And>r. row_types r = ts' \<Longrightarrow> list_all2 (list_all2 (iso_cell iso_ok)) ts2 rws2 \<Longrightarrow>
        writes (length view - (offset + c + k) - 8) (encode_rows iso_ok r (length (acc @ [vals])) rws2)"
      using "1.hyps" [OF row(1,2) refl refl row(3) refl row(4) row(5) [symmetric]] "1.prems"(2) by auto
    have e: "decode_each (decode_value IsView Strict) types (drop (offset + c) view) 0 = Inr (vals, k)"
      using row(3) by (simp add: decode_row_values_def)
    have "writes (length view - offset - 8) (encode_rows iso_ok r (length acc) (vals # rws2))"
      if r: "row_types r = ts'" and iso: "list_all2 (iso_cell iso_ok) types vals" "list_all2 (list_all2 (iso_cell iso_ok)) ts2 rws2" for r
    proof -
      have "get_row_types r (length acc) vals = Inr types"
        using get_row_types_conforming [of Strict r "length acc" vals] typed_value.decode_each_conf [OF e]
          r2(1) r "1.prems"(2) by (simp add: nth_append)
      moreover have "length vals = length types" using iso(1) by (simp add: list_all2_lengthD)
      ultimately show ?thesis
        using row_header_writes [OF row(2)] cell.decode_each_writes [OF e iso(1)] w2 [OF r iso(2)] r2(3)
        by (auto simp: encode_row_values_def writes_iff)
    qed
    then show ?thesis using r2 by auto
  qed auto
qed

lemma names_write:
  assumes "decode_names n view offset = Inr (names, offset')"
  shows "offset \<le> offset' \<and> length names = n \<and> writes (offset' - offset) (encode_names names)"
  using name.decode_each_writes [OF assms [unfolded decode_names_def]]
    typed_text.decode_each_conf [OF assms [unfolded decode_names_def], THEN list_all2_lengthD]
  by (auto simp: encode_names_def list_all2_conv_all_nth)

lemma RowsResponse_decode_parts:
  assumes "RowsResponse_decode_body Strict max_rows data sc = Inr r"
    and "list_all2 (list_all2 (iso_cell iso_ok)) (row_types r) (rows r)"
  obtains n offset where "decode_names n data 8 = Inr (column_names r, offset)" "n = 0 \<longrightarrow> rows r = []"
    "offset + 8 \<le> length data" "writes (length data - offset - 8) (encode_rows iso_ok r 0 (rows r))"
  using assms(1)
proof (cases rule: RowsResponse_decode_cases)
  case (none names offset m)
  then show ?thesis
    using that [of 0 offset] by (auto simp: bind_inv decode_zero_columns_def Let_def split: if_splits)
next
  case (some c names offset ct ts rws m)
  then show ?thesis
    using that [of "nat c" offset] decode_rows_write [OF some(5), of iso_ok] assms(2) by auto
qed

lemma RowsResponse_writes:
  assumes "RowsResponse_decode_body Strict max_rows data sc = Inr r"
    and "list_all2 (list_all2 (iso_cell iso_ok)) (row_types r) (rows r)"
  shows "writes (length data) (RowsResponse_encode_body iso_ok r)"
proof -
  obtain n offset where d: "decode_names n data 8 = Inr (column_names r, offset)" "n = 0 \<longrightarrow> rows r = []"
    "offset + 8 \<le> length data" "writes (length data - offset - 8) (encode_rows iso_ok r 0 (rows r))"
    using RowsResponse_decode_parts [OF assms] .
  note names = names_write [OF d(1)]
  note shape = RowsResponse_decode_shape [OF assms(1)]
  have "check_rows (length (column_names r)) (row_types r) 0 (rows r) = Inr ()"
    using shape by (simp add: check_rows_eq_Inr)
  moreover have "column_types r \<noteq> [] \<Longrightarrow> length (column_types r) = length (column_names r)"
    using shape by (cases "row_types r") (simp_all add: first_or_empty_def)
  moreover have "encode_uint64 (PInt (int (length (column_names r)))) = Inr (le_bytes 8 (int (length (column_names r))))"
    using shape by (simp add: encode_uint64_eq_Inr MAX_COLUMN_COUNT_def)
  ultimately show ?thesis
    using names shape d(2-4)
    by (auto simp: RowsResponse_encode_body_def Let_def marker_bytes writes_iff ROW_PART_BYTES_def ROW_DONE_BYTES_def not_less)
qed

subsection \<open>Responses\<close>

text \<open>A failure message is sanitised when it is decoded; every character that is replaced becomes one byte.\<close>

lemma utf8_encode_sanitized:
  assumes "utf8_encode s = Inr u" and "0 \<notin> set u"
  shows "\<exists>u'. utf8_encode (sanitize_server_text s) = Inr u' \<and> length u' \<le> length u \<and> 0 \<notin> set u'"
  using assms
proof (induction s arbitrary: u)
  case (Cons c s)
  then obtain b v where c: "utf8_char c = Some b" and v: "utf8_encode s = Inr v" "u = b @ v"
    by (auto simp: bind_inv split: option.splits)
  obtain b1 bs where "b = b1 # bs" using utf8_char_nonempty [OF c] by (cases b) simp_all
  moreover have "utf8_char 63 = Some [63]" by (simp add: utf8_char_def)
  ultimately show ?case using Cons.IH [OF v(1)] Cons.prems(2) c v(2) by (auto simp: sanitize_server_text_def)
qed (simp add: sanitize_server_text_def)

lemma padded_mono:
  assumes "a \<le> b"
  shows "a + pad_to_word a \<le> b + pad_to_word b"
proof -
  obtain x y where xy: "a + pad_to_word a = 8 * x" "b + pad_to_word b = 8 * y"
    using pad_to_word_aligns [of a] pad_to_word_aligns [of b] by (auto elim!: dvdE simp flip: dvd_eq_mod_eq_0)
  have "8 * x < 8 * y + 8" using assms xy pad_to_word_less [of a] by linarith
  then show ?thesis unfolding xy by presburger
qed

lemma sanitized_fits:
  assumes "decode_text kind Strict m data = Inr (s, n)"
  shows "fits n (encode_text (PStr (sanitize_server_text s)) (Some m))"
proof -
  obtain bs where bs: "encode_text (PStr s) (Some m) = Inr bs" "length bs = n"
    using text_writes [OF assms] by (auto simp: writes_iff)
  then obtain u where u: "utf8_encode s = Inr u" "length u \<le> m" "0 \<notin> set u" "n = length u + 1 + pad_to_word (length u + 1)"
    by (auto simp: encode_text_eq_Inr)
  obtain u' where u': "utf8_encode (sanitize_server_text s) = Inr u'" "length u' \<le> length u" "0 \<notin> set u'"
    using utf8_encode_sanitized [OF u(1,3)] by blast
  have "length u' + 1 + pad_to_word (length u' + 1) \<le> n" using padded_mono [of "length u' + 1" "length u + 1"] u(4) u'(2) by simp
  then show ?thesis using u' u(2) pad_to_word_aligns [of "length u' + 1"] by (auto simp: fits_iff encode_text_eq_Inr)
qed

lemma recovered_record:
  assumes "recover_trailing_failure_record data k = Inr (Some (c, m))"
  obtains off n where "decode_uint64 (take 8 (drop off data)) = Inr c"
    "decode_text IsBytes Strict MAX_FAILURE_MESSAGE_SIZE (drop (off + 8) data) = Inr (m, n)"
proof -
  have "trailing_record data (nat k) = Inr (Some (c, m))"
    using assms by (auto simp: recover_trailing_failure_record_def split: if_splits sum.splits)
  then show ?thesis using that by (auto simp: trailing_record_def bind_inv split: if_splits)
qed

lemma FailureResponse_decode_record:
  assumes "FailureResponse_decode_body data sc = Inr r"
  obtains off n c m where "decode_uint64 (take 8 (drop off data)) = Inr c"
    "decode_text IsBytes Strict MAX_FAILURE_MESSAGE_SIZE (drop (off + 8) data) = Inr (m, n)"
    "r = FailureResponse c (sanitize_server_text m)"
proof -
  obtain c m n c' m' where d: "decode_uint64 (take 8 data) = Inr c"
    "decode_text IsBytes Strict MAX_FAILURE_MESSAGE_SIZE (drop 8 data) = Inr (m, n)"
    "r = FailureResponse c' (sanitize_server_text m')"
    and "(c', m') = (c, m) \<or> recover_trailing_failure_record data c = Inr (Some (c', m'))"
    using assms by (auto simp: FailureResponse_decode_body_def FailureResponse_init_def bindE_eq_Inr split: if_splits option.splits)
  from this(4) show ?thesis
  proof
    assume "(c', m') = (c, m)"
    then show ?thesis using d that [of 0] by simp
  next
    assume "recover_trailing_failure_record data c = Inr (Some (c', m'))"
    then show ?thesis using d(3) that recovered_record by metis
  qed
qed

lemma FailureResponse_fits:
  assumes "FailureResponse_decode_body data sc = Inr r"
  shows "fits (length data) (response_encode_body iso_ok r)"
  using assms
proof (rule FailureResponse_decode_record)
  fix off n c m
  assume d: "decode_uint64 (take 8 (drop off data)) = Inr c"
    "decode_text IsBytes Strict MAX_FAILURE_MESSAGE_SIZE (drop (off + 8) data) = Inr (m, n)"
    "r = FailureResponse c (sanitize_server_text m)"
  then show ?thesis
    using uint64_writes [OF d(1)] sanitized_fits [OF d(2)] decode_text_consumed [OF d(2)]
    by (auto simp: FailureResponse_encode_body_def writes_iff fits_iff)
qed

lemma LeaderResponse_writes:
  "LeaderResponse_decode_body data sc = Inr r \<Longrightarrow> writes (length data) (response_encode_body iso_ok r)"
  by (auto simp: LeaderResponse_decode_body_def LeaderResponse_init_def bind_inv LeaderResponse_encode_body_def writes_iff
      dest!: uint64_writes text_writes split: if_splits)

lemma StmtResponse_writes:
  assumes "StmtResponse_decode_body data sc = Inr r"
  shows "writes (length data) (response_encode_body iso_ok r)"
proof -
  obtain db stmt n tail s where d: "sc = 0 \<or> sc = 1" "length data = (if sc = 1 then 24 else 16)"
    "decode_uint32 data = Inr db" "decode_uint32 (drop 4 data) = Inr stmt"
    "decode_uint64 (drop 8 data) = Inr n" "n \<le> int MAX_PARAM_COUNT"
    "(if sc = 1 then bindE (decode_uint64 (drop 16 data)) (\<lambda>t. Inr (Some t)) else Inr None) = Inr tail"
    "case tail of None \<Rightarrow> True | Some t \<Rightarrow> t \<le> int MAX_TAIL_OFFSET"
    "StmtResponse_init (PInt db) (PInt stmt) (PInt n) (map_option PInt tail) (Some sc) = Inr s" "r = StmtResponse s"
    using assms by (auto simp: StmtResponse_decode_body_def bindE_eq_Inr not_less split: if_splits option.splits)
  have s: "stmt_db s = db" "stmt_statement s = stmt" "num_params s = n" "stmt_schema s = Some sc"
    "tail_offset s = (if sc = 1 then tail else None)"
    using d(1,7,9) by (auto simp: StmtResponse_init_def bindE_eq_Inr split: if_splits option.splits)
  have t: "writes 8 (encode_uint64 (PInt t))" if "sc = 1" "tail = Some t" for t
    using d(7) that uint64_writes by (auto simp: bindE_eq_Inr)
  have "sc = 1 \<Longrightarrow> tail \<noteq> None" using d(7) by (auto simp: bindE_eq_Inr)
  then show ?thesis
    using id_pair_writes [OF d(3,4)] uint64_writes [OF d(5)] t d(1,2,6,8,10) s
    by (auto simp: StmtResponse_encode_body_def stmt_get_schema_def writes_iff Let_def)
qed

lemma decode_files_write:
  assumes "decode_files view n offset files = Inr (files', offset')"
  shows "\<exists>fs. files' = files @ fs \<and> length fs = n \<and> offset \<le> offset' \<and> writes (offset' - offset) (encode_files fs)"
  using assms
proof (induction view n offset files rule: decode_files.induct)
  case (2 view n offset files)
  then obtain nm c len where d: "decode_text IsView Strict MAX_FILENAME_SIZE (drop offset view) = Inr (nm, c)"
    "decode_uint64 (drop (offset + c) view) = Inr len" "len mod 8 = 0" "len \<le> int MAX_FILE_CONTENT_SIZE"
    "int (offset + c + 8) + len \<le> int (length view)" "nm \<notin> fst ` set files"
    and r: "decode_files view n (offset + c + 8 + nat len) (files @ [(nm, take (nat len) (drop (offset + c + 8) view))])
      = Inr (files', offset')"
    by (auto simp: bindE_eq_Inr Let_def not_less split: if_splits)
  define content where "content = take (nat len) (drop (offset + c + 8) view)"
  have len: "0 \<le> len" "len < 2 ^ 64" using decode_uint64_range [OF d(2)] by simp_all
  then have "int (length content) = len" using d(5) by (simp add: content_def)
  moreover have "length content mod 8 = 0" "length content \<le> MAX_FILE_CONTENT_SIZE" using calculation d(3,4) by presburger+
  moreover obtain fs where fs: "files' = (files @ [(nm, content)]) @ fs" "length fs = n" "offset + c + 8 + nat len \<le> offset'"
      "writes (offset' - (offset + c + 8 + nat len)) (encode_files fs)"
    using "2.IH" [OF d(1) refl d(2)] d r by (auto simp: not_less content_def)
  ultimately show ?case
    using text_writes [OF d(1)] uint64_writes [OF d(2)]
    by (intro exI [of _ "(nm, content) # fs"]) (auto simp: writes_iff)
qed simp

lemma decode_nodes_write:
  assumes "decode_nodes policy view n offset seen nodes = Inr (nodes', offset')"
  shows "\<exists>ns. nodes' = nodes @ ns \<and> length ns = n \<and> offset \<le> offset' \<and> writes (offset' - offset) (encode_nodes ns)"
  using assms
proof (induction n arbitrary: offset seen nodes)
  case (Suc n)
  then obtain i a c raw ro where d: "decode_uint64 (drop offset view) = Inr i"
    "decode_text IsView Strict MAX_ADDRESS_SIZE (drop (offset + 8) view) = Inr (a, c)"
    and r: "decode_nodes policy view n (offset + 8 + c + 8) (i # seen) (nodes @ [\<lparr>node_id = i, address = a, role = ro\<rparr>])
      = Inr (nodes', offset')"
    by (auto simp: bindE_eq_Inr NodeInfo_init_def split: if_splits option.splits)
  obtain ns where ns: "nodes' = (nodes @ [\<lparr>node_id = i, address = a, role = ro\<rparr>]) @ ns" "length ns = n"
      "offset + 8 + c + 8 \<le> offset'" "writes (offset' - (offset + 8 + c + 8)) (encode_nodes ns)"
    using Suc.IH [OF r] by blast
  have "0 \<le> node_role_code ro" "node_role_code ro < 2 ^ 64" by (cases ro; simp)+
  then have "writes 8 (encode_uint64 (PInt (node_role_code ro)))" by (simp add: writes_iff encode_uint64_eq_Inr)
  then show ?case
    using ns uint64_writes [OF d(1)] text_writes [OF d(2)]
    by (intro exI [of _ "\<lparr>node_id = i, address = a, role = ro\<rparr> # ns"]) (auto simp: writes_iff)
qed simp

lemma containers_write:
  "FilesResponse_decode_body data sc = Inr r \<Longrightarrow> writes (length data) (response_encode_body iso_ok r)"
  "ServersResponse_decode_body policy data sc = Inr r \<Longrightarrow> writes (length data) (response_encode_body iso_ok r)"
proof -
  assume a: "FilesResponse_decode_body data sc = Inr r"
  then obtain c fs where c: "decode_uint64 data = Inr c" "c \<le> int MAX_FILE_COUNT"
      and f: "decode_files data (nat c) 8 [] = Inr (fs, length data)" "r = FilesResponse fs"
    by (auto simp: FilesResponse_decode_body_def bindE_eq_Inr not_less split: if_splits)
  have "0 \<le> c" using decode_uint64_range [OF c(1)] by simp
  then show "writes (length data) (response_encode_body iso_ok r)"
    using decode_files_write [OF f(1)] uint64_writes [OF c(1)] c(2) f(2)
    by (auto simp: FilesResponse_encode_body_def writes_iff)
next
  assume a: "ServersResponse_decode_body policy data sc = Inr r"
  then obtain c ns where c: "decode_uint64 data = Inr c" "c \<le> int MAX_NODE_COUNT"
      and n: "decode_nodes policy data (nat c) 8 [] [] = Inr (ns, length data)" "r = ServersResponse ns"
    by (auto simp: ServersResponse_decode_body_def bindE_eq_Inr not_less split: if_splits)
  have "0 \<le> c" using decode_uint64_range [OF c(1)] by simp
  then show "writes (length data) (response_encode_body iso_ok r)"
    using decode_nodes_write [OF n(1)] uint64_writes [OF c(1)] c(2) n(2)
    by (auto simp: ServersResponse_encode_body_def writes_iff)
qed

lemma word_pair_writes:
  "decode_uint64 data = Inr a \<Longrightarrow> decode_uint64 data' = Inr b \<Longrightarrow> writes 16 (word_pair a b)"
  by (auto simp: word_pair_def writes_iff dest!: uint64_writes)

lemma DbResponse_writes: "decode_uint32 data = Inr a \<Longrightarrow> writes 8 (DbResponse_encode_body a)"
  using decode_uint32_range [of data a] by (auto simp: DbResponse_encode_body_def writes_iff id_pair_eq_Inr)

lemma words_write:
  "WelcomeResponse_decode_body data sc = Inr r \<Longrightarrow> writes (length data) (response_encode_body iso_ok r)"
  "DbResponse_decode_body data sc = Inr r \<Longrightarrow> writes (length data) (response_encode_body iso_ok r)"
  "ResultResponse_decode_body data sc = Inr r \<Longrightarrow> writes (length data) (response_encode_body iso_ok r)"
  "EmptyResponse_decode_body data sc = Inr r \<Longrightarrow> writes (length data) (response_encode_body iso_ok r)"
  "MetadataResponse_decode_body data sc = Inr r \<Longrightarrow> writes (length data) (response_encode_body iso_ok r)"
  by (auto simp: WelcomeResponse_decode_body_def WelcomeResponse_init_def DbResponse_decode_body_def DbResponse_init_def
      ResultResponse_decode_body_def ResultResponse_init_def EmptyResponse_decode_body_def
      MetadataResponse_decode_body_def MetadataResponse_init_def bindE_eq_Inr encode_uint64_eq_Inr writes_iff [of 8 "encode_uint64 (PInt 0)"]
      intro: uint64_writes DbResponse_writes word_pair_writes split: if_splits)

lemma response_fits:
  assumes "response_decode_body Strict max_rows policy rt data sc = Inr r" and "length data mod 8 = 0"
    and "iso_cells iso_ok (Response r)"
  shows "fits (length data) (response_encode_body iso_ok r)"
proof (cases "rt = RS_FAILURE")
  case True
  then show ?thesis using assms(1) FailureResponse_fits by simp
next
  case False
  then have "writes (length data) (response_encode_body iso_ok r)"
    using assms(1,3) by (cases rt) (auto simp: bindE_eq_Inr intro: LeaderResponse_writes StmtResponse_writes
        RowsResponse_writes containers_write words_write)
  then show ?thesis using assms(2) by (rule writes_fits) simp
qed

subsection \<open>Frames\<close>

lemma message_encode_fits:
  assumes "fits n res" and "n div 8 < 2 ^ 32" and "0 \<le> mt" "mt < 256" and "0 \<le> sc" "sc < 256"
  obtains f where "message_encode res mt sc = Inr f" and "length f \<le> 8 + n"
proof -
  obtain body where b: "res = Inr body" "length body mod 8 = 0" "length body \<le> n" using assms(1) by (auto simp: fits_iff)
  then have "length body div 8 < 2 ^ 32" using assms(2) by (meson div_le_mono le_less_trans)
  then show ?thesis using that assms b by (auto simp: message_encode_eq_Inr)
qed

lemma request_type_code_range: "0 \<le> request_type_code t \<and> request_type_code t < 256"
  by (cases t) simp_all

lemma response_type_code_range: "0 \<le> response_type_code t \<and> response_type_code t < 256"
  by (cases t) simp_all

lemma decode_frame_parts:
  assumes "decode_frame d data = Inr m"
  obtains h body where "decode_frame_body d h body = Inr m" "length data = 8 + length body" "length body mod 8 = 0"
    "length body div 8 < 2 ^ 32" "0 \<le> schema h" "schema h < 256"
proof -
  obtain h where h: "header_decode (take 8 data) = Inr h" "int (length data) = 8 + body_size h" "8 \<le> length data"
    and b: "decode_frame_body d h (take (nat (body_size h)) (drop 8 data)) = Inr m"
    using assms by (auto simp: decode_frame_def bindE_eq_Inr Let_def not_less split: if_splits)
  have "length (take 8 data) = 8" using h(3) by simp
  then have f: "0 \<le> size_words h" "size_words h < 2 ^ 32" "0 \<le> schema h" "schema h < 256"
    using h(1) by (auto simp: header_decode_def Header_PInt split: if_splits)
  obtain w where w: "size_words h = int w" using f(1) nonneg_int_cases by blast
  then have "length data = 8 + 8 * w" using h(2) by (simp add: body_size_def)
  then show ?thesis using that [OF b] f w by (simp add: body_size_def)
qed

lemma decoded_encodes:
  assumes "decode_frame d data = Inr m" and "dec_text_errors d = Strict" and "iso_cells iso_ok m"
    and "\<not> (dec_version d = Some PROTOCOL_VERSION_LEGACY \<and> (\<exists>n a. m = Response (LeaderResponse n a)))"
  obtains f where "encode_frame iso_ok m = Inr f" and "length f \<le> max 24 (length data)"
  using assms(1)
proof (rule decode_frame_parts)
  fix h body
  assume b: "decode_frame_body d h body = Inr m" "length data = 8 + length body" "length body mod 8 = 0"
    "length body div 8 < 2 ^ 32" "0 \<le> schema h" "schema h < 256"
  have w: "max 16 (length body) div 8 < 2 ^ 32" using b(4) by (simp add: max_def)
  show thesis
  proof (cases m)
    case (Request r)
    then obtain rt where r: "request_decode_body rt body (schema h) = Inr r"
      using b(1) by (auto simp: decode_frame_body_def bindE_eq_Inr split: if_splits option.splits)
    have "request_get_schema r = schema h" using request_decode_decoded [OF r] by (simp add: request_decoded_def)
    moreover have t: "0 \<le> request_type_code (request_MSG_TYPE r)" "request_type_code (request_MSG_TYPE r) < 256"
      using request_type_code_range by blast+
    obtain f where "message_encode (request_encode_body iso_ok r) (request_type_code (request_MSG_TYPE r)) (schema h) = Inr f"
      "length f \<le> 8 + max 16 (length body)"
      using message_encode_fits [OF request_fits [OF r b(3)] w t b(5,6)] .
    ultimately show thesis using that [of f] Request b(2) by (simp add: request_encode_def)
  next
    case (Response r)
    have l: "\<exists>n a. r' = LeaderResponse n a" if "LeaderResponse_decode_body_legacy body = Inr r'" for r'
      using that by (auto simp: LeaderResponse_decode_body_legacy_def LeaderResponse_init_def bindE_eq_Inr split: if_splits)
    obtain rt where r: "response_decode_body Strict (dec_max_rows d) (unknown_role_policy d) rt body (schema h) = Inr r"
      using b(1) Response assms(2,4) l by (auto simp: decode_frame_body_def bindE_eq_Inr split: if_splits option.splits)
    have "response_get_schema r = schema h" using response_decode_decoded [OF r] by (simp add: response_decoded_def)
    moreover have t: "0 \<le> response_type_code (response_MSG_TYPE r)" "response_type_code (response_MSG_TYPE r) < 256"
      using response_type_code_range by blast+
    have "iso_cells iso_ok (Response r)" using assms(3) Response by simp
    then obtain f where "message_encode (response_encode_body iso_ok r) (response_type_code (response_MSG_TYPE r)) (schema h) = Inr f"
      "length f \<le> 8 + length body"
      using message_encode_fits [OF response_fits [OF r b(3)] b(4) t b(5,6)] by metis
    ultimately show thesis using that [of f] Response b(2) by (simp add: response_encode_def)
  qed
qed

lemma decoded_sendable:
  assumes "decode_frame d data = Inr m" and "1 \<le> dec_max_rows d"
    and "\<not> (dec_version d = Some PROTOCOL_VERSION_LEGACY \<and> (\<exists>n a. m = Response (LeaderResponse n a)))"
  shows "sendable d m" and "message_image m = m"
proof -
  show "message_image m = m" using decode_frame_delivers [OF assms(1)] by (simp add: deliverable_def)
  obtain h body where b: "decode_frame_body d h body = Inr m" using decode_frame_parts [OF assms(1)] .
  show "sendable d m"
  proof (cases m)
    case (Request r)
    then show ?thesis using b
      by (auto simp: decode_frame_body_def bindE_eq_Inr request_decoded_def dest!: request_decode_decoded REQUEST_TYPES_dom
          split: if_splits option.splits)
  next
    case (Response r)
    have "(\<exists>n a. r = LeaderResponse n a) \<longleftrightarrow> response_MSG_TYPE r = RS_LEADER" by (cases r) simp_all
    then show ?thesis using b Response assms(2,3)
      by (auto simp: decode_frame_body_def bindE_eq_Inr response_decoded_def
          dest!: response_decode_decoded LeaderResponse_decoded(2) split: if_splits option.splits)
  qed
qed

subsection \<open>Bytes that change\<close>

text \<open>
  The hints a decoded request keeps do not cover the tags: a parameter sent as ISO8601 decodes to
  a \<^verbatim>\<open>str\<close> and is written again as TEXT (tag 10 becomes 3).
\<close>

lemma iso_param_retagged:
  "bindE (request_decode_body RT_EXEC
      [1, 0, 0, 0, 2, 0, 0, 0, 1, 10, 0, 0, 0, 0, 0, 0, 97, 0, 0, 0, 0, 0, 0, 0] 0) (request_encode_body iso_ok)
    = Inr [1, 0, 0, 0, 2, 0, 0, 0, 1, 3, 0, 0, 0, 0, 0, 0, 97, 0, 0, 0, 0, 0, 0, 0]"
  by code_simp

section \<open>Properties\<close>

text \<open>
  C8 (decode_normal_form): whatever peer wrote a frame, the message a strict decoder returns for it
  can be written again, in no more bytes than the frame had, or 24 if that is more (a legacy 8-byte
  \<^verbatim>\<open>PROMOTE\<close> body grows to the two words of \<^verbatim>\<open>ASSIGN\<close>), and the bytes written decode to the same
  message if they fit the size cap:
  padding, reserved bytes, trailing failure text and roles are normalised by one pass.  Excluded
  are ISO8601 cells whose text \<^verbatim>\<open>datetime.fromisoformat\<close> refuses and the leader reply of the
  legacy protocol, whose two-word form a legacy reader does not take.
\<close>

theorem decode_normal_form:
  assumes "decoder_inv d" and "dec_text_errors d = Strict" and "1 \<le> dec_max_rows d"
    and "decode_bytes d data = Inr m" and "iso_cells iso_ok m"
    and "\<not> (dec_version d = Some PROTOCOL_VERSION_LEGACY \<and> (\<exists>n a. m = Response (LeaderResponse n a)))"
  shows "\<exists>f. encode_frame iso_ok m = Inr f \<and> length f \<le> max 24 (length data)
    \<and> (int (length f) \<le> dec_max_message_size d \<longrightarrow> decode_bytes d f = Inr m)"
proof -
  have d: "decode_frame d data = Inr m" "poisoned (dec_buffer d) = None" "handshake_done d"
    using assms(4) by (auto simp: decode_bytes_def check_poisoned_def bindE_eq_Inr split: if_splits option.splits)
  obtain f where f: "encode_frame iso_ok m = Inr f" "length f \<le> max 24 (length data)"
    using decoded_encodes [OF d(1) assms(2,5,6)] .
  have "unknown_role_policy d \<in> {''reject'', ''warn'', ''accept''}" using assms(1) by (simp add: decoder_inv_defs)
  then have "int (length f) \<le> dec_max_message_size d \<longrightarrow> decode_frame d f = Inr m"
    using frame_roundtrip [OF f(1) decoded_sendable(1) [OF d(1) assms(3,6)]] decoded_sendable(2) [OF d(1) assms(3,6)] by simp
  then show ?thesis using f d(2,3) by (auto simp: decode_bytes_def check_poisoned_def)
qed

text \<open>A text cell with non-zero padding and non-zero reserved header bytes.\<close>

theorem decode_normal_form_witness:
  "\<exists>f. encode_frame (\<lambda>_. False) (Response (RowsResponse \<lparr>column_names = [[97]], column_types = [TEXT],
        row_types = [[TEXT]], rows = [[PStr [233]]], has_more = False\<rparr>)) = Inr f
     \<and> length f \<le> 48 \<and> decode_bytes (sample_decoder False []) f
        = Inr (Response (RowsResponse \<lparr>column_names = [[97]], column_types = [TEXT],
            row_types = [[TEXT]], rows = [[PStr [233]]], has_more = False\<rparr>))"
proof -
  let ?m = "Response (RowsResponse \<lparr>column_names = [[97]], column_types = [TEXT],
        row_types = [[TEXT]], rows = [[PStr [233]]], has_more = False\<rparr>)"
  let ?data = "[5, 0, 0, 0, 7, 0, 1, 2, 1, 0, 0, 0, 0, 0, 0, 0, 97, 0, 9, 9, 0, 0, 0, 0,
        3, 0, 0, 0, 0, 0, 5, 0, 0xC3, 0xA9, 0, 1, 1, 1, 1, 1, 0xFF, 0xFF, 0xFF, 0xFF, 0xFF, 0xFF, 0xFF, 0xFF] :: bytes"
  have "decode_bytes (sample_decoder False []) ?data = Inr ?m" by code_simp
  moreover have "decoder_inv (sample_decoder False [])" using sample_idle [of "[]"] by (simp add: decoder_idle_def)
  ultimately show ?thesis
    using decode_normal_form [of "sample_decoder False []" ?data ?m "\<lambda>_. False"] by (auto simp: iso_cell_def)
qed

end
