(* ===== verification/Draining.thy ===== *)
theory Draining
  imports Sessions
begin

text \<open>
  The loop a client runs after each \<^verbatim>\<open>feed\<close>: while \<^verbatim>\<open>has_message()\<close>, take the next message with
  \<^verbatim>\<open>decode()\<close>, or with \<^verbatim>\<open>decode_continuation()\<close> inside a result set.  \<^verbatim>\<open>has_message\<close> promises it
  ("the caller's \<^verbatim>\<open>while has_message():\<close> loop reaches the consume call, where the error actually
  surfaces").  Nothing in the loop bounds it, so it is a partial function of the decoder; that it
  returns is proved.
\<close>

section \<open>Definitions\<close>

text \<open>The consume call: which one is due, the decoder knows.\<close>

definition receive :: "message option decoder_op" where
  "receive d =
     (if continuation_expected d then
        (case decode_continuation d of
           (Inl e, d') \<Rightarrow> (Inl e, d')
         | (Inr r, d') \<Rightarrow> (Inr (map_option Response r), d'))
      else decode d)"

text \<open>The messages delivered, the exception that ended the loop if there was one, the decoder after it.\<close>

partial_function (option) drain :: "message_decoder \<Rightarrow> (message list \<times> exc option \<times> message_decoder) option" where
  "drain d =
     (if decoder_has_message d then
        (case receive d of
           (Inl e, d') \<Rightarrow> Some ([], Some e, d')
         | (Inr m, d') \<Rightarrow>
             Option.bind (drain d') (\<lambda>(ms, stop, d''). Some (case_option [] (\<lambda>m. [m]) m @ ms, stop, d'')))
      else Some ([], None, d))"

section \<open>Lemmas\<close>

text \<open>Decoding reads the configuration only, which the calls of the loop leave alone.\<close>

definition same_config :: "message_decoder \<Rightarrow> message_decoder \<Rightarrow> bool" where
  "same_config d d' \<longleftrightarrow> is_request d' = is_request d \<and> dec_version d' = dec_version d
     \<and> dec_text_errors d' = dec_text_errors d \<and> dec_max_rows d' = dec_max_rows d
     \<and> unknown_role_policy d' = unknown_role_policy d \<and> dec_max_message_size d' = dec_max_message_size d"

lemma same_config_buffer [simp]: "same_config d (d'\<lparr>dec_buffer := b\<rparr>) = same_config d d'"
  by (simp add: same_config_def)

lemma same_config_refl [simp]: "same_config d d"
  by (simp add: same_config_def)

lemma decode_frame_config: "same_config d d' \<Longrightarrow> decode_frame d' f = decode_frame d f"
  unfolding decode_frame_def decode_frame_body_def same_config_def by (simp cong: if_cong option.case_cong)

lemma start_continuation_keeps: "start_continuation d m = Inr d' \<Longrightarrow> dec_buffer d' = dec_buffer d \<and> same_config d d'"
  by (auto simp: start_continuation_def same_config_def split: message.splits response.splits if_splits)

lemma continuation_body_returns:
  assumes "continuation_body f d = (Inr r, d')"
  obtains (empty) h where "header_decode (take 8 f) = Inr h" "msg_type h = 8" "\<not> max_schema (is_request d) 8 < schema h"
      "EmptyResponse_decode_body (take (nat (body_size h)) (drop 8 f)) (schema h) = Inr r" "d' = finalize_continuation_state d"
  | (rows) h q where "header_decode (take 8 f) = Inr h" "msg_type h = 7" "\<not> max_schema (is_request d) 7 < schema h"
      "RowsResponse_decode_body (dec_text_errors d) (dec_max_rows d) (take (nat (body_size h)) (drop 8 f)) (schema h) = Inr q"
      "r = RowsResponse q" "continue_rows q d = (Inr r, d')"
proof (cases "header_decode (take 8 f)")
  case (Inl e)
  then show ?thesis using assms by (simp add: continuation_body_def)
next
  case (Inr h)
  let ?b = "take (nat (body_size h)) (drop 8 f)"
  consider (empty') "msg_type h = 8" "\<not> max_schema (is_request d) 8 < schema h"
    | (rows') "msg_type h = 7" "\<not> max_schema (is_request d) 7 < schema h"
    using assms Inr by (auto simp: continuation_body_def Let_def split: if_splits sum.splits)
  then show ?thesis
  proof cases
    case empty'
    then show ?thesis using empty [OF Inr] assms Inr
      by (cases "EmptyResponse_decode_body ?b (schema h)") (simp_all add: continuation_body_def Let_def)
  next
    case rows'
    then show ?thesis using rows [OF Inr] assms Inr
      by (cases "RowsResponse_decode_body (dec_text_errors d) (dec_max_rows d) ?b (schema h)")
        (auto simp: continuation_body_def continue_rows_def Let_def split: if_splits)
  qed
qed

text \<open>A frame that a continuation accepts is one \<^verbatim>\<open>decode_bytes\<close> decodes to the same response.\<close>

lemma continuation_body_frame:
  assumes "continuation_body f d = (Inr r, d')" and "\<not> is_request d" and "is_frame f"
    and "int (length f) \<le> dec_max_message_size d"
  shows "decode_frame d f = Inr (Response r) \<and> dec_buffer d' = dec_buffer d \<and> same_config d d'"
proof -
  note f = conjunct1 [OF assms(3) [unfolded is_frame_def]] conjunct2 [OF assms(3) [unfolded is_frame_def]]
  have size: "int (length f) = 8 + body_size h" if "header_decode (take 8 f) = Inr h" for h
  proof -
    have "size_words h = int (le_nat (take 4 f))" using that f(1) by (auto simp: header_decode_eq)
    then show ?thesis using f(2) by (simp only: body_size_def)
  qed
  from assms(1) show ?thesis
  proof (cases rule: continuation_body_returns)
    case (empty h)
    then have "decode_frame_body d h (take (nat (body_size h)) (drop 8 f)) = Inr (Response r)"
      using assms(2) RESPONSE_TYPES_code [of RS_EMPTY] by (simp add: decode_frame_body_def)
    then show ?thesis using size [OF empty(1)] empty(1,5) f(1) assms(2,4)
      by (simp add: decode_frame_def finalize_response same_config_def)
  next
    case (rows h q)
    then have "decode_frame_body d h (take (nat (body_size h)) (drop 8 f)) = Inr (Response r)"
      using assms(2) RESPONSE_TYPES_code [of RS_ROWS] by (simp add: decode_frame_body_def)
    moreover have "dec_buffer d' = dec_buffer d \<and> same_config d d'"
      using rows(6) assms(2) by (auto simp: continue_rows_def Let_def finalize_response same_config_def split: if_splits)
    ultimately show ?thesis using size [OF rows(1)] rows(1) f(1) assms(4) by (simp add: decode_frame_def)
  qed
qed

lemma receive_message:
  assumes "decoder_inv d" and "decoder_has_message d" and "receive d = (Inr r, d')"
  obtains m f where "r = Some m" "unread d = f @ unread d'" "is_frame f" "decode_frame d f = Inr m" "same_config d d'"
proof -
  have alive: "poisoned (dec_buffer d) = None"
    using assms(3) by (auto simp: receive_def decode_def decode_continuation_def check_poisoned_def split: option.splits if_splits prod.splits)
  then have "fst (read_message (dec_buffer d)) \<noteq> Inr None" using assms(2) has_message_read by (simp add: decoder_has_message_def)
  moreover have "\<exists>x. fst (read_message (dec_buffer d)) = Inr x"
    using assms(3) by (cases "fst (read_message (dec_buffer d))")
      (auto simp: receive_def decode_def decode_continuation_def on_buffer_eq split: sum.splits if_splits prod.splits)
  ultimately obtain f b where f: "read_message (dec_buffer d) = (Inr (Some f), b)" by (metis not_None_eq prod.collapse)
  note frame = read_message_frame [OF alive f]
  then have u: "unread d = f @ pending b" by (metis append_take_drop_id pending_advance)
  show ?thesis
  proof (cases "continuation_expected d")
    case True
    then obtain m where m: "continuation_body f (d\<lparr>dec_buffer := b\<rparr>) = (Inr m, d')" "r = Some (Response m)"
      using assms(3) alive f by (auto simp: receive_def decode_continuation_def check_poisoned_def on_buffer_eq split: sum.splits prod.splits)
    have "\<not> is_request d" "int (length f) \<le> dec_max_message_size d"
      using assms(1) True frame by (auto simp: decoder_inv_defs)
    then show ?thesis using that [of "Response m" f] continuation_body_frame [OF m(1)] m(2) frame u
      by (auto simp: same_config_def)
  next
    case False
    then obtain m where m: "decode_bytes (d\<lparr>dec_buffer := b\<rparr>) f = Inr m" "start_continuation (d\<lparr>dec_buffer := b\<rparr>) m = Inr d'" "r = Some m"
      using assms(3) alive f by (auto simp: receive_def decode_def check_poisoned_def on_buffer_eq bindE_eq_Inr split: sum.splits if_splits prod.splits)
    then have "decode_frame d f = Inr m" by (auto simp: decode_bytes_def bindE_eq_Inr split: if_splits)
    then show ?thesis using that [of m f] start_continuation_keeps [OF m(2)] m(3) frame u by (auto simp: same_config_def)
  qed
qed

lemma receive_inv: "decoder_inv d \<Longrightarrow> decoder_inv (snd (receive d))"
  using decode_inv [of d] decode_continuation_inv [of d] by (auto simp: receive_def split: sum.splits prod.splits)

text \<open>What one run of the loop amounts to.\<close>

definition drained :: "message_decoder \<Rightarrow> message list \<Rightarrow> exc option \<Rightarrow> message_decoder \<Rightarrow> bool" where
  "drained d ms stop d' \<longleftrightarrow> (\<exists>fs rest. unread d = concat fs @ rest
     \<and> list_all2 (\<lambda>f m. is_frame f \<and> decode_frame d f = Inr m) fs ms
     \<and> (stop = None \<longrightarrow> rest = unread d' \<and> \<not> decoder_has_message d'))"

lemma drained_Cons:
  assumes "unread d = f @ unread d1" and "is_frame f" and "decode_frame d f = Inr m" and "same_config d d1"
    and "drained d1 ms stop d'"
  shows "drained d (m # ms) stop d'"
proof -
  obtain fs rest where "unread d1 = concat fs @ rest" "list_all2 (\<lambda>f m. is_frame f \<and> decode_frame d1 f = Inr m) fs ms"
    "stop = None \<longrightarrow> rest = unread d' \<and> \<not> decoder_has_message d'"
    using assms(5) by (auto simp: drained_def)
  then show ?thesis using assms(1-3) decode_frame_config [OF assms(4)]
    unfolding drained_def by (intro exI [of _ "f # fs"] exI [of _ rest]) simp
qed

lemma drain_drained:
  assumes "decoder_inv d"
  shows "\<exists>ms stop d'. drain d = Some (ms, stop, d') \<and> drained d ms stop d' \<and> decoder_inv d'"
  using assms
proof (induction "length (unread d)" arbitrary: d rule: less_induct)
  case less
  show ?case
  proof (cases "decoder_has_message d")
    case False
    then show ?thesis using less.prems
      by (subst drain.simps) (auto simp: drained_def intro: exI [of _ "[]"])
  next
    case True
    obtain res d1 where r: "receive d = (res, d1)" by (cases "receive d")
    have i: "decoder_inv d1" using receive_inv [OF less.prems] r by simp
    show ?thesis
    proof (cases res)
      case (Inl e)
      then show ?thesis using True r i
        by (subst drain.simps) (auto simp: drained_def intro: exI [of _ "[]"])
    next
      case (Inr o')
      obtain m f where m: "o' = Some m" "unread d = f @ unread d1" "is_frame f" "decode_frame d f = Inr m" "same_config d d1"
        using receive_message [OF less.prems True r [unfolded Inr]] .
      have "length f \<noteq> 0" using m(3) unfolding is_frame_def by linarith
      then have "length (unread d1) < length (unread d)" using m(2) by simp
      from less.hyps [OF this i] obtain ms stop d' where
        d': "drain d1 = Some (ms, stop, d')" "drained d1 ms stop d'" "decoder_inv d'" by blast
      then show ?thesis using True r Inr m(1) drained_Cons [OF m(2-5) d'(2)]
        by (subst drain.simps) simp
    qed
  qed
qed

section \<open>Properties\<close>

text \<open>
  C6 (drain_returns): the loop \<^verbatim>\<open>while decoder.has_message()\<close> around the consume call always
  returns, on any reachable decoder and whatever bytes it holds: \<^verbatim>\<open>has_message()\<close> never reports a
  message that the call then finds incomplete, and each call that returns consumes a frame.
  The messages it delivered are the decodings of consecutive frames at the front of the buffer,
  in order; an exception ends it, and without one the rest is still unread and holds no
  complete message.
\<close>

theorem drain_returns:
  assumes "decoder_reachable a d"
  shows "\<exists>ms stop d'. drain d = Some (ms, stop, d') \<and> (\<exists>fs rest. unread d = concat fs @ rest
    \<and> list_all2 (\<lambda>f m. is_frame f \<and> decode_frame d f = Inr m) fs ms
    \<and> (stop = None \<longrightarrow> rest = unread d' \<and> \<not> decoder_has_message d'))"
  using drain_drained [OF decoder_reachable_inv [OF assms]] unfolding drained_def by blast

text \<open>One frame and the first bytes of another.\<close>

theorem drain_returns_witness:
  "\<exists>ms stop d'. drain (decoder_step (DFeed [1, 0, 0, 0, 8, 0, 0, 0, 0, 0, 0, 0, 0, 0, 0, 0, 1, 0]) (sample_decoder False []))
     = Some (ms, stop, d')"
proof -
  have "decoder_reachable (sample_args False) (sample_decoder False [])" using sample_init by (rule decoder_reachable.init)
  from drain_returns [OF decoder_reachable.step [OF this, of "DFeed [1, 0, 0, 0, 8, 0, 0, 0, 0, 0, 0, 0, 0, 0, 0, 0, 1, 0]"]]
  show ?thesis by blast
qed

end
