(* ===== verification/Dialogue.thy ===== *)
theory Dialogue
  imports Draining
begin

text \<open>
  Everything a server answers on one connection: single responses, result sets in one or several
  frames, result sets cut off by a failure, result sets ended by \<^verbatim>\<open>EmptyResponse\<close> after an
  interrupt.  The client is the one of \<open>Draining\<close>: \<^verbatim>\<open>decode_continuation()\<close> inside a result set,
  \<^verbatim>\<open>decode()\<close> otherwise; \<^verbatim>\<open>ServerFailure\<close>, which the source documents as a clean end of the result
  set, is caught and the client reads on.
\<close>

section \<open>Definitions\<close>

subsection \<open>The client\<close>

datatype event = Delivered message | Failed int pystr

definition receive_caught :: "event option decoder_op" where
  "receive_caught d = (case receive d of
     (Inl (ServerFailure c m), d') \<Rightarrow> (Inr (Some (Failed c m)), d')
   | (Inl e, d') \<Rightarrow> (Inl e, d')
   | (Inr m, d') \<Rightarrow> (Inr (map_option Delivered m), d'))"

subsection \<open>The server\<close>

text \<open>
  A result set is given by its parts.  The parts before an abort or a cancellation all announce
  more, as the server had not reached the end.
\<close>

datatype reply =
    Single response
  | Table "rows_response list"
  | Aborted "rows_response list" int pystr
  | Cancelled "rows_response list"

fun written :: "reply \<Rightarrow> response list" where
  "written (Single r) = [r]"
| "written (Table qs) = map RowsResponse qs"
| "written (Aborted qs c m) = map RowsResponse qs @ [FailureResponse c m]"
| "written (Cancelled qs) = map RowsResponse qs @ [EmptyResponse]"

abbreviation part_event :: "rows_response \<Rightarrow> event" where
  "part_event q \<equiv> Delivered (Response (RowsResponse (rows_image q)))"

text \<open>What the client sees of a reply.\<close>

fun seen :: "reply \<Rightarrow> event list" where
  "seen (Single r) = [Delivered (Response (response_image r))]"
| "seen (Table qs) = map part_event qs"
| "seen (Aborted qs c m) = map part_event qs @ [Failed c (sanitize_server_text m)]"
| "seen (Cancelled qs) = map part_event qs @ [Delivered (Response EmptyResponse)]"

text \<open>The caps of the client for the parts of one result set, and its rule on column names.\<close>

definition fits_caps :: "message_decoder \<Rightarrow> rows_response list \<Rightarrow> bool" where
  "fits_caps d qs =
     (qs \<noteq> [] \<and> list_all (\<lambda>q. column_names q = column_names (hd qs) \<and> int (length (rows q)) < dec_max_rows d) qs
      \<and> within (max_continuation_frames d) (length qs)
      \<and> within (max_total_rows d) (sum_list (map (\<lambda>q. length (rows q)) qs)))"

fun acceptable :: "message_decoder \<Rightarrow> reply \<Rightarrow> bool" where
  "acceptable d (Single r) = (sendable d (Response r) \<and> complete (Response r))"
| "acceptable d (Table qs) = (fits_caps d qs \<and> parts qs)"
| "acceptable d (Aborted qs c m) = (fits_caps d qs \<and> list_all has_more qs \<and> response_valid (FailureResponse c m))"
| "acceptable d (Cancelled qs) = (fits_caps d qs \<and> list_all has_more qs)"

section \<open>Lemmas\<close>

subsection \<open>One frame\<close>

text \<open>\<open>receive_caught\<close> without the buffer: what becomes of a frame that has been taken.\<close>

definition consume :: "bytes \<Rightarrow> event decoder_op" where
  "consume f d =
     (if continuation_expected d then
        (case continuation_body f d of
           (Inl (ServerFailure c m), d') \<Rightarrow> (Inr (Failed c m), d')
         | (Inl e, d') \<Rightarrow> (Inl e, d')
         | (Inr r, d') \<Rightarrow> (Inr (Delivered (Response r)), d'))
      else
        (case bindE (decode_frame d f) (\<lambda>m. bindE (start_continuation d m) (\<lambda>d'. Inr (m, d'))) of
           Inl e \<Rightarrow> (Inl e, d)
         | Inr (m, d') \<Rightarrow> (Inr (Delivered m), d')))"

lemma continue_rows_buffer:
  "continue_rows r (d\<lparr>dec_buffer := b\<rparr>) = apsnd (\<lambda>d'. d'\<lparr>dec_buffer := b\<rparr>) (continue_rows r d)"
  by (simp add: continue_rows_def Let_def finalize_continuation_state_def)

lemma continuation_body_buffer:
  "continuation_body f (d\<lparr>dec_buffer := b\<rparr>) = apsnd (\<lambda>d'. d'\<lparr>dec_buffer := b\<rparr>) (continuation_body f d)"
  by (simp add: continuation_body_def continue_rows_buffer Let_def finalize_continuation_state_def split: sum.split)

lemma consume_buffer: "consume f (d\<lparr>dec_buffer := b\<rparr>) = apsnd (\<lambda>d'. d'\<lparr>dec_buffer := b\<rparr>) (consume f d)"
proof (cases "continuation_expected d")
  case True
  then show ?thesis
    by (cases "continuation_body f d") (auto simp: consume_def continuation_body_buffer split: sum.split exc.split)
next
  case False
  have "start_continuation (d\<lparr>dec_buffer := b\<rparr>) m
      = bindE (start_continuation d m) (\<lambda>d'. Inr (d'\<lparr>dec_buffer := b\<rparr>))" for m
    by (simp add: start_continuation_def split: message.split response.split)
  moreover have "decode_frame (d\<lparr>dec_buffer := b\<rparr>) f = decode_frame d f" by simp
  ultimately show ?thesis using False
    by (cases "decode_frame d f"; cases "start_continuation d (projr (decode_frame d f))") (simp_all add: consume_def)
qed

lemma consume_direction:
  assumes "consume f d = (res, d')"
  shows "is_request d' = is_request d"
proof -
  have "is_request (snd (continue_rows r d)) = is_request d" for r by (simp add: continue_rows_def Let_def)
  then have "is_request (snd (continuation_body f d)) = is_request d"
    by (simp add: continuation_body_def Let_def split: sum.split)
  moreover have "is_request d'' = is_request d" if "start_continuation d m = Inr d''" for m d''
    using start_continuation_keeps [OF that] by (simp add: same_config_def)
  ultimately show ?thesis using assms
    by (cases "continuation_body f d") (auto simp: consume_def bindE_eq_Inr split: if_splits sum.splits exc.splits)
qed

lemma receive_consume:
  assumes "poisoned (dec_buffer d) = None" and "handshake_done d" and "take_frame d = (Inr (Some f), d')"
    and "consume f d' = (Inr n, d'')"
  shows "receive_caught d = (Inr (Some n), d'')"
proof -
  obtain b where d': "d' = d\<lparr>dec_buffer := b\<rparr>" using on_buffer_update assms(3) unfolding take_frame_def by blast
  show ?thesis
  proof (cases "continuation_expected d")
    case True
    then show ?thesis using assms d'
      by (cases "continuation_body f d'")
        (auto simp: receive_caught_def receive_def decode_continuation_def check_poisoned_def take_frame_def consume_def
          continuation_except_def split: sum.splits exc.splits)
  next
    case False
    have "decode_frame d' f = decode_frame d f" "\<not> continuation_expected d'" using d' False by simp_all
    then show ?thesis using False assms
      by (auto simp: receive_caught_def receive_def decode_ready consume_def split: sum.splits)
  qed
qed

lemma receive_caught_state: "snd (receive_caught d) = snd (receive d)"
  by (auto simp: receive_caught_def split: prod.split sum.split exc.split)

lemma receive_waits:
  assumes "poisoned (dec_buffer d) = None" and "handshake_done d" and "take_frame d = (Inr None, d)"
  shows "receive_caught d = (Inr None, d)"
  using assms
  by (cases "continuation_expected d")
    (simp_all add: receive_caught_def receive_def decode_ready decode_continuation_def check_poisoned_def take_frame_def)

lemma receive_fails:
  assumes "poisoned (dec_buffer d) = None" and "handshake_done d" and "take_frame d = (Inl e, d')"
  shows "fst (receive_caught d) = Inl e"
proof -
  have "\<exists>k. e = DecodeError k"
    using assms(1,3) by (auto simp: take_frame_def on_buffer_eq read_message_eq Let_def split: if_splits)
  then show ?thesis using assms
    by (cases "continuation_expected d")
      (auto simp: receive_caught_def receive_def decode_ready decode_continuation_def check_poisoned_def take_frame_def)
qed

subsection \<open>Several frames\<close>

text \<open>The frames a decoder takes in from its present state to the end of a reply, whatever its buffer holds.\<close>

fun script :: "message_decoder \<Rightarrow> bytes list \<Rightarrow> event list \<Rightarrow> bool" where
  "script d [] ns = (ns = [] \<and> \<not> continuation_expected d)"
| "script d (f # fs) ns = (case consume f d of
     (Inl e, d') \<Rightarrow> False
   | (Inr n, d') \<Rightarrow> ns \<noteq> [] \<and> hd ns = n \<and> script d' fs (tl ns))"

lemma script_buffer [simp]: "script (d\<lparr>dec_buffer := b\<rparr>) fs ns = script d fs ns"
proof (induction fs arbitrary: d ns)
  case (Cons f fs)
  then show ?case by (cases "consume f d") (simp add: consume_buffer split: sum.split)
qed simp

lemma script_Cons: "consume f d = (Inr n, d') \<Longrightarrow> script d (f # fs) (n # ns) = script d' fs ns"
  by simp

lemma script_length: "script d fs ns \<Longrightarrow> length fs = length ns"
proof (induction fs arbitrary: d ns)
  case (Cons f fs)
  then show ?case by (cases ns) (auto split: prod.splits sum.splits)
qed simp

definition converses :: "message_decoder \<Rightarrow> bytes list \<Rightarrow> event list \<Rightarrow> bool" where
  "converses d fs ns = (decoder_inv d \<and> buffer_ready (dec_buffer d) \<and> \<not> is_request d
     \<and> list_all (\<lambda>f. is_frame f \<and> length f \<le> max_message_size (dec_buffer d)) fs \<and> script d fs ns)"

lemma converses_ready:
  assumes "converses d fs ns"
  shows "buffer_ready (dec_buffer d)" "poisoned (dec_buffer d) = None" "handshake_done d"
  using assms by (auto simp: converses_def buffer_ready_def decoder_inv_defs)

interpretation dialogue: scripted_reader decoder_feed take_frame unread "\<lambda>d. buffer_ready (dec_buffer d)"
    "\<lambda>d. max_message_size (dec_buffer d)" receive_caught converses
proof unfold_locales
  fix s fs ns
  assume c: "converses s fs ns"
  then show "buffer_ready (dec_buffer s)" by (rule converses_ready)
  have "length fs = length ns" using c by (auto simp: converses_def intro: script_length)
  then show "list_all2 (\<lambda>f n. is_frame f \<and> length f \<le> max_message_size (dec_buffer s)) fs ns"
    using c by (auto simp: converses_def list_all2_conv_all_nth list_all_length)
  show "receive_caught s = (Inr None, s)" if "take_frame s = (Inr None, s)"
    using receive_waits [OF converses_ready(2,3) [OF c] that] .
  show "fst (receive_caught s) = Inl e" if "take_frame s = (Inl e, s')" for e s'
    using receive_fails [OF converses_ready(2,3) [OF c] that] .
  show "converses s' fs ns" if f: "decoder_feed x s = (Inr u, s')" for x u s'
  proof -
    obtain b where b: "s' = s\<lparr>dec_buffer := b\<rparr>" using on_buffer_update f unfolding decoder_feed_def by blast
    note l = dec.feed_law [OF converses_ready(1) [OF c] f]
    have "decoder_inv s'" using buffer_update_inv [of s b] c l b by (simp add: converses_def buffer_ready_def)
    then show ?thesis using c l b by (simp add: converses_def)
  qed
next
  fix s f fs n ns s'
  assume c: "converses s (f # fs) (n # ns)" and t: "take_frame s = (Inr (Some f), s')"
  obtain b where b: "s' = s\<lparr>dec_buffer := b\<rparr>" using on_buffer_update t unfolding take_frame_def by blast
  note r = dec.read_some [OF converses_ready(1) [OF c] t]
  obtain d' where d': "consume f s = (Inr n, d')" "script d' fs ns"
    using c by (auto simp: converses_def split: prod.splits sum.splits)
  then have "receive_caught s = (Inr (Some n), d'\<lparr>dec_buffer := b\<rparr>)"
    using receive_consume [OF converses_ready(2,3) [OF c] t] b by (simp add: consume_buffer)
  moreover have "decoder_inv (d'\<lparr>dec_buffer := b\<rparr>)"
    using receive_inv [of s] receive_caught_state [of s] calculation c by (simp add: converses_def)
  ultimately show "\<exists>t. receive_caught s = (Inr (Some n), t) \<and> converses t fs ns \<and> unread t = unread s'"
    using c d' r b consume_direction [OF d'(1)] by (auto simp: converses_def)
qed

subsection \<open>One reply\<close>

text \<open>The decoder \<open>d\<close> in the middle of a result set, after \<open>k\<close> frames with \<open>n\<close> rows.\<close>

definition midway :: "pystr list \<Rightarrow> nat \<Rightarrow> nat \<Rightarrow> message_decoder \<Rightarrow> message_decoder" where
  "midway names k n d = d\<lparr>continuation_expected := True, continuation_frame_count := k, continuation_total_rows := n,
     continuation_column_count := Some (length names), continuation_column_names := Some names\<rparr>"

lemma midway_fields [simp]:
  "continuation_expected (midway names k n d)" "is_request (midway names k n d) = is_request d"
  "continuation_frame_count (midway names k n d) = k" "continuation_total_rows (midway names k n d) = n"
  "dec_max_rows (midway names k n d) = dec_max_rows d"
  by (simp_all add: midway_def)

lemma finalize_midway:
  assumes "decoder_idle d" and "\<not> is_request d"
  shows "finalize_continuation_state (midway names k n d) = d"
proof -
  have c: "continuation_frame_count d = 0" "continuation_total_rows d = 0" "continuation_column_names d = None"
    "continuation_column_count d = None" "\<not> continuation_expected d"
    using assms(1) by (simp_all add: decoder_idle_def decoder_inv_defs)
  have "finalize_continuation_state (midway names k n d) = d\<lparr>continuation_expected := False, continuation_frame_count := 0,
      continuation_total_rows := 0, continuation_column_count := None, continuation_column_names := None\<rparr>"
    using assms(2) by (simp add: finalize_response midway_def)
  also have "\<dots> = d" using c by simp
  finally show ?thesis .
qed

abbreviation sent :: "(pystr \<Rightarrow> bool) \<Rightarrow> message_decoder \<Rightarrow> response \<Rightarrow> bytes \<Rightarrow> bool" where
  "sent iso_ok d r f \<equiv> response_encode iso_ok r = Inr f \<and> int (length f) \<le> dec_max_message_size d"

lemma sent_frame:
  assumes "decoder_idle d" and "sent iso_ok d r f" and "sendable d (Response r)"
  shows "decode_frame d f = Inr (Response (response_image r))" and "is_frame f"
  using frame_roundtrip [of iso_ok "Response r" f d] assms by (auto simp: decoder_idle_def decoder_inv_defs)

lemma consume_first:
  assumes "decoder_idle d" and "sent iso_ok d (RowsResponse q) f" and "\<not> is_request d"
    and "int (length (rows q)) < dec_max_rows d" and "within (max_total_rows d) (length (rows q))"
  shows "consume f d = (Inr (part_event q),
    if has_more q then midway (column_names q) 1 (length (rows q)) d else d)"
proof -
  have "\<not> continuation_expected d" using assms(1) by (simp add: decoder_idle_def)
  moreover have "decode_frame d f = Inr (Response (RowsResponse (rows_image q)))"
    using sent_frame [OF assms(1,2)] assms(3,4) by simp
  ultimately show ?thesis using assms(5)
    by (simp add: consume_def start_continuation_def within_def midway_def)
qed

lemma consume_part:
  assumes "decoder_idle d" and "sent iso_ok d (RowsResponse q) f" and "\<not> is_request d"
    and "int (length (rows q)) < dec_max_rows d" and "column_names q = names"
    and "within (max_continuation_frames d) (Suc k)" and "within (max_total_rows d) (n + length (rows q))"
  shows "consume f (midway names k n d) = (Inr (part_event q),
    if has_more q then midway names (Suc k) (n + length (rows q)) d else d)"
proof -
  let ?d = "midway names k n d"
  have "continuation_body f ?d = continue_rows (rows_image q) ?d"
    using assms(2-4) by (intro continuation_body_rows) auto
  moreover have "continue_rows (rows_image q) ?d = (Inr (RowsResponse (rows_image q)),
      if has_more q then midway names (Suc k) (n + length (rows q)) d
      else finalize_continuation_state (midway names (Suc k) (n + length (rows q)) d))"
    using assms(5-7) by (subst continue_rows_ok) (simp_all add: midway_def finalize_continuation_state_def Let_def)
  ultimately show ?thesis by (simp add: consume_def finalize_midway [OF assms(1,3)])
qed

lemma consume_end:
  assumes "decoder_idle d" and "sent iso_ok d r f" and "\<not> is_request d" and "response_valid r"
  shows "r = FailureResponse c m \<Longrightarrow> consume f (midway names k n d) = (Inr (Failed c (sanitize_server_text m)), d)"
    and "r = EmptyResponse \<Longrightarrow> consume f (midway names k n d) = (Inr (Delivered (Response EmptyResponse)), d)"
proof -
  have e: "response_encode iso_ok r = Inr f" using assms(2) by simp
  assume r: "r = FailureResponse c m"
  then have acc: "response_acceptable (dec_max_rows d) r" by simp
  obtain h body where "header_decode (take 8 f) = Inr h" "take (nat (body_size h)) (drop 8 f) = body"
    "msg_type h = 0" "schema h = 0" "FailureResponse_decode_body body 0 = Inr (FailureResponse c (sanitize_server_text m))"
    by (rule response_frame [OF e assms(4) acc, where errors = Strict]) (use r in \<open>auto simp: bindE_eq_Inr\<close>)
  then have "continuation_body f (midway names k n d) = (Inl (ServerFailure c (sanitize_server_text m)), d)"
    using assms(3) finalize_midway [OF assms(1,3)]
    by (simp add: continuation_body_def Let_def max_schema_def RESPONSE_MAX_SCHEMA_def)
  then show "consume f (midway names k n d) = (Inr (Failed c (sanitize_server_text m)), d)"
    by (simp add: consume_def)
next
  have e: "response_encode iso_ok r = Inr f" using assms(2) by simp
  assume r: "r = EmptyResponse"
  then have acc: "response_acceptable (dec_max_rows d) r" by simp
  obtain h body where "header_decode (take 8 f) = Inr h" "take (nat (body_size h)) (drop 8 f) = body"
    "msg_type h = 8" "schema h = 0" "EmptyResponse_decode_body body 0 = Inr EmptyResponse"
    by (rule response_frame [OF e assms(4) acc, where errors = Strict]) (use r in \<open>auto simp: bindE_eq_Inr\<close>)
  then have "continuation_body f (midway names k n d) = (Inr EmptyResponse, d)"
    using assms(3) finalize_midway [OF assms(1,3)]
    by (simp add: continuation_body_def Let_def max_schema_def RESPONSE_MAX_SCHEMA_def)
  then show "consume f (midway names k n d) = (Inr (Delivered (Response EmptyResponse)), d)"
    by (simp add: consume_def)
qed

lemma script_parts:
  assumes "decoder_idle d" and "\<not> is_request d" and "list_all has_more qs"
    and "list_all2 (\<lambda>q. sent iso_ok d (RowsResponse q)) qs fs"
    and "list_all (\<lambda>q. column_names q = names \<and> int (length (rows q)) < dec_max_rows d) qs"
    and "within (max_continuation_frames d) (k + length qs)"
    and "within (max_total_rows d) (n + sum_list (map (\<lambda>q. length (rows q)) qs))"
  shows "script (midway names k n d) (fs @ gs) (map part_event qs @ ns)
    = script (midway names (k + length qs) (n + sum_list (map (\<lambda>q. length (rows q)) qs)) d) gs ns"
  using assms(3-)
proof (induction qs arbitrary: fs k n)
  case (Cons q qs)
  then obtain f fs' where fs: "fs = f # fs'" "sent iso_ok d (RowsResponse q) f"
    "list_all2 (\<lambda>q. sent iso_ok d (RowsResponse q)) qs fs'" by (auto simp: list_all2_Cons1)
  have "within (max_continuation_frames d) (Suc k)" "within (max_total_rows d) (n + length (rows q))"
    using within_mono [OF Cons.prems(4)] within_mono [OF Cons.prems(5)] by simp_all
  then have "consume f (midway names k n d) = (Inr (part_event q), midway names (Suc k) (n + length (rows q)) d)"
    using consume_part [OF assms(1) fs(2) assms(2), of names k n] Cons.prems(1,3) by simp
  then have "script (midway names k n d) (fs @ gs) (map part_event (q # qs) @ ns)
      = script (midway names (Suc k) (n + length (rows q)) d) (fs' @ gs) (map part_event qs @ ns)"
    by (simp add: fs(1))
  then show ?case
    using Cons.IH [of fs' "Suc k" "n + length (rows q)"] Cons.prems fs(3) by (simp add: add.assoc)
qed simp

lemma script_opened:
  assumes "decoder_idle d" and "\<not> is_request d" and "list_all has_more qs" and "fits_caps d (qs @ ls)" and "qs \<noteq> []"
    and "list_all2 (\<lambda>q. sent iso_ok d (RowsResponse q)) qs fs"
  shows "script d (fs @ gs) (map part_event qs @ ns)
    = script (midway (column_names (hd qs)) (length qs) (sum_list (map (\<lambda>q. length (rows q)) qs)) d) gs ns"
proof -
  obtain q qs' where qs: "qs = q # qs'" using assms(5) by (cases qs) simp_all
  then obtain f fs' where fs: "fs = f # fs'" "sent iso_ok d (RowsResponse q) f"
    "list_all2 (\<lambda>q. sent iso_ok d (RowsResponse q)) qs' fs'" using assms(6) by (auto simp: list_all2_Cons1)
  have caps: "list_all (\<lambda>p. column_names p = column_names q \<and> int (length (rows p)) < dec_max_rows d) qs'"
    "int (length (rows q)) < dec_max_rows d" "within (max_continuation_frames d) (1 + length qs')"
    "within (max_total_rows d) (length (rows q) + sum_list (map (\<lambda>q. length (rows q)) qs'))"
    using assms(4) within_mono by (auto simp: fits_caps_def qs elim!: within_mono)
  have "within (max_total_rows d) (length (rows q))" using within_mono [OF caps(4)] by simp
  then have "consume f d = (Inr (part_event q), midway (column_names q) 1 (length (rows q)) d)"
    using consume_first [OF assms(1) fs(2) assms(2) caps(2)] assms(3) qs by simp
  then show ?thesis
    using script_parts [OF assms(1,2) _ fs(3) caps(1,3,4)] assms(3) by (simp add: qs fs(1))
qed

lemma parts_last: "parts qs \<longleftrightarrow> (\<exists>bs l. qs = bs @ [l] \<and> list_all has_more bs \<and> \<not> has_more l)"
proof (induction qs rule: parts.induct)
  case (2 r)
  have "[r] = bs @ [l] \<longleftrightarrow> bs = [] \<and> l = r" for bs l by (cases bs) auto
  then show ?case by auto
next
  case (3 r q rs)
  have "r # q # rs = bs @ [l] \<longleftrightarrow> (\<exists>bs'. bs = r # bs' \<and> q # rs = bs' @ [l])" for bs l by (cases bs) auto
  then show ?case using 3 by auto
qed simp

lemma script_reply:
  assumes "decoder_idle d" and "\<not> is_request d" and "acceptable d rep" and "list_all2 (sent iso_ok d) (written rep) fs"
  shows "script d (fs @ gs) (seen rep @ ns) = script d gs ns"
proof (cases rep)
  case (Single r)
  then obtain f where f: "fs = [f]" "sent iso_ok d r f" using assms(4) by (auto simp: list_all2_Cons1)
  have "complete (Response (response_image r))" using assms(3) Single by (cases r) simp_all
  then have "consume f d = (Inr (Delivered (Response (response_image r))), d)"
    using sent_frame(1) [OF assms(1) f(2)] assms(1,3) Single by (simp add: consume_def decoder_idle_def)
  then show ?thesis by (simp add: Single f(1))
next
  case (Table qs)
  then obtain bs l where qs: "qs = bs @ [l]" "list_all has_more bs" "\<not> has_more l" using assms(3) parts_last by auto
  obtain fs' f where fs: "fs = fs' @ [f]" "list_all2 (\<lambda>q. sent iso_ok d (RowsResponse q)) bs fs'"
    "sent iso_ok d (RowsResponse l) f"
    using assms(4) by (auto simp: Table qs(1) list_all2_append1 list_all2_Cons1 list.rel_map)
  have caps: "fits_caps d (bs @ [l])" using assms(3) Table qs(1) by simp
  then have l: "int (length (rows l)) < dec_max_rows d" "within (max_continuation_frames d) (Suc (length bs))"
    "within (max_total_rows d) (sum_list (map (\<lambda>q. length (rows q)) bs) + length (rows l))"
    "bs \<noteq> [] \<Longrightarrow> column_names l = column_names (hd bs)"
    by (auto simp: fits_caps_def)
  show ?thesis
  proof (cases "bs = []")
    case True
    have "within (max_total_rows d) (length (rows l))" using within_mono [OF l(3)] by simp
    then have "consume f d = (Inr (part_event l), d)" using consume_first [OF assms(1) fs(3) assms(2) l(1)] qs(3) by simp
    then show ?thesis using True fs by (simp add: Table qs(1))
  next
    case False
    have "consume f (midway (column_names (hd bs)) (length bs) (sum_list (map (\<lambda>q. length (rows q)) bs)) d)
        = (Inr (part_event l), d)"
      using consume_part [OF assms(1) fs(3) assms(2) l(1) l(4) [OF False] l(2,3)] qs(3) by simp
    then show ?thesis
      using script_opened [OF assms(1,2) qs(2) caps False fs(2), of "f # gs" "part_event l # ns"] fs(1)
      by (simp add: Table qs(1))
  qed
next
  case (Aborted qs c m)
  then obtain fs' f where fs: "fs = fs' @ [f]" "list_all2 (\<lambda>q. sent iso_ok d (RowsResponse q)) qs fs'"
    "sent iso_ok d (FailureResponse c m) f"
    using assms(4) by (auto simp: list_all2_append1 list_all2_Cons1 list.rel_map)
  have q: "list_all has_more qs" "fits_caps d (qs @ [])" "qs \<noteq> []" "response_valid (FailureResponse c m)"
    using assms(3) Aborted by (simp_all add: fits_caps_def)
  show ?thesis
    using script_opened [OF assms(1,2) q(1-3) fs(2), of "f # gs" "Failed c (sanitize_server_text m) # ns"]
      consume_end(1) [OF assms(1) fs(3) assms(2) q(4) refl]
    by (simp add: Aborted fs(1))
next
  case (Cancelled qs)
  then obtain fs' f where fs: "fs = fs' @ [f]" "list_all2 (\<lambda>q. sent iso_ok d (RowsResponse q)) qs fs'"
    "sent iso_ok d EmptyResponse f"
    using assms(4) by (auto simp: list_all2_append1 list_all2_Cons1 list.rel_map)
  have q: "list_all has_more qs" "fits_caps d (qs @ [])" "qs \<noteq> []" "response_valid EmptyResponse"
    using assms(3) Cancelled by (simp_all add: fits_caps_def)
  show ?thesis
    using script_opened [OF assms(1,2) q(1-3) fs(2), of "f # gs" "Delivered (Response EmptyResponse) # ns"]
      consume_end(2) [OF assms(1) fs(3) assms(2) q(4) refl]
    by (simp add: Cancelled fs(1))
qed

lemma script_replies:
  assumes "decoder_idle d" and "\<not> is_request d" and "list_all (acceptable d) replies"
    and "list_all2 (sent iso_ok d) (concat (map written replies)) fs"
  shows "script d fs (concat (map seen replies))"
  using assms(3,4)
proof (induction replies arbitrary: fs)
  case Nil
  then show ?case using assms(1) by (simp add: decoder_idle_def)
next
  case (Cons rep replies)
  then obtain fs1 fs2 where fs: "fs = fs1 @ fs2" "list_all2 (sent iso_ok d) (written rep) fs1"
    "list_all2 (sent iso_ok d) (concat (map written replies)) fs2"
    by (auto simp: list_all2_append1)
  have "acceptable d rep" using Cons.prems(1) by simp
  then show ?case using script_reply [OF assms(1,2) _ fs(2)] Cons.IH [OF _ fs(3)] Cons.prems(1) fs(1) by simp
qed

lemma sent_frames:
  assumes "decoder_idle d" and "list_all2 (sent iso_ok d) rs fs"
  shows "list_all (\<lambda>f. is_frame f \<and> length f \<le> max_message_size (dec_buffer d)) fs"
proof -
  have "is_frame f" if "response_encode iso_ok r = Inr f" for r f
    using that unfolding response_encode_def message_encode_eq_Inr by (elim exE conjE) (simp add: header_bytes_frame)
  moreover have "int (max_message_size (dec_buffer d)) = dec_max_message_size d"
    using assms(1) by (simp add: decoder_idle_def decoder_inv_defs)
  ultimately show ?thesis using assms(2) by (auto simp: list_all2_conv_all_nth list_all_length)
qed

section \<open>The property\<close>

text \<open>
  C2 (server_dialogue): whatever a server answers on one connection, in whatever chunks it
  arrives and however feeds and reads interleave: the client sees of each reply exactly what the
  server put into it, in order.  Result sets come part by part with the rows the server encoded;
  one that a failure cuts off ends in \<^verbatim>\<open>ServerFailure\<close> with the server's code and text, one
  ended by an interrupt in \<^verbatim>\<open>EmptyResponse\<close>, and the replies after it are read as if nothing had
  happened.  Reading on after the last byte delivers what is left and leaves the decoder idle
  with an empty buffer.
\<close>

theorem server_dialogue:
  assumes "decoder_idle d" and "\<not> is_request d" and "unread d = []" and "list_all (acceptable d) replies"
    and "list_all2 (\<lambda>r f. response_encode iso_ok r = Inr f \<and> int (length f) \<le> dec_max_message_size d)
           (concat (map written replies)) fs"
    and "fed es = concat fs" and "run_stream decoder_feed receive_caught es d = Inr (got, d')"
  shows "got = take (length got) (concat (map seen replies))
    \<and> (\<exists>d''. run_stream decoder_feed receive_caught (es @ replicate (length fs - length got) Read) d
           = Inr (concat (map seen replies), d'') \<and> decoder_idle d'' \<and> unread d'' = [])"
proof -
  note s = script_replies [OF assms(1,2,4,5)]
  have c: "converses d fs (concat (map seen replies))"
    using s sent_frames [OF assms(1,5)] assms(1,2) by (simp add: converses_def decoder_idle_def)
  have i: "decoder_idle d''" if "converses d'' [] []" for d''
    using that converses_ready [OF that] by (simp add: converses_def decoder_idle_def)
  have "unread d @ fed es = concat fs" using assms(3,6) by simp
  from dialogue.play_stream [OF c this assms(7)] show ?thesis unfolding script_length [OF s] using i by blast
qed

theorem server_dialogue_witness:
  "\<exists>d''. run_stream decoder_feed receive_caught
       ([Feed [5, 0, 0, 0, 7, 0, 0, 0, 1, 0, 0, 0, 0, 0, 0, 0, 97, 0, 0, 0, 0, 0, 0, 0, 1, 0, 0, 0, 0, 0, 0, 0],
         Read, Feed ([7, 0, 0, 0, 0, 0, 0, 0, 0xEE, 0xEE, 0xEE, 0xEE, 0xEE, 0xEE, 0xEE, 0xEE]
           @ [2, 0, 0, 0, 0, 0, 0, 0, 1, 0, 0, 0, 0, 0, 0, 0, 110]), Read, Read,
         Feed ([111, 0, 0, 0, 0, 0, 0] @ [1, 0, 0, 0, 8, 0, 0, 0, 0, 0, 0, 0, 0, 0, 0, 0])] @ replicate 2 Read)
       (sample_decoder False [])
     = Inr ([Delivered (Response (RowsResponse \<lparr>column_names = [[97]], column_types = [INTEGER], row_types = [[INTEGER]],
           rows = [[PInt 7]], has_more = True\<rparr>)), Failed 1 [110, 111], Delivered (Response EmptyResponse)], d'')"
proof -
  let ?d = "sample_decoder False []"
  let ?q = "\<lparr>column_names = [[97]], column_types = [INTEGER], row_types = [[INTEGER]], rows = [[PInt 7]], has_more = True\<rparr>"
  let ?f = "[5, 0, 0, 0, 7, 0, 0, 0, 1, 0, 0, 0, 0, 0, 0, 0, 97, 0, 0, 0, 0, 0, 0, 0,
        1, 0, 0, 0, 0, 0, 0, 0, 7, 0, 0, 0, 0, 0, 0, 0, 0xEE, 0xEE, 0xEE, 0xEE, 0xEE, 0xEE, 0xEE, 0xEE] :: bytes"
  let ?g = "[2, 0, 0, 0, 0, 0, 0, 0, 1, 0, 0, 0, 0, 0, 0, 0, 110, 111, 0, 0, 0, 0, 0, 0] :: bytes"
  let ?h = "[1, 0, 0, 0, 8, 0, 0, 0, 0, 0, 0, 0, 0, 0, 0, 0] :: bytes"
  let ?rs = "[Aborted [?q] 1 [110, 111], Single EmptyResponse]"
  let ?es = "[Feed [5, 0, 0, 0, 7, 0, 0, 0, 1, 0, 0, 0, 0, 0, 0, 0, 97, 0, 0, 0, 0, 0, 0, 0, 1, 0, 0, 0, 0, 0, 0, 0],
         Read, Feed ([7, 0, 0, 0, 0, 0, 0, 0, 0xEE, 0xEE, 0xEE, 0xEE, 0xEE, 0xEE, 0xEE, 0xEE]
           @ [2, 0, 0, 0, 0, 0, 0, 0, 1, 0, 0, 0, 0, 0, 0, 0, 110]), Read, Read,
         Feed ([111, 0, 0, 0, 0, 0, 0] @ ?h)]"
  have "response_encode (\<lambda>_. True) (RowsResponse ?q) = Inr ?f"
    "response_encode (\<lambda>_. True) (FailureResponse 1 [110, 111]) = Inr ?g"
    "response_encode (\<lambda>_. True) EmptyResponse = Inr ?h" by code_simp+
  then have e: "list_all2 (\<lambda>r f. response_encode (\<lambda>_. True) r = Inr f \<and> int (length f) \<le> dec_max_message_size ?d)
      (concat (map written ?rs)) [?f, ?g, ?h]" by simp
  have a: "list_all (acceptable ?d) ?rs" by code_simp
  have b: "fed ?es = concat [?f, ?g, ?h]" by simp
  have seen: "concat (map seen ?rs) = [Delivered (Response (RowsResponse ?q)), Failed 1 [110, 111],
      Delivered (Response EmptyResponse)]" by code_simp
  obtain d' where r: "run_stream decoder_feed receive_caught ?es ?d = Inr ([Delivered (Response (RowsResponse ?q))], d')"
    by (rule that) code_simp
  have i: "decoder_idle ?d" by (rule sample_idle) simp
  have u: "\<not> is_request ?d" "unread ?d = []" by (simp_all add: pending_def)
  from server_dialogue [OF i u a e b r] show ?thesis unfolding seen by auto
qed

end
