(* ===== verification/Connection.thy ===== *)
theory Connection
  imports Decoder_States
begin

text \<open>
  A connection from its first byte: the client's \<^verbatim>\<open>MessageEncoder\<close> writes the handshake and then
  its requests; the server's \<^verbatim>\<open>MessageDecoder\<close>, as the constructor made it, is fed the bytes in
  chunks, polls \<^verbatim>\<open>decode_handshake()\<close> until it returns a version and \<^verbatim>\<open>decode()\<close> from then on.
  Chunks need not respect any boundary: one may hold the end of the handshake and the start of a
  request.
\<close>

section \<open>Lemmas\<close>

text \<open>A feed changes the buffer only.\<close>

lemma feed_update:
  assumes "decoder_feed c d = (Inr u, d')" and "decoder_inv d" and "buffer_ready (dec_buffer d)"
  obtains b where "d' = d\<lparr>dec_buffer := b\<rparr>" and "buffer_ready b" and "pending b = unread d @ c"
    and "decoder_inv (d\<lparr>dec_buffer := b\<rparr>)"
proof -
  obtain b where b: "d' = d\<lparr>dec_buffer := b\<rparr>" using on_buffer_update assms(1) unfolding decoder_feed_def by blast
  moreover note l = dec.feed_law [OF assms(3,1)]
  moreover have "decoder_inv (d\<lparr>dec_buffer := b\<rparr>)"
    using buffer_update_inv [OF assms(2), of b] b l by (simp add: buffer_ready_def)
  ultimately show thesis using that by simp
qed

text \<open>
  After the handshake \<^verbatim>\<open>decode_handshake()\<close> raises, so that a polling run that ends without an
  exception has only fed the decoder since.
\<close>

lemma polled_on:
  assumes "run_stream decoder_feed decode_handshake es d = Inr (vs, d')" and "decoder_idle d"
  shows "vs = [] \<and> decoder_idle d' \<and> unread d' = unread d @ fed es
    \<and> dec_version d' = dec_version d \<and> is_request d' = is_request d \<and> dec_max_message_size d' = dec_max_message_size d"
  using assms
proof (induction es arbitrary: d)
  case (Cons ev es)
  show ?case
  proof (cases ev)
    case (Feed c)
    then obtain u d1 where f: "decoder_feed c d = (Inr u, d1)"
      and r: "run_stream decoder_feed decode_handshake es d1 = Inr (vs, d')"
      using Cons.prems(1) by (auto split: prod.splits sum.splits)
    have i: "decoder_inv d" "buffer_ready (dec_buffer d)" using Cons.prems(2) by (simp_all add: decoder_idle_def)
    obtain b where b: "d1 = d\<lparr>dec_buffer := b\<rparr>" "buffer_ready b" "pending b = unread d @ c"
      "decoder_inv (d\<lparr>dec_buffer := b\<rparr>)" by (rule feed_update [OF f i])
    then have "decoder_idle d1" using Cons.prems(2) by (simp add: decoder_idle_def)
    then show ?thesis using Cons.IH [OF r] b Feed by simp
  next
    case Read
    then show ?thesis using Cons.prems by (simp add: decode_handshake_def decoder_idle_def)
  qed
qed simp

text \<open>
  Polling a decoder that waits for the handshake, with \<open>later\<close> the part of the stream it is fed
  afterwards: no version yet, or exactly the client's.
\<close>

lemma polled:
  assumes "run_stream decoder_feed decode_handshake es d = Inr (vs, d')"
    and "decoder_inv d" and "buffer_ready (dec_buffer d)" and "\<not> handshake_done d"
    and "encoder_init v n = Inr enc" and "unread d @ fed es @ later = encode_handshake enc @ rest" and "vs \<noteq> []"
  shows "vs = [v] \<and> decoder_idle d' \<and> unread d' @ later = rest \<and> dec_version d' = Some v
    \<and> is_request d' = is_request d \<and> dec_max_message_size d' = dec_max_message_size d"
  using assms
proof (induction es arbitrary: d)
  case (Cons ev es)
  show ?case
  proof (cases ev)
    case (Feed c)
    then obtain u d1 where f: "decoder_feed c d = (Inr u, d1)"
      and r: "run_stream decoder_feed decode_handshake es d1 = Inr (vs, d')"
      using Cons.prems(1) by (auto split: prod.splits sum.splits)
    obtain b where "d1 = d\<lparr>dec_buffer := b\<rparr>" "buffer_ready b" "pending b = unread d @ c"
      "decoder_inv (d\<lparr>dec_buffer := b\<rparr>)" by (rule feed_update [OF f Cons.prems(2,3)])
    then show ?thesis using Cons.IH [OF r] Cons.prems(4-7) Feed by simp
  next
    case Read
    have len: "length (encode_handshake enc) = 8" by (simp add: encode_handshake_def)
    show ?thesis
    proof (cases "length (unread d) < 8")
      case True
      then have "decode_handshake d = (Inr None, d)"
        using Cons.prems(3,4) length_pending [of "dec_buffer d"]
        by (simp add: decode_handshake_def peek_bytes_def buffer_ready_def)
      then show ?thesis using Cons.IH [of d] Cons.prems Read by simp
    next
      case False
      then have u: "unread d = encode_handshake enc @ drop 8 (unread d)"
        using Cons.prems(6) len by (metis append_eq_append_conv_if append_take_drop_id not_less)
      obtain d1 where h: "decode_handshake d = (Inr (Some v), d1)"
        and i: "decoder_idle d1" "unread d1 = drop 8 (unread d)" "dec_version d1 = Some v" "is_request d1 = is_request d"
          "dec_max_message_size d1 = dec_max_message_size d"
        using handshake_opens [OF Cons.prems(2-5) u] by blast
      obtain ws where w: "run_stream decoder_feed decode_handshake es d1 = Inr (ws, d')" "vs = v # ws"
        using Cons.prems(1) Read h by (auto simp: bindE_eq_Inr)
      have "unread d1 @ fed es @ later = rest" using Cons.prems(6) u i(2) Read by (metis append_assoc fed.simps(3) same_append_eq)
      then show ?thesis using polled_on [OF w(1) i(1)] w(2) i(3-5) by simp
    qed
  qed
qed simp

section \<open>The property\<close>

text \<open>
  C3 (client_session): whatever a client's encoder writes, handshake first and then requests, in
  whatever chunks it arrives: the only version the server's decoder reports is the client's, and
  \<^verbatim>\<open>decode()\<close> then returns the requests in order, up to the types the wire has; reading on after
  the last byte delivers all of them and leaves the decoder idle with an empty buffer.
\<close>

theorem client_session:
  assumes "encoder_init v n = Inr enc" and "decoder_init a = Inr d" and "arg_is_request a"
    and "list_all2 (\<lambda>r f. encoder_encode iso_ok enc (Request r) = Inr f \<and> sendable d (Request r)
           \<and> int (length f) \<le> arg_max_message_size a) rs fs"
    and "fed es @ fed es' = encode_handshake enc @ concat fs"
    and "run_stream decoder_feed decode_handshake es d = Inr (vs, d1)" and "vs \<noteq> []"
    and "run_stream decoder_feed decode es' d1 = Inr (got, d2)"
  shows "vs = [v] \<and> dec_version d1 = Some v
    \<and> got = take (length got) (map (\<lambda>r. Request (request_image r)) rs)
    \<and> (\<exists>d3. run_stream decoder_feed decode (es' @ replicate (length rs - length got) Read) d1
           = Inr (map (\<lambda>r. Request (request_image r)) rs, d3) \<and> decoder_idle d3 \<and> unread d3 = [])"
proof -
  have i: "decoder_inv d" "buffer_ready (dec_buffer d)" "unread d = []" "is_request d" "\<not> handshake_done d"
    using decoder_init_inv [OF assms(2)] assms(3) by simp_all
  have m: "dec_max_message_size d = arg_max_message_size a"
    using assms(2) by (auto simp: decoder_init_def bindE_eq_Inr split: if_splits option.splits)
  have p: "vs = [v]" "decoder_idle d1" "unread d1 @ fed es' = concat fs" "dec_version d1 = Some v" "is_request d1"
    "dec_max_message_size d1 = arg_max_message_size a"
    using polled [OF assms(6) i(1,2,5) assms(1) _ assms(7), of "fed es'" "concat fs"] assms(5) i(3,4) m by simp_all
  have e: "request_encode iso_ok r = Inr f" if "encoder_encode iso_ok enc (Request r) = Inr f" for r f
    using that by (auto simp: encoder_encode_def bindE_eq_Inr split: if_splits)
  have "list_all2 (\<lambda>m f. encode_frame iso_ok m = Inr f \<and> sendable d1 m \<and> complete m
      \<and> int (length f) \<le> dec_max_message_size d1) (map Request rs) fs"
    unfolding list_all2_map1 using assms(4)
    by (rule list_all2_mono) (use e i(4) p(5,6) in auto)
  from sent_stream [OF p(2) this p(3) assms(8)] show ?thesis using p(1,4) by (simp add: o_def)
qed

theorem client_session_witness:
  "\<exists>d1 d3. run_stream decoder_feed decode_handshake
       [Feed [1, 0, 0], Read, Feed [0, 0, 0, 0, 0, 1, 0, 0], Read, Feed [0, 10]] (sample_decoder True []) = Inr ([1], d1)
     \<and> run_stream decoder_feed decode ([Read, Feed [0, 0, 0, 9, 0, 0, 0, 0, 0, 0, 0]] @ replicate 1 Read) d1
     = Inr ([Request (InterruptRequest (PInt 9))], d3)"
proof -
  let ?enc = "\<lparr>enc_version = 1, enc_max_message_size = 64\<rparr>" and ?r = "InterruptRequest (PInt 9)"
  let ?f = "[1, 0, 0, 0, 10, 0, 0, 0, 9, 0, 0, 0, 0, 0, 0, 0] :: bytes"
  have e: "encoder_init 1 64 = Inr ?enc" "encoder_encode (\<lambda>_. True) ?enc (Request ?r) = Inr ?f"
    "sendable (sample_decoder True []) (Request ?r)" by code_simp+
  then have l: "list_all2 (\<lambda>r f. encoder_encode (\<lambda>_. True) ?enc (Request r) = Inr f
      \<and> sendable (sample_decoder True []) (Request r) \<and> int (length f) \<le> arg_max_message_size (sample_args True)) [?r] [?f]"
    by simp
  let ?es = "[Feed [1, 0, 0], Read, Feed [0, 0, 0, 0, 0, 1, 0, 0], Read, Feed [0, 10]]"
    and ?es' = "[Read, Feed [0, 0, 0, 9, 0, 0, 0, 0, 0, 0, 0]]"
  have b: "fed ?es @ fed ?es' = encode_handshake ?enc @ concat [?f]" by code_simp
  let ?d1 = "snd (projr (run_stream decoder_feed decode_handshake ?es (sample_decoder True [])))"
    and ?d2 = "snd (projr (run_stream decoder_feed decode ?es'
      (snd (projr (run_stream decoder_feed decode_handshake ?es (sample_decoder True []))))))"
  have r: "run_stream decoder_feed decode_handshake ?es (sample_decoder True []) = Inr ([1], ?d1)"
    "run_stream decoder_feed decode ?es' ?d1 = Inr ([], ?d2)" by code_simp+
  from client_session [OF e(1) sample_init _ l b r(1) _ r(2)] r(1) show ?thesis by auto
qed

end
