(* ===== verification/Object_Store.thy ===== *)
theory Object_Store
  imports Rows_Response
begin

text \<open>
  The list objects of a \<^verbatim>\<open>RowsResponse\<close>.  \<open>Rows_Response\<close> treats lists as values; Python lists are
  shared, mutable objects.  Here they live in a store, a variable holds an address, and the three
  places that create the lists of a response are modelled allocation by allocation: the copies of
  \<^verbatim>\<open>__post_init__\<close>, the loop of \<^verbatim>\<open>decode_body\<close>, where \<^verbatim>\<open>column_types\<close> is the list object of the first
  row, and the copy that breaks this alias before \<^verbatim>\<open>_from_decoded\<close>.
\<close>

section \<open>Definitions\<close>

subsection \<open>Lists in a store\<close>

type_synonym addr = nat

datatype pylist = StrList "pystr list" | TypeList "value_type list" | ValueList "pyval list" | RefList "addr list"

type_synonym store = "pylist list"

definition new :: "pylist \<Rightarrow> store \<Rightarrow> addr \<times> store" where
  "new x st = (length st, st @ [x])"

definition strs :: "store \<Rightarrow> addr \<Rightarrow> pystr list" where
  "strs st a = (case st ! a of StrList xs \<Rightarrow> xs | _ \<Rightarrow> [])"

definition typs :: "store \<Rightarrow> addr \<Rightarrow> value_type list" where
  "typs st a = (case st ! a of TypeList xs \<Rightarrow> xs | _ \<Rightarrow> [])"

definition vals :: "store \<Rightarrow> addr \<Rightarrow> pyval list" where
  "vals st a = (case st ! a of ValueList xs \<Rightarrow> xs | _ \<Rightarrow> [])"

definition refs :: "store \<Rightarrow> addr \<Rightarrow> addr list" where
  "refs st a = (case st ! a of RefList xs \<Rightarrow> xs | _ \<Rightarrow> [])"

text \<open>\<^verbatim>\<open>xs.append(y)\<close> for a list of lists.\<close>

definition append_ref :: "addr \<Rightarrow> addr \<Rightarrow> store \<Rightarrow> store" where
  "append_ref a y st = st[a := RefList (refs st a @ [y])]"

subsection \<open>The object\<close>

record rows_object =
  names_ref :: addr
  types_ref :: addr
  row_types_ref :: addr
  rows_ref :: addr
  more_flag :: bool

text \<open>What the attributes hold, and all list objects they reach.\<close>

definition contents :: "store \<Rightarrow> rows_object \<Rightarrow> rows_response" where
  "contents st ob =
     \<lparr>column_names = strs st (names_ref ob), column_types = typs st (types_ref ob),
      row_types = map (typs st) (refs st (row_types_ref ob)), rows = map (vals st) (refs st (rows_ref ob)),
      has_more = more_flag ob\<rparr>"

definition lists_of :: "store \<Rightarrow> rows_object \<Rightarrow> addr list" where
  "lists_of st ob = [names_ref ob, types_ref ob, row_types_ref ob, rows_ref ob]
     @ refs st (row_types_ref ob) @ refs st (rows_ref ob)"

subsection \<open>Construction\<close>

text \<open>\<^verbatim>\<open>list(x)\<close>, and \<^verbatim>\<open>[list(x) for x in xs]\<close>.\<close>

definition copy_list :: "addr \<Rightarrow> store \<Rightarrow> addr \<times> store" where
  "copy_list a st = new (st ! a) st"

fun copy_lists :: "addr list \<Rightarrow> store \<Rightarrow> addr list \<times> store" where
  "copy_lists [] st = ([], st)"
| "copy_lists (a # as) st =
     (let (b, st1) = copy_list a st; (bs, st2) = copy_lists as st1 in (b # bs, st2))"

definition copy_nested :: "addr \<Rightarrow> store \<Rightarrow> addr \<times> store" where
  "copy_nested a st = (let (bs, st1) = copy_lists (refs st a) st in new (RefList bs) st1)"

definition RowsResponse_post_init :: "rows_object \<Rightarrow> store \<Rightarrow> rows_object \<times> store" where
  "RowsResponse_post_init ob st =
     (let (nm, st1) = copy_list (names_ref ob) st;
          (ct, st2) = copy_list (types_ref ob) st1;
          (rt, st3) = copy_nested (row_types_ref ob) st2;
          (rw, st4) = copy_nested (rows_ref ob) st3
      in (ob\<lparr>names_ref := nm, types_ref := ct, row_types_ref := rt, rows_ref := rw\<rparr>, st4))"

definition from_decoded :: "addr \<Rightarrow> addr \<Rightarrow> addr \<Rightarrow> addr \<Rightarrow> bool \<Rightarrow> rows_object" where
  "from_decoded nm ct rt rw flag =
     \<lparr>names_ref = nm, types_ref = ct, row_types_ref = rt, rows_ref = rw, more_flag = flag\<rparr>"

text \<open>The end of the loop: \<^verbatim>\<open>column_types is all_row_types[0]\<close> compares addresses.\<close>

definition finish_rows :: "addr \<Rightarrow> addr \<Rightarrow> addr \<Rightarrow> addr \<Rightarrow> bool \<Rightarrow> store \<Rightarrow> rows_object \<times> store" where
  "finish_rows nm ct rt rw flag st =
     (let (ct', st') = (if refs st rt \<noteq> [] \<and> ct = hd (refs st rt) then copy_list ct st else (ct, st))
      in (from_decoded nm ct' rt rw flag, st'))"

text \<open>One row: the lists it creates, the two appends, and \<^verbatim>\<open>column_types = types\<close> on the first one.\<close>

definition store_types :: "addr \<Rightarrow> addr \<Rightarrow> value_type list \<Rightarrow> store \<Rightarrow> addr \<times> store" where
  "store_types rt ct types st =
     (let (t, st1) = new (TypeList types) st; st2 = append_ref rt t st1
      in (if typs st2 ct = [] then t else ct, st2))"

definition store_row :: "addr \<Rightarrow> pyval list \<Rightarrow> store \<Rightarrow> store" where
  "store_row rw row st = (let (v, st1) = new (ValueList row) st in append_ref rw v st1)"

text \<open>The loop of \<^verbatim>\<open>decode_body\<close>; that it returns does not show in its text, so it is partial.\<close>

partial_function (option) decode_rows_objects ::
  "text_errors \<Rightarrow> int \<Rightarrow> nat \<Rightarrow> bytes \<Rightarrow> addr \<Rightarrow> addr \<Rightarrow> addr \<Rightarrow> nat \<Rightarrow> addr \<Rightarrow> store
    \<Rightarrow> (rows_object \<times> store) result option"
where
  "decode_rows_objects errors max_rows column_count view nm rt rw offset ct st =
     (if offset < length view then
        (case decode_row_header (drop offset view) column_count of
           Inl e \<Rightarrow> Some (Inl e)
         | Inr (Marker m, consumed) \<Rightarrow>
             if offset + consumed \<noteq> length view then Some (Inl (DecodeError Trailing))
             else Some (Inr (finish_rows nm ct rt rw (m = PART) st))
         | Inr (Types types, consumed) \<Rightarrow>
             (case store_types rt ct types st of (ct', st2) \<Rightarrow>
                (case decode_row_values IsView errors (drop (offset + consumed) view) types of
                   Inl e \<Rightarrow> Some (Inl e)
                 | Inr (row, n) \<Rightarrow>
                     if max_rows \<le> int (length (refs (store_row rw row st2) rw)) then Some (Inl (DecodeError TooMany))
                     else decode_rows_objects errors max_rows column_count view nm rt rw (offset + consumed + n) ct'
                            (store_row rw row st2))))
      else Some (Inl (DecodeError NoMarker)))"

definition tryE :: "'a result \<Rightarrow> ('a \<Rightarrow> 'b result option) \<Rightarrow> 'b result option" where
  "tryE m f = (case m of Inl e \<Rightarrow> Some (Inl e) | Inr x \<Rightarrow> f x)"

definition RowsResponse_decode_objects ::
  "text_errors \<Rightarrow> int \<Rightarrow> bytes \<Rightarrow> int \<Rightarrow> store \<Rightarrow> (rows_object \<times> store) result option"
where
  "RowsResponse_decode_objects errors max_rows data sc st =
     (if sc \<noteq> 0 then Some (Inl (shown_error sc (DecodeError BadSchema)))
      else
        tryE (decode_uint64 data) (\<lambda>column_count.
        if int MAX_COLUMN_COUNT < column_count then Some (Inl (DecodeError TooMany))
        else
          (let remaining = int (length data) - 8;
               max_columns = max 0 (remaining - int WORD_SIZE) div 8
           in if max_columns < column_count then Some (Inl (DecodeError TooMany))
              else
                tryE (decode_names (nat column_count) data 8) (\<lambda>(names, offset).
                let (nm, st1) = new (StrList names) st;
                    (rw, st2) = new (RefList []) st1;
                    (rt, st3) = new (RefList []) st2;
                    (ct, st4) = new (TypeList []) st3
                in if column_count = 0 then
                     tryE (decode_zero_columns data offset) (\<lambda>flag.
                     let (ct', st5) = new (TypeList []) st4;
                         (rt', st6) = new (RefList []) st5;
                         (rw', st7) = new (RefList []) st6
                     in Some (Inr (from_decoded nm ct' rt' rw' flag, st7)))
                   else decode_rows_objects errors max_rows (nat column_count) data nm rt rw offset ct st4))))"

section \<open>Lemmas\<close>

text \<open>Lists that an update does not touch.\<close>

lemma read_update [simp]:
  "a \<noteq> b \<Longrightarrow> strs (st[a := x]) b = strs st b" "a \<noteq> b \<Longrightarrow> typs (st[a := x]) b = typs st b"
  "a \<noteq> b \<Longrightarrow> vals (st[a := x]) b = vals st b" "a \<noteq> b \<Longrightarrow> refs (st[a := x]) b = refs st b"
  by (simp_all add: strs_def typs_def vals_def refs_def)

lemma read_append [simp]:
  "b < length st \<Longrightarrow> strs (st @ xs) b = strs st b" "b < length st \<Longrightarrow> typs (st @ xs) b = typs st b"
  "b < length st \<Longrightarrow> vals (st @ xs) b = vals st b" "b < length st \<Longrightarrow> refs (st @ xs) b = refs st b"
  by (simp_all add: strs_def typs_def vals_def refs_def nth_append)

lemma read_new [simp]:
  "strs (st @ StrList ns # xs) (length st) = ns" "typs (st @ TypeList ts # xs) (length st) = ts"
  "vals (st @ ValueList vs # xs) (length st) = vs" "refs (st @ RefList rs # xs) (length st) = rs"
  by (simp_all add: strs_def typs_def vals_def refs_def)

lemma map_update [simp]:
  "a \<notin> set as \<Longrightarrow> map (typs (st[a := x])) as = map (typs st) as"
  "a \<notin> set as \<Longrightarrow> map (vals (st[a := x])) as = map (vals st) as"
  by (induction as) simp_all

lemma map_append_store [simp]:
  "\<forall>a \<in> set as. a < length st \<Longrightarrow> map (typs (st @ xs)) as = map (typs st) as"
  "\<forall>a \<in> set as. a < length st \<Longrightarrow> map (vals (st @ xs)) as = map (vals st) as"
  by (auto intro!: map_cong)

text \<open>An object whose lists are all its own: allocated at or after \<open>base\<close>, and no two the same.\<close>

definition isolated :: "addr \<Rightarrow> store \<Rightarrow> rows_object \<Rightarrow> bool" where
  "isolated base st ob =
     (distinct (lists_of st ob) \<and> list_all (\<lambda>a. base \<le> a \<and> a < length st) (lists_of st ob))"

lemma contents_update: "a \<notin> set (lists_of st ob) \<Longrightarrow> contents (st[a := x]) ob = contents st ob"
  by (auto simp: contents_def lists_of_def)

lemma contents_update_types:
  assumes "isolated base st ob"
  shows "contents (st[types_ref ob := TypeList ts]) ob = (contents st ob)\<lparr>column_types := ts\<rparr>"
proof -
  have "types_ref ob \<notin> set (refs st (row_types_ref ob))" "types_ref ob \<notin> set (refs st (rows_ref ob))"
    "types_ref ob \<noteq> names_ref ob" "types_ref ob \<noteq> row_types_ref ob" "types_ref ob \<noteq> rows_ref ob" "types_ref ob < length st"
    using assms by (auto simp: isolated_def lists_of_def)
  then show ?thesis by (simp add: contents_def) (simp add: typs_def)
qed

subsection \<open>The loop\<close>

text \<open>
  What holds of the store between two rows: \<open>ct0\<close> is the empty list \<^verbatim>\<open>column_types\<close> starts as.
\<close>

definition loop_store :: "addr \<Rightarrow> pystr list \<Rightarrow> addr \<Rightarrow> addr \<Rightarrow> addr \<Rightarrow> addr \<Rightarrow> addr \<Rightarrow> store
    \<Rightarrow> value_type list list \<Rightarrow> pyval list list \<Rightarrow> bool" where
  "loop_store base names nm ct0 rt rw ct st tss rws \<longleftrightarrow>
     distinct ([nm, ct0, rt, rw] @ refs st rt @ refs st rw)
     \<and> (\<forall>a \<in> set ([nm, ct0, rt, rw] @ refs st rt @ refs st rw). base \<le> a \<and> a < length st)
     \<and> strs st nm = names \<and> typs st ct0 = [] \<and> map (typs st) (refs st rt) = tss \<and> map (vals st) (refs st rw) = rws
     \<and> ct = (if refs st rt = [] then ct0 else hd (refs st rt))"

lemma refs_append_ref: "a < length st \<Longrightarrow> refs (append_ref a y st) a = refs st a @ [y]"
  by (simp add: append_ref_def refs_def)

lemma store_types_step:
  assumes "loop_store base names nm ct0 rt rw ct st tss rws" and "types \<noteq> []" and "[] \<notin> set tss"
  shows "\<exists>ct' st'. store_types rt ct types st = (ct', st') \<and> loop_store base names nm ct0 rt rw ct' st' (tss @ [types]) rws
    \<and> length st \<le> length st' \<and> (\<forall>b \<le> base. take b st' = take b st)"
proof -
  let ?st1 = "st @ [TypeList types]" and ?t = "length st"
  let ?st2 = "?st1[rt := RefList (refs st rt @ [?t])]"
  have l: "nm < length st" "ct0 < length st" "rt < length st" "rw < length st" "\<forall>a \<in> set (refs st rt). a < length st"
    "\<forall>a \<in> set (refs st rw). a < length st" "base \<le> rt" "base \<le> length st"
    "rt \<noteq> nm" "rt \<noteq> ct0" "rt \<noteq> rw" "rt \<notin> set (refs st rt)" "rt \<notin> set (refs st rw)"
    using assms(1) by (auto simp: loop_store_def)
  have r: "refs ?st2 rt = refs st rt @ [?t]" using l by (simp add: refs_def)
  have ct: "typs ?st2 ct = [] \<longleftrightarrow> refs st rt = []"
  proof (cases "refs st rt")
    case Nil
    then show ?thesis using assms(1) l by (auto simp: loop_store_def)
  next
    case (Cons a as)
    then have "typs st a \<in> set tss" "ct = a" "a \<noteq> rt" "a < length st" using assms(1) l by (auto simp: loop_store_def)
    then show ?thesis using assms(3) Cons by auto
  qed
  have st: "store_types rt ct types st = (if refs st rt = [] then ?t else ct, ?st2)"
    using l ct by (simp add: store_types_def new_def append_ref_def Let_def)
  have "map (typs ?st2) (refs st rt @ [?t]) = tss @ [types]"
    using assms(1) l by (simp add: loop_store_def typs_def)
  then have "loop_store base names nm ct0 rt rw (if refs st rt = [] then ?t else ct) ?st2 (tss @ [types]) rws"
    using assms(1) l r by (auto simp: loop_store_def intro: less_SucI)
  then show ?thesis using st l by auto
qed

lemma store_row_step:
  assumes "loop_store base names nm ct0 rt rw ct st tss rws"
  shows "loop_store base names nm ct0 rt rw ct (store_row rw row st) tss (rws @ [row])"
    and "length (refs (store_row rw row st) rw) = length rws + 1"
    and "length st \<le> length (store_row rw row st) \<and> (\<forall>b \<le> base. take b (store_row rw row st) = take b st)"
proof -
  let ?t = "length st"
  let ?st2 = "(st @ [ValueList row])[rw := RefList (refs st rw @ [?t])]"
  have l: "nm < length st" "ct0 < length st" "rt < length st" "rw < length st" "\<forall>a \<in> set (refs st rt). a < length st"
    "\<forall>a \<in> set (refs st rw). a < length st" "base \<le> rw" "base \<le> length st"
    "rw \<noteq> nm" "rw \<noteq> ct0" "rt \<noteq> rw" "rw \<notin> set (refs st rt)" "rw \<notin> set (refs st rw)"
    using assms(1) by (auto simp: loop_store_def)
  have st: "store_row rw row st = ?st2" using l by (simp add: store_row_def new_def append_ref_def Let_def)
  have r: "refs ?st2 rw = refs st rw @ [?t]" using l by (simp add: refs_def)
  have "map (vals ?st2) (refs st rw @ [?t]) = rws @ [row]"
    using assms(1) l by (simp add: loop_store_def vals_def)
  then show "loop_store base names nm ct0 rt rw ct (store_row rw row st) tss (rws @ [row])"
    using assms(1) l r unfolding st by (auto simp: loop_store_def intro: less_SucI)
  show "length (refs (store_row rw row st) rw) = length rws + 1"
    using assms(1) r unfolding st by (auto simp: loop_store_def)
  show "length st \<le> length (store_row rw row st) \<and> (\<forall>b \<le> base. take b (store_row rw row st) = take b st)"
    using l unfolding st by auto
qed

text \<open>The relation between a run over objects and one over values.\<close>

definition refines :: "store \<Rightarrow> (rows_object \<times> store) result option \<Rightarrow> rows_response result \<Rightarrow> bool" where
  "refines st out res \<longleftrightarrow> (case res of
     Inl e \<Rightarrow> out = Some (Inl e)
   | Inr r \<Rightarrow> \<exists>ob st'. out = Some (Inr (ob, st')) \<and> contents st' ob = r \<and> isolated (length st) st' ob
       \<and> length st \<le> length st' \<and> take (length st) st' = st)"

lemma finish_rows_isolated:
  assumes "loop_store base names nm ct0 rt rw ct st tss rws"
  obtains ob st' where "finish_rows nm ct rt rw flag st = (ob, st')" "isolated base st' ob"
    "contents st' ob = \<lparr>column_names = names, column_types = first_or_empty tss, row_types = tss, rows = rws, has_more = flag\<rparr>"
    "length st \<le> length st'" "take base st' = take base st"
proof (cases "refs st rt")
  case Nil
  then have "finish_rows nm ct rt rw flag st = (from_decoded nm ct0 rt rw flag, st)"
    using assms by (simp add: finish_rows_def loop_store_def)
  then show ?thesis using that assms Nil
    by (auto simp: loop_store_def isolated_def lists_of_def from_decoded_def contents_def first_or_empty_def list_all_iff)
next
  case (Cons a as)
  let ?st = "st @ [st ! a]" and ?t = "length st"
  have f: "finish_rows nm ct rt rw flag st = (from_decoded nm ?t rt rw flag, ?st)"
    using assms Cons by (simp add: finish_rows_def loop_store_def copy_list_def new_def)
  have l: "nm < length st" "rt < length st" "rw < length st" "\<forall>b \<in> set (refs st rt). b < length st"
    "\<forall>b \<in> set (refs st rw). b < length st" "base \<le> length st"
    using assms by (auto simp: loop_store_def)
  have "typs ?st ?t = first_or_empty tss"
    using assms Cons by (auto simp: loop_store_def first_or_empty_def typs_def)
  moreover have "?t \<notin> set (refs st rt)" "?t \<notin> set (refs st rw)" "\<forall>b \<in> set (refs st rt) \<union> set (refs st rw). b < Suc ?t"
    using l by auto
  ultimately show ?thesis using that [OF f] assms l
    by (auto simp: loop_store_def isolated_def lists_of_def from_decoded_def contents_def list_all_iff)
qed

lemma decode_rows_objects_refine:
  assumes "loop_store base names nm ct0 rt rw ct st tss rws" and "0 < n" and "[] \<notin> set tss" and "vct = first_or_empty tss"
  shows "case decode_rows errors max_rows n view offset rws tss vct of
      Inl e \<Rightarrow> decode_rows_objects errors max_rows n view nm rt rw offset ct st = Some (Inl e)
    | Inr (ct', tss', rws', m) \<Rightarrow> \<exists>ob st'. decode_rows_objects errors max_rows n view nm rt rw offset ct st = Some (Inr (ob, st'))
        \<and> contents st' ob = \<lparr>column_names = names, column_types = ct', row_types = tss', rows = rws', has_more = m\<rparr>
        \<and> isolated base st' ob \<and> length st \<le> length st' \<and> take base st' = take base st"
  using assms
proof (induction errors max_rows n view offset rws tss vct arbitrary: ct st rule: decode_rows.induct)
  case (1 errors max_rows n view offset rws tss vct)
  show ?case
  proof (cases "offset < length view")
    case False
    then show ?thesis by (subst decode_rows.simps, subst decode_rows_objects.simps) simp
  next
    case o: True
    show ?thesis
    proof (cases "decode_row_header (drop offset view) n")
      case (Inl e)
      with o show ?thesis by (subst decode_rows.simps, subst decode_rows_objects.simps) simp
    next
      case (Inr hc)
      then obtain h c where h: "decode_row_header (drop offset view) n = Inr (h, c)" by (cases hc) simp
      show ?thesis
      proof (cases h)
        case (Marker m)
        obtain ob st' where "finish_rows nm ct rt rw (m = PART) st = (ob, st')" "isolated base st' ob"
          "contents st' ob = \<lparr>column_names = names, column_types = first_or_empty tss, row_types = tss, rows = rws, has_more = m = PART\<rparr>"
          "length st \<le> length st'" "take base st' = take base st"
          using finish_rows_isolated [OF "1.prems"(1)] .
        moreover have "decode_rows errors max_rows n view offset rws tss vct
            = (if offset + c \<noteq> length view then Inl (DecodeError Trailing) else Inr (vct, tss, rws, m = PART))"
          using o h Marker by (subst decode_rows.simps) simp
        moreover have "decode_rows_objects errors max_rows n view nm rt rw offset ct st
            = (if offset + c \<noteq> length view then Some (Inl (DecodeError Trailing)) else Some (Inr (finish_rows nm ct rt rw (m = PART) st)))"
          using o h Marker by (subst decode_rows_objects.simps) simp
        ultimately show ?thesis using "1.prems"(4) by simp
      next
        case (Types types)
        have "length types = n" using decode_row_header_consumed [OF h] Types by simp
        then have ne: "types \<noteq> []" using "1.prems"(2) by auto
        obtain ct2 st2 where s2: "store_types rt ct types st = (ct2, st2)" "loop_store base names nm ct0 rt rw ct2 st2 (tss @ [types]) rws"
          "length st \<le> length st2" "\<forall>b \<le> base. take b st2 = take b st"
          using store_types_step [OF "1.prems"(1) ne "1.prems"(3)] by blast
        show ?thesis
        proof (cases "decode_row_values IsView errors (drop (offset + c) view) types")
          case (Inl e)
          with o h Types s2(1) show ?thesis by (subst decode_rows.simps, subst decode_rows_objects.simps) simp
        next
          case (Inr rk)
          then obtain row k where v: "decode_row_values IsView errors (drop (offset + c) view) types = Inr (row, k)" by (cases rk) simp
          note s3 = store_row_step [OF s2(2), of row]
          show ?thesis
          proof (cases "max_rows \<le> int (length (rws @ [row]))")
            case True
            with o h Types s2(1) v s3(2) show ?thesis
              by (subst decode_rows.simps, subst decode_rows_objects.simps) simp
          next
            case False
            have fo: "(if vct = [] then types else vct) = first_or_empty (tss @ [types])"
              using "1.prems"(3,4) by (cases tss) (auto simp: first_or_empty_def)
            have "[] \<notin> set (tss @ [types])" using "1.prems"(3) ne by simp
            note ih = "1.IH" [OF o h refl Types v refl False s3(1) "1.prems"(2) this fo]
            have "decode_rows errors max_rows n view offset rws tss vct
                = decode_rows errors max_rows n view (offset + c + k) (rws @ [row]) (tss @ [types]) (if vct = [] then types else vct)"
              using o h Types v False by (subst decode_rows.simps) simp
            moreover have "decode_rows_objects errors max_rows n view nm rt rw offset ct st
                = decode_rows_objects errors max_rows n view nm rt rw (offset + c + k) ct2 (store_row rw row st2)"
              using o h Types v False s2(1) s3(2) by (subst decode_rows_objects.simps) simp
            moreover have "length st \<le> length (store_row rw row st2)" "take base (store_row rw row st2) = take base st"
              using s2(3,4) s3(3) by simp_all
            ultimately show ?thesis using ih by (auto split: sum.splits split del: if_split)
          qed
        qed
      qed
    qed
  qed
qed

lemma new_lists:
  assumes "st4 = st @ [StrList names, RefList [], RefList [], TypeList []]" and "n = length st"
  shows "loop_store n names n (n + 3) (n + 2) (n + 1) (n + 3) st4 [] []"
  using assms by (simp add: loop_store_def strs_def typs_def refs_def nth_append)

lemma tryE_simps [simp]: "tryE (Inl e) f = Some (Inl e)" "tryE (Inr x) f = f x"
  by (simp_all add: tryE_def)

lemma decode_objects_refine:
  "refines st (RowsResponse_decode_objects errors max_rows data sc st) (RowsResponse_decode_body errors max_rows data sc)"
proof (cases "sc = 0 \<and> (\<exists>c. decode_uint64 data = Inr c \<and> \<not> int MAX_COLUMN_COUNT < c
    \<and> \<not> max 0 (int (length data) - 8 - int WORD_SIZE) div 8 < c \<and> (\<exists>names off. decode_names (nat c) data 8 = Inr (names, off)))")
  case False
  then show ?thesis
    by (cases "decode_uint64 data"; cases "decode_names (nat (projr (decode_uint64 data))) data 8")
      (auto simp: refines_def RowsResponse_decode_objects_def RowsResponse_decode_body_def Let_def)
next
  case True
  then obtain c names off where c: "sc = 0" "decode_uint64 data = Inr c" "\<not> int MAX_COLUMN_COUNT < c"
    "\<not> max 0 (int (length data) - 8 - int WORD_SIZE) div 8 < c" "decode_names (nat c) data 8 = Inr (names, off)" by blast
  let ?n = "length st" and ?st4 = "st @ [StrList names, RefList [], RefList [], TypeList []]"
  show ?thesis
  proof (cases "c = 0")
    case True
    then show ?thesis using c
      by (cases "decode_zero_columns data off")
        (simp_all add: refines_def RowsResponse_decode_objects_def RowsResponse_decode_body_def Let_def new_def
          from_decoded_def contents_def isolated_def lists_of_def strs_def typs_def refs_def nth_append)
  next
    case False
    have n: "0 < nat c" using False decode_uint64_range [OF c(2)] by simp
    have "RowsResponse_decode_objects errors max_rows data sc st
        = decode_rows_objects errors max_rows (nat c) data ?n (?n + 2) (?n + 1) off (?n + 3) ?st4"
      using c False by (simp add: RowsResponse_decode_objects_def Let_def new_def numeral_eq_Suc)
    moreover have "RowsResponse_decode_body errors max_rows data sc
        = bindE (decode_rows errors max_rows (nat c) data off [] [] []) (\<lambda>(ct, ts, rws, m).
            Inr \<lparr>column_names = names, column_types = ct, row_types = ts, rows = rws, has_more = m\<rparr>)"
      using c False by (simp add: RowsResponse_decode_body_def Let_def)
    moreover have l: "loop_store ?n names ?n (?n + 3) (?n + 2) (?n + 1) (?n + 3) ?st4 [] []" by (rule new_lists) simp_all
    ultimately show ?thesis
      using decode_rows_objects_refine [OF l n, where vct = "[]" and errors = errors and max_rows = max_rows and view = data and offset = off]
      by (auto simp: refines_def first_or_empty_def split: sum.splits)
  qed
qed

subsection \<open>The copies of \<^verbatim>\<open>__post_init__\<close>\<close>

lemma copy_lists_eq:
  "\<forall>a \<in> set as. a < length st \<Longrightarrow>
     copy_lists as (st @ xs) = ([length (st @ xs)..<length (st @ xs) + length as], st @ xs @ map ((!) st) as)"
proof (induction as arbitrary: xs)
  case (Cons a as)
  have "copy_lists as (st @ xs @ [st ! a]) =
      ([length (st @ xs) + 1..<length (st @ xs) + 1 + length as], (st @ xs @ [st ! a]) @ map ((!) st) as)"
    using Cons.IH [of "xs @ [st ! a]"] Cons.prems by (simp del: upt_Suc)
  then show ?case using Cons.prems by (simp add: copy_list_def new_def nth_append upt_conv_Cons del: upt_Suc)
qed simp

lemma copy_nested_eq:
  "\<forall>b \<in> set (refs st a). b < length st \<Longrightarrow> a < length st \<Longrightarrow>
     copy_nested a (st @ xs) = (length (st @ xs) + length (refs st a),
       st @ xs @ map ((!) st) (refs st a) @ [RefList [length (st @ xs)..<length (st @ xs) + length (refs st a)]])"
  using copy_lists_eq [of "refs st a" st xs] by (simp add: copy_nested_def new_def del: upt_Suc)

lemma copied_block:
  "map (typs (pre @ map ((!) st) as @ post)) [length pre..<length pre + length as] = map (typs st) as"
  "map (vals (pre @ map ((!) st) as @ post)) [length pre..<length pre + length as] = map (vals st) as"
  by (rule nth_equalityI; simp add: typs_def vals_def nth_append)+

text \<open>Arguments of the constructor: lists that exist, shared in any way.\<close>

definition existing :: "store \<Rightarrow> rows_object \<Rightarrow> bool" where
  "existing st ob = list_all (\<lambda>a. a < length st) (lists_of st ob)"

lemma post_init_isolated:
  assumes "existing st ob" and "RowsResponse_post_init ob st = (ob', st')"
  shows "contents st' ob' = contents st ob \<and> isolated (length st) st' ob' \<and> take (length st) st' = st"
proof -
  define n where "n = length st"
  define rt where "rt = refs st (row_types_ref ob)"
  define rw where "rw = refs st (rows_ref ob)"
  define x2 where "x2 = [st ! names_ref ob, st ! types_ref ob]"
  define x3 where "x3 = x2 @ map ((!) st) rt @ [RefList [n + 2..<n + 2 + length rt]]"
  define x4 where "x4 = map ((!) st) rw @ [RefList [n + 3 + length rt..<n + 3 + length rt + length rw]]"
  have l: "names_ref ob < n" "types_ref ob < n" "row_types_ref ob < n" "rows_ref ob < n"
    "\<forall>a \<in> set rt. a < n" "\<forall>a \<in> set rw. a < n"
    using assms(1) by (simp_all add: existing_def lists_of_def list_all_iff n_def rt_def rw_def)
  have len: "length (st @ x2) = n + 2" "length (st @ x3) = n + 3 + length rt"
    by (simp_all add: n_def x2_def x3_def)
  have "copy_nested (row_types_ref ob) (st @ x2) = (n + 2 + length rt, st @ x3)"
    using copy_nested_eq [of st "row_types_ref ob" x2, folded rt_def n_def, unfolded len] l by (simp add: x3_def del: upt_Suc)
  moreover have "copy_nested (rows_ref ob) (st @ x3) = (n + 3 + length rt + length rw, st @ x3 @ x4)"
    using copy_nested_eq [of st "rows_ref ob" x3, folded rw_def n_def, unfolded len] l by (simp add: x4_def del: upt_Suc)
  ultimately have e: "ob' = ob\<lparr>names_ref := n, types_ref := n + 1, row_types_ref := n + 2 + length rt,
      rows_ref := n + 3 + length rt + length rw\<rparr>" "st' = st @ x3 @ x4"
    using assms(2) l by (simp_all add: RowsResponse_post_init_def copy_list_def new_def Let_def nth_append x2_def n_def)
  have at: "refs (ys @ RefList zs # xs) k = zs" if "k = length ys" for ys zs xs k using that by simp
  have "st' = (st @ x2 @ map ((!) st) rt) @ RefList [n + 2..<n + 2 + length rt] # x4"
    "st' = ((st @ x3) @ map ((!) st) rw) @ RefList [n + 3 + length rt..<n + 3 + length rt + length rw] # []"
    by (simp_all add: e x3_def x4_def del: upt_Suc)
  moreover have "row_types_ref ob' = length (st @ x2 @ map ((!) st) rt)" "rows_ref ob' = length ((st @ x3) @ map ((!) st) rw)"
    using len by (simp_all add: e)
  ultimately have r: "refs st' (row_types_ref ob') = [n + 2..<n + 2 + length rt]"
    "refs st' (rows_ref ob') = [n + 3 + length rt..<n + 3 + length rt + length rw]"
    by (metis at)+
  have "map (typs st') [n + 2..<n + 2 + length rt] = map (typs st) rt"
    using copied_block(1) [of "st @ x2" st rt "RefList [n + 2..<n + 2 + length rt] # x4", unfolded len]
    by (simp add: e x3_def del: upt_Suc)
  moreover have "map (vals st') [n + 3 + length rt..<n + 3 + length rt + length rw] = map (vals st) rw"
    using copied_block(2) [of "st @ x3" st rw "[RefList [n + 3 + length rt..<n + 3 + length rt + length rw]]", unfolded len]
    by (simp add: e x4_def del: upt_Suc)
  moreover have "strs st' n = strs st (names_ref ob)" "typs st' (n + 1) = typs st (types_ref ob)"
    by (simp_all add: e strs_def typs_def nth_append n_def x2_def x3_def)
  ultimately have "contents st' ob' = contents st ob"
    unfolding contents_def r by (simp add: e rt_def rw_def del: upt_Suc)
  moreover have "isolated n st' ob'"
    unfolding isolated_def lists_of_def r by (auto simp: e list_all_iff n_def x2_def x3_def x4_def simp del: upt_Suc)
  moreover have "take n st' = st" by (simp add: e n_def)
  ultimately show ?thesis by (simp add: n_def)
qed

subsection \<open>Writing to a list of an isolated object\<close>

lemma map_update_nth:
  assumes "distinct as" and "i < length as" and "as ! i < length st"
  shows "map (typs (st[as ! i := TypeList ts])) as = (map (typs st) as)[i := ts]"
    and "map (vals (st[as ! i := ValueList vs])) as = (map (vals st) as)[i := vs]"
  using assms by (auto intro!: nth_equalityI simp: nth_list_update typs_def vals_def nth_eq_iff_index_eq)

lemma contents_update_nth:
  assumes "isolated base st ob"
  shows "i < length (refs st (row_types_ref ob)) \<Longrightarrow>
      contents (st[refs st (row_types_ref ob) ! i := TypeList ts]) ob
        = (contents st ob)\<lparr>row_types := (row_types (contents st ob))[i := ts]\<rparr>"
    and "i < length (refs st (rows_ref ob)) \<Longrightarrow>
      contents (st[refs st (rows_ref ob) ! i := ValueList vs]) ob
        = (contents st ob)\<lparr>rows := (rows (contents st ob))[i := vs]\<rparr>"
proof -
  let ?as = "refs st (row_types_ref ob)" and ?bs = "refs st (rows_ref ob)"
  have d: "distinct ?as" "distinct ?bs" "set ?as \<inter> set ?bs = {}" "\<forall>a \<in> set ?as \<union> set ?bs. a < length st
      \<and> a \<noteq> names_ref ob \<and> a \<noteq> types_ref ob \<and> a \<noteq> row_types_ref ob \<and> a \<noteq> rows_ref ob"
    using assms by (auto simp: isolated_def lists_of_def list_all_iff)
  show "contents (st[?as ! i := TypeList ts]) ob = (contents st ob)\<lparr>row_types := (row_types (contents st ob))[i := ts]\<rparr>"
    if i: "i < length ?as"
  proof -
    have "?as ! i \<in> set ?as" using i by simp
    then have "?as ! i < length st" "?as ! i \<noteq> names_ref ob" "?as ! i \<noteq> types_ref ob" "?as ! i \<noteq> row_types_ref ob"
      "?as ! i \<noteq> rows_ref ob" "?as ! i \<notin> set ?bs" using d by blast+
    then show ?thesis using map_update_nth(1) [OF d(1) i] by (simp add: contents_def)
  qed
  show "contents (st[?bs ! i := ValueList vs]) ob = (contents st ob)\<lparr>rows := (rows (contents st ob))[i := vs]\<rparr>"
    if i: "i < length ?bs"
  proof -
    have "?bs ! i \<in> set ?bs" using i by simp
    then have "?bs ! i < length st" "?bs ! i \<noteq> names_ref ob" "?bs ! i \<noteq> types_ref ob" "?bs ! i \<noteq> row_types_ref ob"
      "?bs ! i \<noteq> rows_ref ob" "?bs ! i \<notin> set ?as" using d by blast+
    then show ?thesis using map_update_nth(2) [OF d(2) i] by (simp add: contents_def)
  qed
qed

text \<open>The caller's lists are not among those of the object.\<close>

lemma contents_update_old: "isolated base st ob \<Longrightarrow> a < base \<Longrightarrow> contents (st[a := x]) ob = contents st ob"
  by (rule contents_update) (auto simp: isolated_def list_all_iff)

section \<open>Properties\<close>

text \<open>
  C12 (decoded_lists_unshared): over list objects, \<^verbatim>\<open>decode_body\<close> returns what it returns over values,
  raises the same exception where it raises, and always returns.  No list of the response is
  shared: assigning to \<^verbatim>\<open>column_types\<close> in place changes that attribute only, although during the
  loop it is the list object of the first row's types; a write to the types or the cells of one row changes that row
  only; and no list that existed before shows through.
\<close>

theorem decoded_lists_unshared:
  "case RowsResponse_decode_body errors max_rows data sc of
     Inl e \<Rightarrow> RowsResponse_decode_objects errors max_rows data sc st = Some (Inl e)
   | Inr r \<Rightarrow> \<exists>ob st'. RowsResponse_decode_objects errors max_rows data sc st = Some (Inr (ob, st'))
       \<and> contents st' ob = r
       \<and> (\<forall>ts. contents (st'[types_ref ob := TypeList ts]) ob = r\<lparr>column_types := ts\<rparr>)
       \<and> (\<forall>i ts. i < length (row_types r) \<longrightarrow> contents (st'[refs st' (row_types_ref ob) ! i := TypeList ts]) ob
             = r\<lparr>row_types := (row_types r)[i := ts]\<rparr>)
       \<and> (\<forall>i vs. i < length (rows r) \<longrightarrow> contents (st'[refs st' (rows_ref ob) ! i := ValueList vs]) ob
             = r\<lparr>rows := (rows r)[i := vs]\<rparr>)
       \<and> (\<forall>a x. a < length st \<longrightarrow> contents (st'[a := x]) ob = r)"
proof (cases "RowsResponse_decode_body errors max_rows data sc")
  case (Inl e)
  then show ?thesis using decode_objects_refine [of st errors max_rows data sc] by (simp add: refines_def)
next
  case (Inr r)
  then obtain ob st' where o: "RowsResponse_decode_objects errors max_rows data sc st = Some (Inr (ob, st'))"
      "contents st' ob = r" "isolated (length st) st' ob"
    using decode_objects_refine [of st errors max_rows data sc] by (auto simp: refines_def)
  have "length (row_types r) = length (refs st' (row_types_ref ob))" "length (rows r) = length (refs st' (rows_ref ob))"
    by (simp_all add: o(2) [symmetric] contents_def)
  then show ?thesis
    using Inr o contents_update_types [OF o(3)] contents_update_nth [OF o(3)] contents_update_old [OF o(3)] by simp
qed

text \<open>One INTEGER row; the store holds a list of the caller.\<close>

theorem decoded_lists_unshared_witness:
  "\<exists>ob st'. RowsResponse_decode_objects Strict 10
       [1, 0, 0, 0, 0, 0, 0, 0, 97, 0, 0, 0, 0, 0, 0, 0,
        1, 0, 0, 0, 0, 0, 0, 0, 7, 0, 0, 0, 0, 0, 0, 0, 0xEE, 0xEE, 0xEE, 0xEE, 0xEE, 0xEE, 0xEE, 0xEE] 0 [TypeList []]
      = Some (Inr (ob, st'))
    \<and> contents (st'[refs st' (row_types_ref ob) ! 0 := TypeList [NULL]]) ob
      = \<lparr>column_names = [[97]], column_types = [INTEGER], row_types = [[NULL]], rows = [[PInt 7]], has_more = True\<rparr>"
proof -
  let ?data = "[1, 0, 0, 0, 0, 0, 0, 0, 97, 0, 0, 0, 0, 0, 0, 0,
        1, 0, 0, 0, 0, 0, 0, 0, 7, 0, 0, 0, 0, 0, 0, 0, 0xEE, 0xEE, 0xEE, 0xEE, 0xEE, 0xEE, 0xEE, 0xEE] :: bytes"
  have "RowsResponse_decode_body Strict 10 ?data 0
      = Inr \<lparr>column_names = [[97]], column_types = [INTEGER], row_types = [[INTEGER]], rows = [[PInt 7]], has_more = True\<rparr>"
    by code_simp
  then show ?thesis using decoded_lists_unshared [of Strict 10 ?data 0 "[TypeList []]"] by auto
qed

text \<open>
  C21 (constructed_lists_unshared): a \<^verbatim>\<open>RowsResponse\<close> built from any lists, shared among its own
  arguments in any way, holds their contents in lists of its own: what the caller does to its
  lists later does not bleed in, writes to one of its rows or to \<^verbatim>\<open>column_types\<close> stay where they are, and the caller's
  lists are as they were.
\<close>

theorem constructed_lists_unshared:
  assumes "existing st ob" and "RowsResponse_post_init ob st = (ob', st')"
  shows "contents st' ob' = contents st ob \<and> take (length st) st' = st
    \<and> (\<forall>a x. a < length st \<longrightarrow> contents (st'[a := x]) ob' = contents st ob)
    \<and> (\<forall>ts. contents (st'[types_ref ob' := TypeList ts]) ob' = (contents st ob)\<lparr>column_types := ts\<rparr>)
    \<and> (\<forall>i vs. i < length (rows (contents st ob)) \<longrightarrow> contents (st'[refs st' (rows_ref ob') ! i := ValueList vs]) ob'
          = (contents st ob)\<lparr>rows := (rows (contents st ob))[i := vs]\<rparr>)"
proof -
  have i: "contents st' ob' = contents st ob" "isolated (length st) st' ob'" "take (length st) st' = st"
    using post_init_isolated [OF assms] by simp_all
  have "length (rows (contents st' ob')) = length (refs st' (rows_ref ob'))" by (simp add: contents_def)
  then show ?thesis
    using i contents_update_types [OF i(2)] contents_update_nth(2) [OF i(2)] contents_update_old [OF i(2)] by simp
qed

text \<open>The same list object passed as \<^verbatim>\<open>column_types\<close> and as the types and twice as the row of two rows.\<close>

theorem constructed_lists_unshared_witness:
  "\<exists>ob' st'. RowsResponse_post_init (from_decoded 0 1 2 4 False)
       [StrList [[97]], TypeList [INTEGER], RefList [1, 1], ValueList [PInt 7], RefList [3, 3]] = (ob', st')
    \<and> contents (st'[3 := ValueList []]) ob' = \<lparr>column_names = [[97]], column_types = [INTEGER],
        row_types = [[INTEGER], [INTEGER]], rows = [[PInt 7], [PInt 7]], has_more = False\<rparr>"
proof -
  let ?st = "[StrList [[97]], TypeList [INTEGER], RefList [1, 1], ValueList [PInt 7], RefList [3, 3]]"
  obtain ob' st' where o: "RowsResponse_post_init (from_decoded 0 1 2 4 False) ?st = (ob', st')" by fastforce
  have "existing ?st (from_decoded 0 1 2 4 False)" by code_simp
  moreover have "contents ?st (from_decoded 0 1 2 4 False) = \<lparr>column_names = [[97]], column_types = [INTEGER],
      row_types = [[INTEGER], [INTEGER]], rows = [[PInt 7], [PInt 7]], has_more = False\<rparr>" by code_simp
  ultimately show ?thesis using constructed_lists_unshared [OF _ o] o by auto
qed

end
