(* ===== verification/Logging.thy ===== *)
theory Logging
  imports Responses
begin

text \<open>
  What decoding writes to the log.  Three \<^verbatim>\<open>decode_body\<close> methods of
  \<^verbatim>\<open>src/dqlitewire/messages/responses.py\<close> call \<^verbatim>\<open>logger.warning\<close>; here they are given once more with
  the records they emit, in the order of the calls, so that the three role policies differ as in
  the source.  A record keeps the arguments of the call; the fixed text stands for the call site.
\<close>

section \<open>Definitions\<close>

datatype log_record =
    LeaderUnknown int                  \<comment> \<open>\<^verbatim>\<open>node_id\<close>\<close>
  | HeartbeatZero
  | RolesSubstituted nat "int list"    \<comment> \<open>\<^verbatim>\<open>len(unknown_seen)\<close>, \<^verbatim>\<open>unique_roles\<close>\<close>

text \<open>A result together with the records written before it was reached.\<close>

type_synonym 'a logged = "'a result \<times> log_record list"

definition bindL :: "'a logged \<Rightarrow> ('a \<Rightarrow> 'b logged) \<Rightarrow> 'b logged" where
  "bindL m f = (case m of
     (Inl e, l) \<Rightarrow> (Inl e, l)
   | (Inr x, l) \<Rightarrow> (case f x of (r, l') \<Rightarrow> (r, l @ l')))"

definition quiet :: "'a result \<Rightarrow> 'a logged" where
  "quiet r = (r, [])"

definition warning :: "log_record \<Rightarrow> unit logged" where
  "warning rec = (Inr (), [rec])"

definition LeaderResponse_decode_log :: "bytes \<Rightarrow> int \<Rightarrow> response logged" where
  "LeaderResponse_decode_log data sc =
     (if sc \<noteq> 0 then quiet (Inl (shown_error sc (DecodeError BadSchema)))
      else if length data < 8 then quiet (Inl (DecodeError TooShort))
      else
        bindL (quiet (decode_uint64 data)) (\<lambda>n.
        bindL (quiet (decode_text IsBytes Strict MAX_ADDRESS_SIZE (drop 8 data))) (\<lambda>(a, consumed).
        if 8 + consumed \<noteq> length data then quiet (Inl (DecodeError Trailing))
        else if n = 0 \<and> a \<noteq> [] then quiet (Inl (DecodeError Malformed))
        else
          bindL (if n \<noteq> 0 \<and> a = [] then warning (LeaderUnknown n) else quiet (Inr ())) (\<lambda>_.
          quiet (LeaderResponse_init (PInt n) a)))))"

definition WelcomeResponse_decode_log :: "bytes \<Rightarrow> int \<Rightarrow> response logged" where
  "WelcomeResponse_decode_log data sc =
     (if sc \<noteq> 0 then quiet (Inl (shown_error sc (DecodeError BadSchema)))
      else if length data \<noteq> 8 then quiet (Inl (DecodeError BadLength))
      else
        bindL (quiet (decode_uint64 data)) (\<lambda>t.
        bindL (if t = 0 then warning HeartbeatZero else quiet (Inr ())) (\<lambda>_.
        quiet (WelcomeResponse_init (PInt t)))))"

text \<open>The role of a node, and the three policies for a code outside the enum; \<open>unknown\<close> is \<^verbatim>\<open>unknown_seen\<close>.\<close>

definition seen_role :: "string \<Rightarrow> int list \<Rightarrow> int \<Rightarrow> (node_role \<times> int list) result" where
  "seen_role policy unknown raw_role = (case node_role_of raw_role of
     Some r \<Rightarrow> Inr (r, unknown)
   | None \<Rightarrow>
       if policy = ''reject'' then Inl (DecodeError BadRole)
       else Inr (SPARE, if policy = ''warn'' then unknown @ [raw_role] else unknown))"

text \<open>The loop over the nodes.\<close>

fun decode_nodes_seen ::
  "string \<Rightarrow> bytes \<Rightarrow> nat \<Rightarrow> nat \<Rightarrow> int list \<Rightarrow> int list \<Rightarrow> node_info list \<Rightarrow> (node_info list \<times> nat \<times> int list) result"
where
  "decode_nodes_seen policy view 0 offset seen unknown nodes = Inr (nodes, offset, unknown)"
| "decode_nodes_seen policy view (Suc n) offset seen unknown nodes =
     bindE (decode_uint64 (drop offset view)) (\<lambda>i.
     bindE (decode_text IsView Strict MAX_ADDRESS_SIZE (drop (offset + 8) view)) (\<lambda>(a, consumed).
     if i = 0 \<or> a = [] then Inl (DecodeError Malformed)
     else if i \<in> set seen then Inl (DecodeError Duplicate)
     else
       bindE (decode_uint64 (drop (offset + 8 + consumed) view)) (\<lambda>raw_role.
       bindE (seen_role policy unknown raw_role) (\<lambda>(r, unknown').
       bindE (NodeInfo_init (PInt i) a (RoleEnum r)) (\<lambda>info.
       decode_nodes_seen policy view n (offset + 8 + consumed + 8) (i # seen) unknown' (nodes @ [info]))))))"

definition ServersResponse_decode_log :: "string \<Rightarrow> bytes \<Rightarrow> int \<Rightarrow> response logged" where
  "ServersResponse_decode_log policy data sc =
     (if sc \<noteq> 0 then quiet (Inl (shown_error sc (DecodeError BadSchema)))
      else if policy \<notin> {''reject'', ''warn'', ''accept''} then quiet (Inl (DecodeError BadPolicy))
      else
        bindL (quiet (decode_uint64 data)) (\<lambda>count.
        if int MAX_NODE_COUNT < count then quiet (Inl (DecodeError TooMany))
        else if int ((length data - 8) div 24) < count then quiet (Inl (DecodeError TooMany))
        else
          bindL (quiet (decode_nodes_seen policy data (nat count) 8 [] [] [])) (\<lambda>(nodes, offset, unknown).
          bindL (if unknown \<noteq> [] then warning (RolesSubstituted (length unknown) (sort (remdups unknown)))
                 else quiet (Inr ())) (\<lambda>_.
          if offset \<noteq> length data then quiet (Inl (DecodeError Trailing))
          else quiet (Inr (ServersResponse nodes))))))"

text \<open>The decoders of all response types; the other classes write nothing.\<close>

fun response_decode_log :: "text_errors \<Rightarrow> int \<Rightarrow> string \<Rightarrow> response_type \<Rightarrow> bytes \<Rightarrow> int \<Rightarrow> response logged" where
  "response_decode_log errors max_rows policy RS_LEADER data sc = LeaderResponse_decode_log data sc"
| "response_decode_log errors max_rows policy RS_WELCOME data sc = WelcomeResponse_decode_log data sc"
| "response_decode_log errors max_rows policy RS_SERVERS data sc = ServersResponse_decode_log policy data sc"
| "response_decode_log errors max_rows policy rt data sc = quiet (response_decode_body errors max_rows policy rt data sc)"

subsection \<open>What the log should say\<close>

text \<open>The role codes a node list carries, read off the bytes without decoding the nodes.\<close>

fun raw_roles :: "bytes \<Rightarrow> nat \<Rightarrow> nat \<Rightarrow> int list" where
  "raw_roles view 0 offset = []"
| "raw_roles view (Suc n) offset = (case decode_text IsView Strict MAX_ADDRESS_SIZE (drop (offset + 8) view) of
     Inl _ \<Rightarrow> []
   | Inr (_, consumed) \<Rightarrow>
       int (le_nat (take 8 (drop (offset + 8 + consumed) view))) # raw_roles view n (offset + 8 + consumed + 8))"

definition unknown_roles :: "bytes \<Rightarrow> int list" where
  "unknown_roles data = filter (\<lambda>r. node_role_of r = None) (raw_roles data (le_nat (take 8 data)) 8)"

text \<open>The log of a decode that returns the response given last.\<close>

fun expected_log :: "string \<Rightarrow> response_type \<Rightarrow> bytes \<Rightarrow> response \<Rightarrow> log_record list" where
  "expected_log policy RS_LEADER data (LeaderResponse n a) = (if n \<noteq> 0 \<and> a = [] then [LeaderUnknown n] else [])"
| "expected_log policy RS_WELCOME data (WelcomeResponse t) = (if t = 0 then [HeartbeatZero] else [])"
| "expected_log policy RS_SERVERS data (ServersResponse ns) =
     (if policy = ''warn'' \<and> unknown_roles data \<noteq> []
      then [RolesSubstituted (length (unknown_roles data)) (sorted_list_of_set (set (unknown_roles data)))]
      else [])"
| "expected_log policy rt data r = []"

section \<open>Lemmas\<close>

lemma fst_quiet [simp]: "fst (quiet r) = r"
  by (simp add: quiet_def)

lemma snd_quiet [simp]: "snd (quiet r) = []"
  by (simp add: quiet_def)

lemma warning_parts [simp]: "fst (warning rec) = Inr ()" "snd (warning rec) = [rec]"
  by (simp_all add: warning_def)

text \<open>Forgetting the log is a homomorphism of the two monads.\<close>

lemma fst_bindL [simp]: "fst (bindL m f) = bindE (fst m) (\<lambda>x. fst (f x))"
  by (cases m) (simp add: bindL_def bindE_def split: sum.split prod.split)

lemma snd_bindL: "snd (bindL m f) = snd m @ (case fst m of Inl e \<Rightarrow> [] | Inr x \<Rightarrow> snd (f x))"
  by (cases m) (simp add: bindL_def split: sum.split prod.split)

text \<open>The loop with \<^verbatim>\<open>unknown_seen\<close> is the loop without.\<close>

lemma decode_nodes_seen_fst:
  "bindE (decode_nodes_seen policy view n offset seen unknown nodes) (\<lambda>(ns, off, u). Inr (ns, off))
    = decode_nodes policy view n offset seen nodes"
  by (induction n arbitrary: offset seen unknown nodes)
    (auto simp: seen_role_def bindE_assoc case_prod_beta intro!: bindE_cong split: option.split)

lemma decode_nodes_seen_unknown:
  assumes "decode_nodes_seen policy view n offset seen unknown nodes = Inr (ns, off, us)"
  shows "us = unknown @ (if policy = ''warn'' then filter (\<lambda>r. node_role_of r = None) (raw_roles view n offset) else [])
    \<and> length (raw_roles view n offset) = n
    \<and> (policy = ''warn'' \<and> us = unknown \<longrightarrow> decode_nodes ''reject'' view n offset seen nodes = Inr (ns, off))"
  using assms
proof (induction n arbitrary: offset seen unknown nodes)
  case (Suc n)
  from Suc.prems obtain i a consumed raw r unknown' info where
    d: "decode_uint64 (drop offset view) = Inr i"
      "decode_text IsView Strict MAX_ADDRESS_SIZE (drop (offset + 8) view) = Inr (a, consumed)"
      "\<not> (i = 0 \<or> a = [])" "i \<notin> set seen" "decode_uint64 (drop (offset + 8 + consumed) view) = Inr raw"
    and role: "seen_role policy unknown raw = Inr (r, unknown')"
    and info: "NodeInfo_init (PInt i) a (RoleEnum r) = Inr info"
    and rest: "decode_nodes_seen policy view n (offset + 8 + consumed + 8) (i # seen) unknown' (nodes @ [info]) = Inr (ns, off, us)"
    by (auto simp: bindE_eq_Inr split: if_splits)
  have raw: "raw_roles view (Suc n) offset = raw # raw_roles view n (offset + 8 + consumed + 8)"
    using d(2,5) by (simp add: decode_uint64_def split: if_splits)
  note new = Suc.IH [OF rest]
  show ?case
  proof (cases "node_role_of raw")
    case None
    then have u: "policy \<noteq> ''reject''" "unknown' = (if policy = ''warn'' then unknown @ [raw] else unknown)"
      using role by (simp_all add: seen_role_def split: if_splits)
    then show ?thesis using new None by (simp only: raw) auto
  next
    case (Some r')
    then have "r' = r" "unknown' = unknown" using role by (simp_all add: seen_role_def)
    then show ?thesis using new d info Some by (simp only: raw) simp
  qed
qed simp

lemma decode_nodes_warn: "decode_nodes ''warn'' view n offset seen nodes = decode_nodes ''accept'' view n offset seen nodes"
  by (induction n arbitrary: offset seen nodes) (auto intro!: bindE_cong split: option.split)

lemma ServersResponse_log_fst: "fst (ServersResponse_decode_log policy data sc) = ServersResponse_decode_body policy data sc"
proof -
  have nodes: "bindE (decode_nodes_seen p data n 8 [] [] []) (\<lambda>(nodes, offset, unknown).
        if offset \<noteq> length data then Inl (DecodeError Trailing) else Inr (ServersResponse nodes))
      = bindE (decode_nodes p data n 8 [] []) (\<lambda>(nodes, offset).
          if offset \<noteq> length data then Inl (DecodeError Trailing) else Inr (ServersResponse nodes))" for n p
    unfolding decode_nodes_seen_fst [symmetric, where unknown = "[]"] bindE_assoc by (rule bindE_cong) auto
  show ?thesis
    unfolding ServersResponse_decode_log_def ServersResponse_decode_body_def nodes [symmetric]
    by (auto simp: case_prod_beta intro!: bindE_cong)
qed

text \<open>The node list of a \<^verbatim>\<open>ServersResponse\<close> that the loop accepts, and the record it leaves.\<close>

lemma servers_seen:
  assumes "decode_uint64 data = Inr count" and "count \<le> int MAX_NODE_COUNT"
    and "decode_nodes_seen policy data (nat count) 8 [] [] [] = Inr (nodes, offset, us)"
  shows "us = (if policy = ''warn'' then unknown_roles data else []) \<and> length us \<le> MAX_NODE_COUNT
    \<and> sort (remdups us) = sorted_list_of_set (set us)"
proof -
  have c: "nat count = le_nat (take 8 data)" using assms(1) by (auto simp: decode_uint64_def split: if_splits)
  have "us = (if policy = ''warn'' then unknown_roles data else [])" "length (raw_roles data (nat count) 8) = nat count"
    using decode_nodes_seen_unknown [OF assms(3)] by (simp_all add: unknown_roles_def c)
  moreover have "length (unknown_roles data) \<le> length (raw_roles data (nat count) 8)"
    by (simp add: unknown_roles_def c)
  ultimately show ?thesis using assms(2) by (auto simp: sorted_list_of_set_sort_remdups)
qed

lemma ServersResponse_log:
  assumes "snd (ServersResponse_decode_log policy data sc) \<noteq> []"
  shows "snd (ServersResponse_decode_log policy data sc)
      = [RolesSubstituted (length (unknown_roles data)) (sorted_list_of_set (set (unknown_roles data)))]
    \<and> policy = ''warn'' \<and> unknown_roles data \<noteq> [] \<and> length (unknown_roles data) \<le> MAX_NODE_COUNT"
proof -
  from assms obtain count nodes offset us where
    d: "sc = 0" "policy \<in> {''reject'', ''warn'', ''accept''}" "decode_uint64 data = Inr count" "count \<le> int MAX_NODE_COUNT"
      "count \<le> int ((length data - 8) div 24)" "us \<noteq> []"
      "decode_nodes_seen policy data (nat count) 8 [] [] [] = Inr (nodes, offset, us)"
    by (auto simp: ServersResponse_decode_log_def snd_bindL split: if_splits sum.splits)
  have "snd (ServersResponse_decode_log policy data sc) = [RolesSubstituted (length us) (sort (remdups us))]"
    using d by (simp add: ServersResponse_decode_log_def snd_bindL)
  then show ?thesis using servers_seen [OF d(3,4,7)] d(6) by (simp split: if_splits)
qed

text \<open>A success leaves the record expected; under \<^verbatim>\<open>warn\<close>, a success without a record is one under \<^verbatim>\<open>reject\<close>.\<close>

lemma ServersResponse_success:
  assumes "ServersResponse_decode_log policy data sc = (Inr r, l)"
  shows "l = expected_log policy RS_SERVERS data r"
    and "policy = ''warn'' \<Longrightarrow> l = [] \<Longrightarrow> ServersResponse_decode_body ''reject'' data sc = Inr r"
proof -
  have s: "snd (ServersResponse_decode_log policy data sc) = l" "fst (ServersResponse_decode_log policy data sc) = Inr r"
    using assms by simp_all
  from s(2) obtain count nodes us where
    d: "sc = 0" "policy \<in> {''reject'', ''warn'', ''accept''}" "decode_uint64 data = Inr count" "count \<le> int MAX_NODE_COUNT"
      "count \<le> int ((length data - 8) div 24)"
      "decode_nodes_seen policy data (nat count) 8 [] [] [] = Inr (nodes, length data, us)" "r = ServersResponse nodes"
    by (auto simp: ServersResponse_decode_log_def bindE_eq_Inr split: if_splits)
  have "snd (ServersResponse_decode_log policy data sc)
      = (if us \<noteq> [] then [RolesSubstituted (length us) (sort (remdups us))] else [])"
    using d by (simp add: ServersResponse_decode_log_def snd_bindL)
  then have l: "l = (if us \<noteq> [] then [RolesSubstituted (length us) (sort (remdups us))] else [])"
    using s(1) by simp
  then show "l = expected_log policy RS_SERVERS data r"
    using servers_seen [OF d(3,4,6)] d(7) by (simp split: if_splits)
  show "ServersResponse_decode_body ''reject'' data sc = Inr r" if "policy = ''warn''" "l = []"
  proof -
    have "us = []" using l that(2) by (simp split: if_splits)
    then have "decode_nodes ''reject'' data (nat count) 8 [] [] = Inr (nodes, length data)"
      using decode_nodes_seen_unknown [OF d(6)] that(1) by simp
    then show ?thesis using d by (simp add: ServersResponse_decode_body_def)
  qed
qed

lemma LeaderResponse_log:
  "fst (LeaderResponse_decode_log data sc) = LeaderResponse_decode_body data sc"
  "snd (LeaderResponse_decode_log data sc) = [] \<or> (\<exists>n. snd (LeaderResponse_decode_log data sc) = [LeaderUnknown n])"
  "LeaderResponse_decode_log data sc = (Inr r, l) \<Longrightarrow> l = expected_log policy RS_LEADER data r"
  by (auto simp: LeaderResponse_decode_log_def LeaderResponse_decode_body_def case_prod_beta snd_bindL
      split: sum.split intro!: bindE_cong)
    (auto simp: bindL_def quiet_def warning_def LeaderResponse_init_def validate_uint64_def bindE_eq_Inr
      split: if_splits sum.splits prod.splits)

lemma WelcomeResponse_log:
  "fst (WelcomeResponse_decode_log data sc) = WelcomeResponse_decode_body data sc"
  "snd (WelcomeResponse_decode_log data sc) = [] \<or> snd (WelcomeResponse_decode_log data sc) = [HeartbeatZero]"
  "WelcomeResponse_decode_log data sc = (Inr r, l) \<Longrightarrow> l = expected_log policy RS_WELCOME data r"
  by (auto simp: WelcomeResponse_decode_log_def WelcomeResponse_decode_body_def snd_bindL
      split: sum.split intro!: bindE_cong)
    (auto simp: bindL_def quiet_def warning_def WelcomeResponse_init_def validate_uint64_def bindE_eq_Inr
      split: if_splits sum.splits prod.splits)

section \<open>The property\<close>

text \<open>
  C37 (log_faithful): writing to the log never changes what decoding returns, and one response
  writes at most one record.  The log of a decode that succeeds is the one expected: a leader reply
  with an id and no address, a welcome with a heartbeat of 0, or, under \<^verbatim>\<open>warn\<close>, a node list with
  role codes outside the enum.  The record of the last counts the nodes concerned and lists exactly
  their codes, once each and in order, as the bytes carry them; it is the same when the decode
  fails after the nodes, and no other policy or response writes it.  What decodes under \<^verbatim>\<open>warn\<close>
  without a record also decodes under \<^verbatim>\<open>reject\<close>, and \<^verbatim>\<open>accept\<close> returns what \<^verbatim>\<open>warn\<close> returns.
\<close>

theorem log_faithful:
  "fst (response_decode_log errors max_rows policy rt data sc) = response_decode_body errors max_rows policy rt data sc
   \<and> length (snd (response_decode_log errors max_rows policy rt data sc)) \<le> 1
   \<and> (response_decode_log errors max_rows policy rt data sc = (Inr r, l) \<longrightarrow> l = expected_log policy rt data r)
   \<and> (RolesSubstituted k us \<in> set (snd (response_decode_log errors max_rows policy rt data sc)) \<longrightarrow>
        policy = ''warn'' \<and> rt = RS_SERVERS \<and> unknown_roles data \<noteq> []
        \<and> k = length (unknown_roles data) \<and> k \<le> MAX_NODE_COUNT
        \<and> set us = set (unknown_roles data) \<and> sorted us \<and> distinct us)
   \<and> (response_decode_log errors max_rows ''warn'' RS_SERVERS data sc = (Inr r, []) \<longrightarrow>
        response_decode_body errors max_rows ''reject'' RS_SERVERS data sc = Inr r)
   \<and> response_decode_body errors max_rows ''accept'' RS_SERVERS data sc
        = response_decode_body errors max_rows ''warn'' RS_SERVERS data sc"
proof (intro conjI)
  note few = LeaderResponse_log(2) [of data sc] WelcomeResponse_log(2) [of data sc] ServersResponse_log [of policy data sc]
  show "fst (response_decode_log errors max_rows policy rt data sc) = response_decode_body errors max_rows policy rt data sc"
    using LeaderResponse_log(1) WelcomeResponse_log(1) ServersResponse_log_fst by (cases rt) simp_all
  show "length (snd (response_decode_log errors max_rows policy rt data sc)) \<le> 1"
    using few by (cases rt; cases "snd (ServersResponse_decode_log policy data sc) = []") auto
  show "response_decode_log errors max_rows policy rt data sc = (Inr r, l) \<longrightarrow> l = expected_log policy rt data r"
    using LeaderResponse_log(3) WelcomeResponse_log(3) ServersResponse_success(1)
    by (cases rt) (auto simp: quiet_def)
  show "RolesSubstituted k us \<in> set (snd (response_decode_log errors max_rows policy rt data sc)) \<longrightarrow>
      policy = ''warn'' \<and> rt = RS_SERVERS \<and> unknown_roles data \<noteq> []
      \<and> k = length (unknown_roles data) \<and> k \<le> MAX_NODE_COUNT
      \<and> set us = set (unknown_roles data) \<and> sorted us \<and> distinct us"
    using few by (cases rt; cases "snd (ServersResponse_decode_log policy data sc) = []") auto
  show "response_decode_log errors max_rows ''warn'' RS_SERVERS data sc = (Inr r, []) \<longrightarrow>
      response_decode_body errors max_rows ''reject'' RS_SERVERS data sc = Inr r"
    using ServersResponse_success(2) by simp
  show "response_decode_body errors max_rows ''accept'' RS_SERVERS data sc
      = response_decode_body errors max_rows ''warn'' RS_SERVERS data sc"
    by (simp add: ServersResponse_decode_body_def decode_nodes_warn cong: if_cong)
qed

text \<open>Three nodes with the roles 7, 0 and 5.\<close>

theorem log_faithful_witness:
  "(let data = [3, 0, 0, 0, 0, 0, 0, 0, 1, 0, 0, 0, 0, 0, 0, 0, 97, 0, 0, 0, 0, 0, 0, 0, 7, 0, 0, 0, 0, 0, 0, 0,
        2, 0, 0, 0, 0, 0, 0, 0, 98, 0, 0, 0, 0, 0, 0, 0, 0, 0, 0, 0, 0, 0, 0, 0,
        3, 0, 0, 0, 0, 0, 0, 0, 99, 0, 0, 0, 0, 0, 0, 0, 5, 0, 0, 0, 0, 0, 0, 0] :: bytes;
      log = snd (response_decode_log Strict 10 ''warn'' RS_SERVERS data 0)
    in log = [RolesSubstituted 2 [5, 7]] \<and> length log \<le> 1 \<and> length (unknown_roles data) = 2
      \<and> set (unknown_roles data) = {5, 7})"
proof -
  let ?data = "[3, 0, 0, 0, 0, 0, 0, 0, 1, 0, 0, 0, 0, 0, 0, 0, 97, 0, 0, 0, 0, 0, 0, 0, 7, 0, 0, 0, 0, 0, 0, 0,
        2, 0, 0, 0, 0, 0, 0, 0, 98, 0, 0, 0, 0, 0, 0, 0, 0, 0, 0, 0, 0, 0, 0, 0,
        3, 0, 0, 0, 0, 0, 0, 0, 99, 0, 0, 0, 0, 0, 0, 0, 5, 0, 0, 0, 0, 0, 0, 0] :: bytes"
  have l: "snd (response_decode_log Strict 10 ''warn'' RS_SERVERS ?data 0) = [RolesSubstituted 2 [5, 7]]" by code_simp
  then show ?thesis
    using log_faithful [of Strict 10 "''warn''" RS_SERVERS ?data 0 EmptyResponse "[]" 2 "[5, 7]"]
    unfolding Let_def l by auto
qed

end
