(* ===== verification/Summaries.thy ===== *)
theory Summaries
  imports Responses
begin

text \<open>
  The summaries \<^verbatim>\<open>__repr__\<close> writes for the responses that can be large
  (\<^verbatim>\<open>src/dqlitewire/messages/responses.py\<close>): counts in place of rows, contents and the tail of a
  list; and the cut \<^verbatim>\<open>repr\<close> of a value in an error message.  How Python quotes a \<^verbatim>\<open>str\<close> depends on the Unicode tables of the interpreter and is the
  argument \<open>str_repr\<close>; the statements hold for any.
\<close>

section \<open>Definitions\<close>

text \<open>\<^verbatim>\<open>", ".join(xs)\<close> and the \<^verbatim>\<open>repr\<close> of a list, given those of its elements.\<close>

fun comma_join :: "pystr list \<Rightarrow> pystr" where
  "comma_join [] = []"
| "comma_join [x] = x"
| "comma_join (x # xs) = x @ ascii '', '' @ comma_join xs"

definition list_repr :: "pystr list \<Rightarrow> pystr" where
  "list_repr xs = ascii ''['' @ comma_join xs @ ascii '']''"

fun value_type_name :: "value_type \<Rightarrow> string" where
  "value_type_name INTEGER = ''INTEGER''"
| "value_type_name FLOAT = ''FLOAT''"
| "value_type_name TEXT = ''TEXT''"
| "value_type_name BLOB = ''BLOB''"
| "value_type_name NULL = ''NULL''"
| "value_type_name UNIXTIME = ''UNIXTIME''"
| "value_type_name ISO8601 = ''ISO8601''"
| "value_type_name BOOLEAN = ''BOOLEAN''"

definition value_type_repr :: "value_type \<Rightarrow> pystr" where
  "value_type_repr t = ascii ''<ValueType.'' @ ascii (value_type_name t) @ ascii '': '' @ int_str (value_type_code t) @ ascii ''>''"

definition RowsResponse_repr :: "(pystr \<Rightarrow> pystr) \<Rightarrow> rows_response \<Rightarrow> pystr" where
  "RowsResponse_repr str_repr r =
     ascii ''RowsResponse(column_names='' @ list_repr (map str_repr (column_names r))
     @ ascii '', column_types='' @ list_repr (map value_type_repr (column_types r))
     @ ascii '', row_types=<'' @ nat_digits (length (row_types r)) @ ascii '' items>, rows=<''
     @ nat_digits (length (rows r)) @ ascii '' items>, has_more=''
     @ ascii (if has_more r then ''True'' else ''False'') @ ascii '')''"

text \<open>\<^verbatim>\<open>f", +{more} more" if more > 0 else ""\<close>.\<close>

definition more_tail :: "int \<Rightarrow> pystr" where
  "more_tail others = (if 0 < others then ascii '', +'' @ int_str others @ ascii '' more'' else [])"

definition FilesResponse_repr :: "(pystr \<Rightarrow> pystr) \<Rightarrow> (pystr \<times> bytes) list \<Rightarrow> pystr" where
  "FilesResponse_repr str_repr files =
     (let head = take 3 files;
          others = int (length files) - int (length head);
          sample = comma_join (map (\<lambda>(name, content).
            str_repr name @ ascii '': <'' @ nat_digits (length content) @ ascii '' bytes>'') head)
      in ascii ''FilesResponse(files={'' @ sample @ more_tail others @ ascii ''})'')"

fun node_role_name :: "node_role \<Rightarrow> string" where
  "node_role_name VOTER = ''VOTER''"
| "node_role_name STANDBY = ''STANDBY''"
| "node_role_name SPARE = ''SPARE''"

text \<open>The \<^verbatim>\<open>repr\<close> of the dataclass \<^verbatim>\<open>NodeInfo\<close>.\<close>

definition NodeInfo_repr :: "(pystr \<Rightarrow> pystr) \<Rightarrow> node_info \<Rightarrow> pystr" where
  "NodeInfo_repr str_repr n =
     ascii ''NodeInfo(node_id='' @ int_str (node_id n) @ ascii '', address='' @ str_repr (address n)
     @ ascii '', role=<NodeRole.'' @ ascii (node_role_name (role n)) @ ascii '': '' @ int_str (node_role_code (role n))
     @ ascii ''>)''"

definition ServersResponse_repr :: "(pystr \<Rightarrow> pystr) \<Rightarrow> node_info list \<Rightarrow> pystr" where
  "ServersResponse_repr str_repr nodes =
     ascii ''ServersResponse(nodes=['' @ comma_join (map (NodeInfo_repr str_repr) (take 3 nodes))
     @ more_tail (int (length nodes) - 3) @ ascii ''])''"

text \<open>\<^verbatim>\<open>_bounded_repr_any\<close> of \<^verbatim>\<open>src/dqlitewire/types.py\<close>, given \<^verbatim>\<open>repr(value)\<close>.\<close>

definition cut_repr :: "pystr \<Rightarrow> pystr" where
  "cut_repr s =
     (if length s \<le> MAX_VALUE_REPR then s
      else take MAX_VALUE_REPR s @ ascii ''... ['' @ nat_digits (length s) @ ascii '' chars]'')"

section \<open>Lemmas\<close>

text \<open>Neither cells nor file contents nor what follows the third entry reach a summary, only their number.\<close>

lemma RowsResponse_repr_counts:
  assumes "column_names q = column_names r" and "column_types q = column_types r" and "has_more q = has_more r"
    and "length (row_types q) = length (row_types r)" and "length (rows q) = length (rows r)"
  shows "RowsResponse_repr f q = RowsResponse_repr f r"
  using assms by (simp add: RowsResponse_repr_def)

lemma FilesResponse_repr_counts:
  assumes "map (map_prod id length) (take 3 fs) = map (map_prod id length) (take 3 gs)" and "length fs = length gs"
  shows "FilesResponse_repr f fs = FilesResponse_repr f gs"
proof -
  let ?entry = "\<lambda>(name, n). f name @ ascii '': <'' @ nat_digits n @ ascii '' bytes>''"
  have "map ?entry (map (map_prod id length) (take 3 fs)) = map ?entry (map (map_prod id length) (take 3 gs))"
    using assms(1) by simp
  then show ?thesis using assms(2)
    by (simp add: FilesResponse_repr_def Let_def o_def case_prod_unfold)
qed

lemma ServersResponse_repr_counts:
  assumes "take 3 ms = take 3 ns" and "length ms = length ns"
  shows "ServersResponse_repr f ms = ServersResponse_repr f ns"
  using assms by (simp add: ServersResponse_repr_def)

text \<open>The quoted value in an error message is short however large the value is.\<close>

lemma cut_repr_length:
  assumes "length s < 10 ^ k" and "0 < k"
  shows "length (cut_repr s) \<le> MAX_VALUE_REPR + 12 + k"
  using length_nat_digits [OF assms] by (simp add: cut_repr_def ascii_def)

end
