(* ===== verification/Package.thy ===== *)
theory Package
  imports Codec
begin

text \<open>
  What the package refuses to do at all: \<^verbatim>\<open>src/dqlitewire/__init__.py\<close> refuses to be imported by
  an interpreter without a global lock, unless an environment variable overrides it, and the
  objects that own a stream position refuse to be pickled (and so to be copied).
\<close>

section \<open>Definitions\<close>

text \<open>
  What the check reads of the interpreter: \<^verbatim>\<open>sys._is_gil_enabled()\<close>, which older versions do not
  have, and \<^verbatim>\<open>os.environ\<close>.
\<close>

record interpreter =
  is_gil_enabled :: "bool option"   \<comment> \<open>\<open>None\<close>: no such attribute\<close>
  environ :: "string \<Rightarrow> string option"

datatype import_outcome =
    ImportRefused       \<comment> \<open>\<^verbatim>\<open>ImportError\<close>\<close>
  | ImportWarned        \<comment> \<open>\<^verbatim>\<open>RuntimeWarning\<close>, then the module runs\<close>
  | ImportSilent

definition import_guard :: "interpreter \<Rightarrow> import_outcome" where
  "import_guard i =
     (if is_gil_enabled i = Some False then
        (if environ i ''DQLITEWIRE_ALLOW_FREE_THREADED'' \<noteq> Some ''1'' then ImportRefused else ImportWarned)
      else ImportSilent)"

text \<open>\<^verbatim>\<open>__reduce__\<close> of the three classes, which \<^verbatim>\<open>pickle\<close> and \<^verbatim>\<open>copy\<close> call; the object is not touched.\<close>

definition buffer_reduce :: "unit buffer_op" where
  "buffer_reduce b = (Inl TypeError, b)"

definition encoder_reduce :: "message_encoder \<Rightarrow> unit result" where
  "encoder_reduce enc = Inl TypeError"

definition decoder_reduce :: "unit decoder_op" where
  "decoder_reduce d = (Inl TypeError, d)"

section \<open>Lemmas\<close>

text \<open>Without a lock the package is in use only after an explicit override, and then never silently.\<close>

lemma import_guard_locked:
  "import_guard i \<noteq> ImportRefused \<and> is_gil_enabled i = Some False
    \<longleftrightarrow> import_guard i = ImportWarned"
  by (simp add: import_guard_def)

lemma import_guard_override:
  "import_guard i = ImportWarned \<Longrightarrow> environ i ''DQLITEWIRE_ALLOW_FREE_THREADED'' = Some ''1''"
  by (simp add: import_guard_def split: if_splits)

end
