(* ===== verification/Text_Handlers.thy ===== *)
theory Text_Handlers
  imports Codec
begin

text \<open>
  The \<^verbatim>\<open>text_errors\<close> argument of \<^verbatim>\<open>MessageDecoder\<close>.  The constructor admits eight names; the handlers of
  two of them, \<^verbatim>\<open>xmlcharrefreplace\<close> and \<^verbatim>\<open>namereplace\<close>, only know encoding errors and answer a
  decoding error with \<^verbatim>\<open>TypeError\<close>.  Here the decoders under such a handler are compared with the
  strict ones, from the text of a cell up to a whole frame.
\<close>

section \<open>Definitions\<close>

text \<open>The strict result, with the exception for invalid UTF-8 exchanged.\<close>

definition as_type_error :: "'a result \<Rightarrow> 'a result" where
  "as_type_error r = (if r = Inl (DecodeError BadUtf8) then Inl TypeError else r)"

section \<open>Lemmas\<close>

lemma as_type_error_Inr [simp]: "as_type_error (Inr x) = Inr x"
  by (simp add: as_type_error_def)

lemma as_type_error_Inl: "as_type_error (Inl e) = Inl (if e = DecodeError BadUtf8 then TypeError else e)"
  by (simp add: as_type_error_def)

text \<open>Exchanging the exception commutes with sequencing.\<close>

lemma as_type_error_bindE: "as_type_error (bindE m f) = bindE (as_type_error m) (\<lambda>x. as_type_error (f x))"
  by (cases m) (simp_all add: as_type_error_def)

lemma as_type_error_pair:
  "as_type_error (case p of (x, y) \<Rightarrow> f x y) = (case p of (x, y) \<Rightarrow> as_type_error (f x y))"
  by (cases p) simp

lemma as_type_error_same: "r \<noteq> Inl (DecodeError BadUtf8) \<Longrightarrow> as_type_error r = r"
  by (simp add: as_type_error_def)

lemma utf8_decode_strict_error: "utf8_decode Strict bs = Inl e \<Longrightarrow> e = UnicodeDecodeError"
proof (induction "Strict" bs rule: utf8_decode.induct)
  case (1 bs)
  then show ?case
    by (subst (asm) (3) utf8_decode.simps) (auto simp: bindE_eq_Inl split: if_splits utf8_step.splits)
qed

text \<open>What holds of one handler holds of the other: both raise \<^verbatim>\<open>TypeError\<close> wherever they are called.\<close>

abbreviation encode_only :: "text_errors \<Rightarrow> bool" where
  "encode_only h \<equiv> h = Xmlcharrefreplace \<or> h = Namereplace"

lemma utf8_decode_encode_only:
  assumes "encode_only h"
  shows "utf8_decode h bs = (case utf8_decode Strict bs of Inl e \<Rightarrow> Inl TypeError | Inr s \<Rightarrow> Inr s)"
proof (induction "Strict" bs rule: utf8_decode.induct)
  case (1 bs)
  show ?case
  proof (cases "bs = []")
    case False
    show ?thesis
    proof (cases "utf8_next bs")
      case (Scalar c n)
      then show ?thesis using 1(1) [OF False Scalar] False utf8_decode.simps [of h bs] utf8_decode.simps [of Strict bs]
        by (simp add: bindE_def split: sum.split)
    next
      case (Invalid n)
      then show ?thesis using False assms utf8_decode.simps [of h bs] utf8_decode.simps [of Strict bs] by auto
    qed
  qed simp
qed

lemma decode_utf8_encode_only:
  assumes "encode_only h"
  shows "decode_utf8_or_raise h bs = as_type_error (decode_utf8_or_raise Strict bs)"
proof (cases "utf8_decode Strict bs")
  case (Inl e)
  then show ?thesis using utf8_decode_strict_error [OF Inl]
    by (simp add: decode_utf8_or_raise_def utf8_decode_encode_only [OF assms] as_type_error_Inl)
next
  case (Inr s)
  then show ?thesis by (simp add: decode_utf8_or_raise_def utf8_decode_encode_only [OF assms])
qed

lemma decode_text_encode_only:
  assumes "encode_only h"
  shows "decode_text kind h m data = as_type_error (decode_text kind Strict m data)"
proof -
  have f: "as_type_error (finish_text d t p) = finish_text d t p" for d t p
    by (simp add: finish_text_def Let_def as_type_error_Inl)
  have b: "decode_text_bytes h m data = as_type_error (decode_text_bytes Strict m data)"
    by (simp add: decode_text_bytes_def Let_def decode_utf8_encode_only [OF assms] as_type_error_bindE f as_type_error_Inl
        split: option.split)
  then show ?thesis
    by (simp add: decode_text_def decode_text_view_eq as_type_error_Inl split: buffer_kind.split)
qed

lemma decode_value_encode_only:
  assumes "encode_only h"
  shows "decode_value kind h t data = as_type_error (decode_value kind Strict t data)"
proof (cases "t \<in> {TEXT, ISO8601}")
  case True
  then show ?thesis
    by (auto simp: decode_value_cases decode_value_text_def decode_value_iso8601_def decode_text_encode_only [OF assms]
        as_type_error_bindE as_type_error_pair)
next
  case False
  then have "decode_value kind h t data = decode_value kind Strict t data"
    by (cases t) (simp_all add: decode_value_cases decode_value_integer_def decode_value_float_def decode_value_blob_def
        decode_value_null_def decode_value_unixtime_def decode_value_boolean_def)
  moreover have "decode_value kind Strict t data \<noteq> Inl (DecodeError BadUtf8)"
    using False by (cases t) (auto simp: decode_value_cases decode_value_integer_def decode_value_float_def
        decode_value_blob_def decode_value_null_def decode_value_unixtime_def decode_value_boolean_def bindE_eq_Inl
        decode_blob_def decode_uint64_def decode_int64_def decode_double_def Let_def split: if_splits)
  ultimately show ?thesis by (simp add: as_type_error_same)
qed

lemma decode_row_values_encode_only:
  assumes "encode_only h"
  shows "decode_row_values kind h data types = as_type_error (decode_row_values kind Strict data types)"
proof -
  have "decode_each (decode_value kind h) types data off = as_type_error (decode_each (decode_value kind Strict) types data off)" for off
    by (induction types arbitrary: off)
      (simp_all add: decode_value_encode_only [OF assms] as_type_error_bindE as_type_error_pair)
  then show ?thesis by (simp add: decode_row_values_def)
qed

lemma decode_row_header_utf8: "as_type_error (decode_row_header data n) = decode_row_header data n"
proof (rule as_type_error_same)
  have "decode_row_types data is \<noteq> Inl (DecodeError BadUtf8)" for "is"
    by (induction "is") (auto simp: bindE_eq_Inl split: option.splits)
  then show "decode_row_header data n \<noteq> Inl (DecodeError BadUtf8)"
    by (auto simp: decode_row_header_def Let_def bindE_eq_Inl split: if_splits)
qed

lemma decode_rows_encode_only:
  assumes "encode_only h"
  shows "decode_rows h max_rows n view offset acc ts ct = as_type_error (decode_rows Strict max_rows n view offset acc ts ct)"
proof (induction "Strict" max_rows n view offset acc ts ct rule: decode_rows.induct)
  case (1 max_rows n view offset acc ts ct)
  note eqs = decode_rows.simps [of h max_rows n view offset acc ts ct]
    decode_rows.simps [of Strict max_rows n view offset acc ts ct]
  show ?case
  proof (cases "offset < length view")
    case False
    then show ?thesis unfolding eqs by (simp add: as_type_error_Inl)
  next
    case inside: True
    show ?thesis
    proof (cases "decode_row_header (drop offset view) n")
      case (Inl e)
      then show ?thesis using inside decode_row_header_utf8 [of "drop offset view" n] unfolding eqs
        by (auto simp: as_type_error_Inl split: if_splits)
    next
      case (Inr hc)
      obtain hdr c where hc: "hc = (hdr, c)" by (cases hc)
      show ?thesis
      proof (cases hdr)
        case (Marker m)
        then show ?thesis using inside Inr hc unfolding eqs by (simp add: as_type_error_Inl)
      next
        case (Types types)
        have v: "decode_row_values IsView h (drop (offset + c) view) types
            = as_type_error (decode_row_values IsView Strict (drop (offset + c) view) types)"
          by (rule decode_row_values_encode_only [OF assms])
        show ?thesis
        proof (cases "decode_row_values IsView Strict (drop (offset + c) view) types")
          case (Inl e)
          then show ?thesis using inside Inr hc Types v unfolding eqs by (simp add: as_type_error_Inl)
        next
          case vals: (Inr vk)
          obtain vals k where vk: "vk = (vals, k)" by (cases vk)
          show ?thesis
            using 1 [OF inside Inr hc [symmetric] Types vals vk [symmetric]] inside Inr hc Types v vals vk
            unfolding eqs by (simp add: as_type_error_Inl)
        qed
      qed
    qed
  qed
qed

text \<open>A result set: the column names are always decoded strictly, the cells by the handler.\<close>

lemma RowsResponse_encode_only:
  assumes "encode_only h"
  shows "RowsResponse_decode_body h max_rows data sc =
    (if decode_names (le_nat (take 8 data)) data 8 = Inl (DecodeError BadUtf8)
     then RowsResponse_decode_body Strict max_rows data sc
     else as_type_error (RowsResponse_decode_body Strict max_rows data sc))"
proof (cases "sc = 0 \<and> 8 \<le> length data")
  case False
  then show ?thesis
    by (auto simp: RowsResponse_decode_body_def as_type_error_Inl decode_uint64_def shown_error_eq)
next
  case True
  let ?n = "le_nat (take 8 data)"
  have c: "decode_uint64 data = Inr (int ?n)" using True by (simp add: decode_uint64_def)
  have z: "as_type_error (decode_zero_columns data offset) = decode_zero_columns data offset" for offset
    by (rule as_type_error_same)
      (auto simp: decode_zero_columns_def Let_def bindE_eq_Inl split: if_splits)
  show ?thesis
  proof (cases "decode_names ?n data 8")
    case (Inl e)
    then show ?thesis using True c by (simp add: RowsResponse_decode_body_def as_type_error_Inl Let_def)
  next
    case (Inr names)
    then show ?thesis using True c
      by (cases names) (simp add: RowsResponse_decode_body_def Let_def as_type_error_bindE as_type_error_Inl z
          decode_rows_encode_only [OF assms] as_type_error_pair)
  qed
qed

lemma decode_frame_encode_only:
  assumes "encode_only h"
  shows "decode_frame (d\<lparr>dec_text_errors := h\<rparr>) data = decode_frame (d\<lparr>dec_text_errors := Strict\<rparr>) data
    \<or> decode_frame (d\<lparr>dec_text_errors := Strict\<rparr>) data = Inl (DecodeError BadUtf8)
      \<and> decode_frame (d\<lparr>dec_text_errors := h\<rparr>) data = Inl TypeError"
proof -
  have body: "response_decode_body h n p rt bs sc = response_decode_body Strict n p rt bs sc
    \<or> response_decode_body Strict n p rt bs sc = Inl (DecodeError BadUtf8)
      \<and> response_decode_body h n p rt bs sc = Inl TypeError" for n p rt bs sc
    by (cases rt) (auto simp: RowsResponse_encode_only [OF assms] as_type_error_def)
  have frame: "decode_frame_body (d\<lparr>dec_text_errors := h\<rparr>) hdr bs = decode_frame_body (d\<lparr>dec_text_errors := Strict\<rparr>) hdr bs
    \<or> decode_frame_body (d\<lparr>dec_text_errors := Strict\<rparr>) hdr bs = Inl (DecodeError BadUtf8)
      \<and> decode_frame_body (d\<lparr>dec_text_errors := h\<rparr>) hdr bs = Inl TypeError" for hdr bs
  proof -
    have "decode_frame_body (d\<lparr>dec_text_errors := x\<rparr>) hdr bs =
      (if is_request d then decode_frame_body d hdr bs
       else (case RESPONSE_TYPES (msg_type hdr) of
           None \<Rightarrow> Inl (DecodeError BadTag)
         | Some rt \<Rightarrow>
             if max_schema False (msg_type hdr) < schema hdr then Inl (DecodeError BadSchema)
             else if rt = RS_LEADER \<and> dec_version d = Some PROTOCOL_VERSION_LEGACY then
               bindE (LeaderResponse_decode_body_legacy bs) (\<lambda>r. Inr (Response r))
             else bindE (response_decode_body x (dec_max_rows d) (unknown_role_policy d) rt bs (schema hdr)) (\<lambda>r. Inr (Response r))))" for x
      by (simp add: decode_frame_body_def cong: if_cong option.case_cong)
    note eq = this [of h] this [of Strict]
    show ?thesis
    proof (cases "RESPONSE_TYPES (msg_type hdr)")
      case None
      then show ?thesis unfolding eq by simp
    next
      case (Some rt)
      then show ?thesis unfolding eq using body [of "dec_max_rows d" "unknown_role_policy d" rt bs "schema hdr"]
        by (auto split: if_splits)
    qed
  qed
  show ?thesis
  proof (cases "header_decode (take HEADER_SIZE data)")
    case (Inl e)
    then show ?thesis by (simp add: decode_frame_def)
  next
    case (Inr hdr)
    then show ?thesis using frame [of hdr "drop HEADER_SIZE data"]
      by (simp add: decode_frame_def Let_def)
  qed
qed

section \<open>The property\<close>

text \<open>
  C38 (encode_only_handler): the constructor also accepts the names of the two handlers that can
  only encode, for the same arguments as it accepts \<^verbatim>\<open>"strict"\<close>, and builds the same decoder but for
  the handler.  With it every value that strictly decodes, or fails for another reason than its
  UTF-8, is decoded or refused the same; invalid text raises \<^verbatim>\<open>TypeError\<close> where the strict decoder
  raises \<^verbatim>\<open>DecodeError\<close>.  In a result set this concerns the cells and not the column names, which
  are always decoded strictly.  A whole frame gives what it gives a strict decoder, or the strict
  one reports invalid UTF-8 and this one raises \<^verbatim>\<open>TypeError\<close>, which is no \<^verbatim>\<open>ProtocolError\<close>.
\<close>

theorem encode_only_handler:
  assumes "(name, h) \<in> {(''xmlcharrefreplace'', Xmlcharrefreplace), (''namereplace'', Namereplace)}"
  shows "decoder_init (a\<lparr>arg_text_errors := name\<rparr>)
      = bindE (decoder_init (a\<lparr>arg_text_errors := ''strict''\<rparr>)) (\<lambda>d. Inr (d\<lparr>dec_text_errors := h\<rparr>))
    \<and> decode_value kind h t data = as_type_error (decode_value kind Strict t data)
    \<and> RowsResponse_decode_body h max_rows data sc =
        (if decode_names (le_nat (take 8 data)) data 8 = Inl (DecodeError BadUtf8)
         then RowsResponse_decode_body Strict max_rows data sc
         else as_type_error (RowsResponse_decode_body Strict max_rows data sc))
    \<and> (decode_bytes (d\<lparr>dec_text_errors := h\<rparr>) data = decode_bytes (d\<lparr>dec_text_errors := Strict\<rparr>) data
       \<or> decode_bytes (d\<lparr>dec_text_errors := Strict\<rparr>) data = Inl (DecodeError BadUtf8)
         \<and> decode_bytes (d\<lparr>dec_text_errors := h\<rparr>) data = Inl TypeError)
    \<and> \<not> is_ProtocolError TypeError"
proof -
  have h: "encode_only h" using assms by auto
  have init: "decoder_init (a\<lparr>arg_text_errors := name\<rparr>)
      = bindE (decoder_init (a\<lparr>arg_text_errors := ''strict''\<rparr>)) (\<lambda>d. Inr (d\<lparr>dec_text_errors := h\<rparr>))"
    using assms by (auto simp: decoder_init_def text_errors_named_def bindE_def split: sum.split)
  have "decode_bytes (d\<lparr>dec_text_errors := h\<rparr>) data = decode_bytes (d\<lparr>dec_text_errors := Strict\<rparr>) data
       \<or> decode_bytes (d\<lparr>dec_text_errors := Strict\<rparr>) data = Inl (DecodeError BadUtf8)
         \<and> decode_bytes (d\<lparr>dec_text_errors := h\<rparr>) data = Inl TypeError"
    using decode_frame_encode_only [OF h, of d data]
    by (cases "check_poisoned (dec_buffer d)") (simp_all add: decode_bytes_def)
  then show ?thesis
    using init decode_value_encode_only [OF h] RowsResponse_encode_only [OF h] by simp
qed

text \<open>The byte 0xC0 in a TEXT cell: as a value, and in the result set of a whole frame.\<close>

theorem encode_only_handler_witness:
  "decode_value IsView Namereplace TEXT [0xC0, 0, 0, 0, 0, 0, 0, 0] = Inl TypeError
   \<and> RowsResponse_decode_body Xmlcharrefreplace 10
       [1, 0, 0, 0, 0, 0, 0, 0, 97, 0, 0, 0, 0, 0, 0, 0, 3, 0, 0, 0, 0, 0, 0, 0,
         0xC0, 0, 0, 0, 0, 0, 0, 0, 0xFF, 0xFF, 0xFF, 0xFF, 0xFF, 0xFF, 0xFF, 0xFF] 0 = Inl TypeError"
proof
  let ?body = "[1, 0, 0, 0, 0, 0, 0, 0, 97, 0, 0, 0, 0, 0, 0, 0, 3, 0, 0, 0, 0, 0, 0, 0,
         0xC0, 0, 0, 0, 0, 0, 0, 0, 0xFF, 0xFF, 0xFF, 0xFF, 0xFF, 0xFF, 0xFF, 0xFF] :: bytes"
  have "decode_value IsView Strict TEXT [0xC0, 0, 0, 0, 0, 0, 0, 0] = Inl (DecodeError BadUtf8)" by code_simp
  then show "decode_value IsView Namereplace TEXT [0xC0, 0, 0, 0, 0, 0, 0, 0] = Inl TypeError"
    using encode_only_handler [of "''namereplace''" Namereplace, THEN conjunct2, THEN conjunct1]
    by (simp add: as_type_error_def)
  have r: "RowsResponse_decode_body Strict 10 ?body 0 = Inl (DecodeError BadUtf8)"
    "decode_names (le_nat (take 8 ?body)) ?body 8 = Inr ([[97]], 16)" by code_simp+
  show "RowsResponse_decode_body Xmlcharrefreplace 10 ?body 0 = Inl TypeError"
    using encode_only_handler [of "''xmlcharrefreplace''" Xmlcharrefreplace, THEN conjunct2, THEN conjunct2, THEN conjunct1,
        of 10 ?body 0] r
    by (simp only: as_type_error_def if_False if_True simp_thms sum.simps) simp
qed

text \<open>The same for \<^verbatim>\<open>decode_message\<close> with the name as its argument.\<close>

lemma encode_only_message:
  "decode_message
     ([5, 0, 0, 0, 7, 0, 0, 0, 1, 0, 0, 0, 0, 0, 0, 0, 97, 0, 0, 0, 0, 0, 0, 0, 3, 0, 0, 0, 0, 0, 0, 0,
       0xC0, 0, 0, 0, 0, 0, 0, 0, 0xFF, 0xFF, 0xFF, 0xFF, 0xFF, 0xFF, 0xFF, 0xFF])
     False 1 ''reject'' ''xmlcharrefreplace'' None None None None = Inl TypeError"
  by code_simp

end
