(* ===== verification/Spec2Isabelle.thy ===== *)
theory Spec2Isabelle
  imports Error_Codes Server_Text Interrupts Normal_Form Dialogue Connection Object_Store Logging Summaries Package Text_Handlers
begin

text \<open>
  \<^bold>\<open>dqlitewire\<close>: a verification library for the Python implementation of the dqlite wire protocol
  under \<^verbatim>\<open>src/src/dqlitewire/\<close>.

  \<^bold>\<open>The program.\<close>  A client and a server exchange frames: an 8-byte header (size in words, type,
  schema, reserved) and a body of whole 8-byte words.  Bodies are built from primitives
  (\<^verbatim>\<open>types.py\<close>), parameter and row tuples (\<^verbatim>\<open>tuples.py\<close>) and the fields of the twenty request and
  eleven response classes (\<^verbatim>\<open>messages/\<close>).  \<^verbatim>\<open>ReadBuffer\<close> (\<^verbatim>\<open>buffer.py\<close>) cuts a byte stream into
  frames; \<^verbatim>\<open>MessageDecoder\<close> (\<^verbatim>\<open>codec.py\<close>) turns frames into messages and keeps the protocol
  state: the version handshake, result sets that span frames, and poisoning after an error that
  leaves the stream position unknown.  \<^verbatim>\<open>MessageEncoder\<close> writes.

  \<^bold>\<open>The theories\<close>, each importing the ones it calls:

  \<^item> \<open>Wire_Prelude\<close>: bytes, little-endian integers, the result monad \<open>bindE\<close> on
    \<open>error + value\<close>, and three interfaces of field decoders as locales: \<open>field_codec\<close> (a decoder
    inverts an encoder on one field, hence on a sequence of fields), \<open>word_decoder\<close> (it consumes
    whole words inside the data) and \<open>strict_decoder\<close> (it raises only allowed exceptions).
  \<^item> \<open>Wire_Exceptions\<close> (\<^verbatim>\<open>exceptions.py\<close>), \<open>Wire_Constants\<close> (\<^verbatim>\<open>constants.py\<close>, \<^verbatim>\<open>limits.py\<close>) and
    \<open>Error_Codes\<close> (the SQLite and dqlite codes and their classifiers).
  \<^item> \<open>Utf8\<close>: Python's UTF-8 codec with its error handlers, which the text fields rest on.
  \<^item> \<open>Server_Text\<close> (\<^verbatim>\<open>truncate.py\<close> and the sanitisers of \<^verbatim>\<open>messages/responses.py\<close>).
  \<^item> \<open>Primitives\<close> (\<^verbatim>\<open>types.py\<close>): integers, doubles, text, blobs, typed values.  The locales of the
    prelude are interpreted here on the value, text and integer codecs.
  \<^item> \<open>Tuples\<close> (\<^verbatim>\<open>tuples.py\<close>), \<open>Message_Base\<close> (\<^verbatim>\<open>messages/base.py\<close>), \<open>Requests\<close>
    (\<^verbatim>\<open>messages/requests.py\<close>), \<open>Rows_Response\<close> and \<open>Responses\<close> (\<^verbatim>\<open>messages/responses.py\<close>).
  \<^item> \<open>Buffer\<close> (\<^verbatim>\<open>buffer.py\<close>).  The locale \<open>byte_stream\<close> is the contract of a source of frames: a
    feed appends to its content, a read cuts a frame off the front.  \<open>ReadBuffer\<close> is an instance
    through the abstraction \<open>pending\<close>, whatever its positions and compactions do.
  \<^item> \<open>Scripted_Reader\<close>: the locale \<open>scripted_reader\<close>, an operation that consumes the frames of a
    byte stream; what holds for one frame carries over to a stream in any chunks.  Instances:
    \<^verbatim>\<open>decode\<close> between messages (in \<open>Codec\<close>) and the client of \<open>Dialogue\<close>.
  \<^item> \<open>Codec\<close> (\<^verbatim>\<open>codec.py\<close>): dispatch tables, encoder, decoder, stateless helpers.  The decoder's
    \<^verbatim>\<open>feed\<close> and \<^verbatim>\<open>take_frame\<close> are a second instance of \<open>byte_stream\<close>.
  \<^item> \<open>Object_Store\<close>: construction and decoding of a \<^verbatim>\<open>RowsResponse\<close> over mutable list objects in a
    store, allocation by allocation, with the alias of \<^verbatim>\<open>column_types\<close> and the first row's types.
  \<^item> \<open>Sessions\<close>: messages through the stateless helpers and through a chunked stream, result sets
    over several frames.
  \<^item> \<open>Conformance\<close>: typing of decoded objects, with the locale \<open>typed_decoder\<close> for one field.
  \<^item> \<open>Normal_Form\<close>: what a decoder returns can be written again, with the locale \<open>rewriter\<close>.
  \<^item> \<open>Draining\<close>: the client's loop around \<^verbatim>\<open>has_message()\<close>.
  \<^item> \<open>Dialogue\<close>: everything a server answers on one connection, with result sets that end well, in
    a failure or in an interrupt, and a client that reads on after each.
  \<^item> \<open>Logging\<close> (the \<^verbatim>\<open>logger.warning\<close> calls), \<open>Summaries\<close> (the \<^verbatim>\<open>__repr__\<close> methods) and \<open>Package\<close>
    (the interpreter check of \<^verbatim>\<open>__init__.py\<close> and the guards against pickling).
  \<^item> \<open>Text_Handlers\<close>: the two \<^verbatim>\<open>text_errors\<close> names that cannot decode, compared with \<^verbatim>\<open>"strict"\<close>
    from a cell to a frame.
  \<^item> \<open>Decoder_States\<close>: the protocol automaton, reachable decoders, errors and reset.
  \<^item> \<open>Connection\<close>: a client's encoder and a server's decoder from the first byte on, handshake
    included.
  \<^item> \<open>Interrupts\<close>: the sections guarded by \<^verbatim>\<open>except BaseException\<close>, store by store, and what an
    asynchronous exception between two stores leaves.  Run to the end, a section gives the result
    of the atomic method (\<open>section_stores\<close>).

  \<^bold>\<open>How code and model correspond.\<close>  A class is a record with the attributes of the source, an
  enum or a family of classes a datatype, a method a function with the source's name (prefixed by
  its class where names clash) that takes the object and returns its result together with the
  object after the call.  Every \<^verbatim>\<open>raise\<close> is a value \<open>Inl e\<close>; in place of the rendered message an
  exception carries the kind of check that failed.  Python ints are \<open>int\<close>, and a field's range
  check and wrap-around are written out where the source has them; bytes are 8-bit words;
  strings are lists of code points, lone surrogates included.  Values a caller passes in are
  \<open>pyval\<close>, so that type checks of the source are branches of the model.  Where a message prints an
  int the caller chose, CPython's limit of 4300 digits applies (\<open>shown_error\<close>): beyond it the
  \<^verbatim>\<open>raise\<close> ends in \<^verbatim>\<open>ValueError\<close>.  Caps a caller configures are taken to be printable.
  Lists are values, except in \<open>Object_Store\<close>, which shows that nothing is lost by that.

  \<^bold>\<open>What is shown.\<close>  Round trips: values, tuples, rows, every request and response, whole
  messages, and streams of them in any chunking (\<open>message_stream\<close>), with
  the handshake in front (\<open>client_session\<close>) and for whole dialogues with result sets, failures
  and interrupts (\<open>server_dialogue\<close>); bytes of any
  peer, once decoded, encode to a normal form that decodes to the same message
  (\<open>decode_normal_form\<close>).  Types: a decoded object is one its constructor accepts, with well-typed
  contents (\<open>decoded_well_typed\<close>).  Safety of the stream: no byte is lost, repeated or
  reordered (\<open>stream_conserved\<close>), and framing is exact (\<open>stream_delivers\<close>).  Refinement: every
  call on every reachable decoder is a move of the protocol automaton (\<open>decoder_refines\<close>), with
  invariants for reachable buffers and decoders and a reset that restores the constructor's state.
  Errors: which exceptions can occur at all, which calls poison, what an error leaves behind.
  Interruption: wherever a signal hits a feed or a read, the frames handed out are still cut at
  true boundaries (\<open>interrupted_stream\<close>); hit inside their guarded sections, \<^verbatim>\<open>decode\<close> and
  \<^verbatim>\<open>decode_continuation\<close> leave a dead decoder; \<^verbatim>\<open>decode_handshake\<close> takes its commits back, and
  where it was hit decides whether a retry succeeds (\<open>handshake_interrupt\<close>).  Sharing: no list of a response is shared
  (\<open>decoded_lists_unshared\<close>, \<open>constructed_lists_unshared\<close>).
  Bounds: memory held by the buffer, size of what a body can be decoded to, caps on rows and
  frames.  Equivalence: the chunked text scan is one bounded search; decoding with the log is
  decoding without it, and the log says what the bytes say (\<open>log_faithful\<close>).

  \<^bold>\<open>Loops.\<close>  Loops over a counted or finite sequence are structural recursion.  The row loop of
  \<^verbatim>\<open>RowsResponse.decode_body\<close> runs to a marker; it is a function with the termination measure
  \<open>max_rows - length rows\<close>, as the source stops at the cap.  The chunked scan for a NUL and the
  UTF-8 decoder recurse on the bytes left.  Two loops are partial
  functions, with the proof that they return: the client's loop \<open>drain\<close>, because each call of its
  body takes at least a header off the buffer (\<open>drain_returns\<close>), and the row loop over objects
  (\<open>decoded_lists_unshared\<close>).  No function has fuel.

  \<^bold>\<open>Parameters.\<close>  \<^verbatim>\<open>datetime.fromisoformat\<close> decides whether a string passes as an ISO 8601 text;
  it is the predicate argument \<open>iso_ok\<close> of the encoders, and every theorem holds for any
  predicate.  \<open>str_repr\<close>, how the interpreter quotes a \<^verbatim>\<open>str\<close>, is an argument of the summaries.

  \<^bold>\<open>Not modelled.\<close>  Asynchronous exceptions outside the sections of \<^verbatim>\<open>ReadBuffer\<close>, \<^verbatim>\<open>decode\<close>,
  \<^verbatim>\<open>decode_continuation\<close> and \<^verbatim>\<open>decode_handshake\<close>, and inside a handler: other methods are atomic
  here.  Concurrent use of one object, which the source forbids.  The text of exception messages,
  the \<^verbatim>\<open>__repr__\<close> methods dataclasses generate, the float property \<^verbatim>\<open>heartbeat_timeout_seconds\<close> and
  the re-exports of the two \<^verbatim>\<open>__init__.py\<close>: no result or state depends on them.
\<close>

end
